(* ===== verification/Prelude.thy ===== *)
theory Prelude
  imports Main "HOL-Library.Word" "HOL-Library.Monad_Syntax"
begin

text \<open>
  What every component shares: machine-level type synonyms, the outcome predicate
  \<open>runs\<close> for code that may run into undefined behaviour, a panic or an endless loop,
  reference counts over finite heaps of 64-bit addresses, Rust's \<open>?\<close> operator on
  stateful methods, and decimal printing for the error strings.
\<close>

unbundle bit_operations_syntax

named_theorems world_defs \<open>definitions of small state updates, unfolded together\<close>
named_theorems runs_intros \<open>rules that reduce a call to its specification\<close>

subsection \<open>Machine types\<close>

type_synonym addr = "64 word"
type_synonym size_t = "64 word"
type_synonym u32 = "32 word"
type_synonym u64 = "64 word"
type_synonym bytes = string

text \<open>The C cast \<open>(int)ret\<close> of a wider signed value: two's complement at 32 bits.\<close>

definition c_int :: "int \<Rightarrow> int" where
  "c_int x = (x + 2 ^ 31) mod 2 ^ 32 - 2 ^ 31"

lemma c_int_id: "- (2 ^ 31) \<le> x \<Longrightarrow> x < 2 ^ 31 \<Longrightarrow> c_int x = x"
  by (simp add: c_int_def)

lemma c_int_range: "- (2 ^ 31) \<le> c_int x \<and> c_int x < 2 ^ 31"
  using pos_mod_bound [of "2 ^ 32 :: int" "x + 2 ^ 31"]
    pos_mod_sign [of "2 ^ 32 :: int" "x + 2 ^ 31"]
  by (simp add: c_int_def)

subsection \<open>Runs that end and stay defined\<close>

text \<open>
  Code that can dereference a dangling pointer, panic or loop forever returns an option,
  with \<open>None\<close> for all three. \<open>runs m Q\<close> says that none of them happens and that
  the result satisfies \<open>Q\<close>: a total-correctness weakest precondition.
\<close>

definition runs :: "'a option \<Rightarrow> ('a \<Rightarrow> bool) \<Rightarrow> bool" where
  "runs m Q = (case m of None \<Rightarrow> False | Some x \<Rightarrow> Q x)"

lemma runs_Some [simp]: "runs (Some x) Q = Q x"
  by (simp add: runs_def)

lemma runs_None [simp]: "\<not> runs None Q"
  by (simp add: runs_def)

lemma runs_bind [simp]: "runs (Option.bind m f) Q = runs m (\<lambda>x. runs (f x) Q)"
  by (cases m) simp_all

lemma runs_if: "runs (if b then m else n) Q = ((b \<longrightarrow> runs m Q) \<and> (\<not> b \<longrightarrow> runs n Q))"
  by simp

lemma runs_conseq: "runs m P \<Longrightarrow> (\<And>x. P x \<Longrightarrow> Q x) \<Longrightarrow> runs m Q"
  by (cases m) simp_all

lemma runs_conj: "runs m P \<Longrightarrow> runs m Q \<Longrightarrow> runs m (\<lambda>x. P x \<and> Q x)"
  by (cases m) simp_all

lemma runs_SomeD: "runs m Q \<Longrightarrow> m = Some x \<Longrightarrow> Q x"
  by simp

lemma runs_Ex: "runs m Q \<longleftrightarrow> (\<exists>x. m = Some x \<and> Q x)"
  by (cases m) simp_all

lemma runs_cases:
  assumes "runs m Q"
  obtains x where "m = Some x" and "Q x"
  using assms by (auto simp: runs_Ex)

subsection \<open>Rust's question mark\<close>

text \<open>
  A fallible method over a state \<open>'s\<close> returns \<open>Inl e\<close> or \<open>Inr a\<close> together with
  the state it leaves. \<open>m ? k\<close> in the source is \<open>qmark m k\<close>: an error returns at once,
  with the state as it is then.
\<close>

type_synonym 'a result = "string + 'a"
type_synonym ('s, 'a) rust = "'s \<Rightarrow> ('a result \<times> 's) option"

definition qmark :: "('s, 'a) rust \<Rightarrow> ('a \<Rightarrow> ('s, 'b) rust) \<Rightarrow> ('s, 'b) rust" where
  "qmark m k s = do {
     (r, s') \<leftarrow> m s;
     (case r of Inl e \<Rightarrow> Some (Inl e, s') | Inr a \<Rightarrow> k a s')
   }"

lemma runs_qmark:
  assumes "runs (m s) (\<lambda>(r, s'). case r of Inl e \<Rightarrow> Q (Inl e, s') | Inr a \<Rightarrow> runs (k a s') Q)"
  shows "runs (qmark m k s) Q"
proof -
  from assms obtain r s' where m: "m s = Some (r, s')"
    and r: "case r of Inl e \<Rightarrow> Q (Inl e, s') | Inr a \<Rightarrow> runs (k a s') Q"
    by (auto elim: runs_cases)
  from r show ?thesis by (cases r) (simp_all add: qmark_def m)
qed

definition is_ok :: "'e + 'a \<Rightarrow> bool" where
  "is_ok r = (case r of Inl _ \<Rightarrow> False | Inr _ \<Rightarrow> True)"

lemma is_ok_simps [simp]: "is_ok (Inr a)" "\<not> is_ok (Inl e)"
  by (simp_all add: is_ok_def)

lemma is_ok_Ex: "is_ok r \<longleftrightarrow> (\<exists>a. r = Inr a)"
  by (cases r) simp_all

subsection \<open>Reference counts\<close>

text \<open>
  The shim counts the objects that refer to a parent in a \<open>size_t\<close>. \<open>refs m P\<close> is
  that count, at its width, for the objects of the heap \<open>m\<close> that satisfy \<open>P\<close>.
\<close>

definition refset :: "(addr \<rightharpoonup> 'o) \<Rightarrow> ('o \<Rightarrow> bool) \<Rightarrow> addr set" where
  "refset m P = {a. \<exists>x. m a = Some x \<and> P x}"

definition refs :: "(addr \<rightharpoonup> 'o) \<Rightarrow> ('o \<Rightarrow> bool) \<Rightarrow> size_t" where
  "refs m P = of_nat (card (refset m P))"

lemma refset_finite [simp]: "finite (refset m P)"
  by (rule finite_subset [OF subset_UNIV]) simp

lemma refset_subset_dom: "refset m P \<subseteq> dom m"
  by (auto simp: refset_def)

lemma refs_new:
  assumes "m a = None"
  shows "refs (m(a \<mapsto> x)) P = refs m P + (if P x then 1 else 0)"
proof -
  have "refset (m(a \<mapsto> x)) P = (if P x then insert a (refset m P) else refset m P)"
    using assms by (auto simp: refset_def)
  moreover have "a \<notin> refset m P"
    using assms by (simp add: refset_def)
  ultimately show ?thesis by (simp add: refs_def)
qed

lemma refs_del:
  assumes "m a = Some x"
  shows "refs (m(a := None)) P = refs m P - (if P x then 1 else 0)"
proof (cases "P x")
  case True
  with assms have mem: "a \<in> refset m P" by (simp add: refset_def)
  have "refset (m(a := None)) P = refset m P - {a}"
    by (auto simp: refset_def)
  moreover have "card (refset m P) = Suc (card (refset m P - {a}))"
    by (rule card.remove [OF refset_finite mem])
  ultimately show ?thesis using True by (simp add: refs_def)
next
  case False
  with assms have "refset (m(a := None)) P = refset m P"
    by (auto simp: refset_def split: if_splits)
  with False show ?thesis by (simp add: refs_def)
qed

lemma refs_upd:
  assumes "m a = Some x"
  shows "refs (m(a \<mapsto> y)) P = refs m P - (if P x then 1 else 0) + (if P y then 1 else 0)"
proof -
  have "refs (m(a \<mapsto> y)) P = refs ((m(a := None))(a \<mapsto> y)) P" by simp
  also have "\<dots> = refs (m(a := None)) P + (if P y then 1 else 0)"
    by (rule refs_new) simp
  also have "refs (m(a := None)) P = refs m P - (if P x then 1 else 0)"
    using assms by (rule refs_del)
  finally show ?thesis .
qed

lemma refs_upd_same:
  assumes "m a = Some x" and "P y = P x"
  shows "refs (m(a \<mapsto> y)) P = refs m P"
  using assms by (simp add: refs_upd)

lemma refs_card0: "card (refset m P) = 0 \<Longrightarrow> refs m P = 0"
proof -
  assume "card (refset m P) = 0"
  then have "refs m P = of_nat 0" unfolding refs_def by (rule arg_cong [where f = of_nat])
  also have "of_nat 0 = (0 :: size_t)" by (rule semiring_1_class.of_nat_0)
  finally show "refs m P = 0" .
qed

lemma refs_none: "(\<And>a x. m a = Some x \<Longrightarrow> \<not> P x) \<Longrightarrow> refs m P = 0"
proof -
  assume "\<And>a x. m a = Some x \<Longrightarrow> \<not> P x"
  then have "refset m P = {}" by (auto simp: refset_def)
  then show ?thesis by (simp add: refs_def)
qed

lemma refs_cong:
  assumes "\<And>a. m a = n a \<or> ((\<forall>x. m a = Some x \<longrightarrow> \<not> P x) \<and> (\<forall>x. n a = Some x \<longrightarrow> \<not> P x))"
  shows "refs m P = refs n P"
proof -
  have "a \<in> refset m P \<longleftrightarrow> a \<in> refset n P" for a
    by (rule disjE [OF assms [of a]]) (auto simp: refset_def)
  then have "refset m P = refset n P" by blast
  then show ?thesis by (simp add: refs_def)
qed

text \<open>
  The counts cannot wrap: addresses are 64-bit words, 0 is never an object, and the
  counted heaps are disjoint. So a sum of counts that reads 0 means no referrer at all.
\<close>

lemma card_addr_small: "(0::addr) \<notin> A \<Longrightarrow> card A < 2 ^ 64"
proof -
  assume "(0::addr) \<notin> A"
  then have "A \<subset> UNIV" by blast
  then have "card A < card (UNIV :: addr set)"
    by (intro psubset_card_mono) simp_all
  then show ?thesis by (simp add: card_word)
qed

lemma of_nat_size_t_zero:
  assumes "n < 2 ^ 64" and "(of_nat n :: size_t) = 0"
  shows "n = 0"
proof -
  have "unat (of_nat n :: size_t) = n"
    using assms(1) by (simp add: unat_of_nat)
  with assms(2) show ?thesis by simp
qed

lemma refs_zero1:
  assumes "refs m P = 0" and "m 0 = None" and "m a = Some x"
  shows "\<not> P x"
proof -
  have "0 \<notin> refset m P" using assms(2) by (simp add: refset_def)
  then have "card (refset m P) < 2 ^ 64" by (rule card_addr_small)
  moreover have "(of_nat (card (refset m P)) :: size_t) = 0"
    using assms(1) by (simp add: refs_def)
  ultimately have "card (refset m P) = 0" by (rule of_nat_size_t_zero)
  then have "refset m P = {}" by simp
  with assms(3) show ?thesis by (auto simp: refset_def)
qed

lemma refs_zero3:
  assumes sum: "refs m P + refs n Q + refs k R = 0"
    and nulls: "m 0 = None" "n 0 = None" "k 0 = None"
    and disj: "dom m \<inter> dom n = {}" "dom m \<inter> dom k = {}" "dom n \<inter> dom k = {}"
  shows "refs m P = 0" and "refs n Q = 0" and "refs k R = 0"
proof -
  let ?A = "refset m P" and ?B = "refset n Q" and ?C = "refset k R"
  have AB: "?A \<inter> ?B = {}" and ABC: "(?A \<union> ?B) \<inter> ?C = {}"
    using disj refset_subset_dom [of m P] refset_subset_dom [of n Q] refset_subset_dom [of k R]
    by blast+
  have card3: "card (?A \<union> ?B \<union> ?C) = card ?A + card ?B + card ?C"
    using AB ABC by (simp add: card_Un_disjoint)
  have "0 \<notin> ?A \<union> ?B \<union> ?C" using nulls by (simp add: refset_def)
  then have "card (?A \<union> ?B \<union> ?C) < 2 ^ 64" by (rule card_addr_small)
  moreover have "(of_nat (card (?A \<union> ?B \<union> ?C)) :: size_t) = 0"
    using sum by (simp add: card3 refs_def)
  ultimately have "card (?A \<union> ?B \<union> ?C) = 0" by (rule of_nat_size_t_zero)
  then have "card ?A = 0" "card ?B = 0" "card ?C = 0"
    unfolding card3 by (simp_all only: add_is_0)
  then show "refs m P = 0" and "refs n Q = 0" and "refs k R = 0"
    by (auto intro: refs_card0)
qed

lemma refs_zero2:
  assumes "refs m P + refs n Q = 0" and "m 0 = None" "n 0 = None" and "dom m \<inter> dom n = {}"
  shows "refs m P = 0" and "refs n Q = 0"
proof -
  have e: "refs (Map.empty :: addr \<rightharpoonup> unit) (\<lambda>_. True) = 0" by (rule refs_none) simp
  have s: "refs m P + refs n Q + refs (Map.empty :: addr \<rightharpoonup> unit) (\<lambda>_. True) = 0"
    using assms(1) by (simp only: e add_0_right)
  show "refs m P = 0" by (rule refs_zero3(1) [OF s]) (use assms in simp_all)
  show "refs n Q = 0" by (rule refs_zero3(2) [OF s]) (use assms in simp_all)
qed

subsection \<open>Decimal printing\<close>

text \<open>Rust's \<open>Display\<close> for integers, and \<open>Debug\<close> for byte vectors and booleans.\<close>

fun show_nat :: "nat \<Rightarrow> string" where
  "show_nat n = (if n < 10 then [char_of (48 + n)]
                 else show_nat (n div 10) @ [char_of (48 + n mod 10)])"

declare show_nat.simps [simp del]

definition show_int :: "int \<Rightarrow> string" where
  "show_int i = (if i < 0 then ''-'' @ show_nat (nat (- i)) else show_nat (nat i))"

fun intersperse_comma :: "string list \<Rightarrow> string" where
  "intersperse_comma [] = []"
| "intersperse_comma [x] = x"
| "intersperse_comma (x # y # xs) = x @ '', '' @ intersperse_comma (y # xs)"

definition show_bytes :: "bytes \<Rightarrow> string" where
  "show_bytes bs = ''['' @ intersperse_comma (map (\<lambda>c. show_nat (of_char c)) bs) @ '']''"

definition show_bool :: "bool \<Rightarrow> string" where
  "show_bool b = (if b then ''true'' else ''false'')"

fun read_nat :: "nat \<Rightarrow> string \<Rightarrow> nat" where
  "read_nat acc [] = acc"
| "read_nat acc (c # cs) = read_nat (acc * 10 + (of_char c - 48)) cs"

lemma read_nat_append: "read_nat acc (xs @ ys) = read_nat (read_nat acc xs) ys"
  by (induction xs arbitrary: acc) simp_all

lemma read_show_nat: "read_nat 0 (show_nat n) = n"
proof (induction n rule: show_nat.induct)
  case (1 n)
  show ?case
  proof (cases "n < 10")
    case True
    then show ?thesis by (simp add: show_nat.simps [of n])
  next
    case False
    with "1.IH" show ?thesis
      by (simp add: show_nat.simps [of n] read_nat_append)
  qed
qed

lemma show_nat_inj: "show_nat m = show_nat n \<Longrightarrow> m = n"
  by (metis read_show_nat)

end
