(* ===== verification/Libfabric.thy ===== *)
theory Libfabric
  imports Prelude
begin

text \<open>
  The world outside the repository, as one parameter: libfabric (the functions and
  constants \<^verbatim>\<open>naive/fabric_shim.c\<close> calls and names), the C allocator's decisions and
  the readings of \<open>std::time::Instant\<close>. Nothing is defined about them. Every function of
  the record takes and returns the library's own state \<open>'p\<close>, so quantifying over the
  record and that state ranges over every behaviour of the library. What the code relies
  on is stated as named predicates, \<open>errno_ok\<close>, \<open>infos_ok\<close>, \<open>closes_ok\<close> and
  \<open>clock_advances\<close>, used as hypotheses where a theorem needs them.
\<close>

subsection \<open>Data that crosses the libfabric boundary\<close>

datatype fi_errno =
    FI_EINVAL | FI_ENOMEM | FI_ENODATA | FI_ENOSYS | FI_EBUSY
  | FI_EAGAIN | FI_EAVAIL | FI_EIO | FI_EACCES | FI_EOPBADSTATE

datatype fi_event = FI_CONNREQ | FI_CONNECTED | FI_SHUTDOWN | FI_EVENT_OTHER u32

datatype fi_ep_type = FI_EP_MSG | FI_EP_OTHER u32

text \<open>
  \<^verbatim>\<open>struct fi_info\<close> with the fields the shim reads or writes. Attribute pointers that the
  code compares with \<open>NULL\<close> are options; addresses are 64-bit words. The transmit and
  receive attributes are flattened: \<open>tx_op_flags\<close> and \<open>rx_op_flags\<close> are \<open>None\<close> when
  their structure is absent, and the three sizes are read only when it is not.
\<close>

record fi_fabric_attr =
  prov_name :: "string option"
  fab_name :: "string option"

record fi_domain_attr =
  dom_name :: "string option"
  mr_mode :: u64

record fi_ep_attr =
  ep_type :: fi_ep_type
  max_msg_size :: size_t

record fi_info =
  fabric_attr :: "fi_fabric_attr option"
  domain_attr :: "fi_domain_attr option"
  ep_attr :: "fi_ep_attr option"
  tx_op_flags :: "u64 option"
  rx_op_flags :: "u64 option"
  tx_size :: size_t
  inject_size :: size_t
  rx_size :: size_t
  fi_caps :: u64
  fi_mode :: u64
  addr_format :: u32
  src_addr :: addr
  src_addrlen :: size_t
  dest_addr :: addr
  dest_addrlen :: size_t
  fi_handle :: addr

text \<open>Every attribute structure the shim reads through an information record is present.\<close>

definition info_wf :: "fi_info \<Rightarrow> bool" where
  "info_wf i \<longleftrightarrow> fabric_attr i \<noteq> None \<and> domain_attr i \<noteq> None \<and> ep_attr i \<noteq> None
     \<and> tx_op_flags i \<noteq> None \<and> rx_op_flags i \<noteq> None"

record eq_cm_entry =
  cm_source :: "addr option"
  cm_info :: "fi_info option"
  cm_size_ok :: bool

record eq_err_entry =
  qe_source :: "addr option"
  qe_err :: int
  qe_prov_errno :: int

record cq_msg_entry =
  cm_context :: addr
  cm_len :: size_t
  cm_data :: bytes

record cq_err_entry =
  ce_context :: addr
  ce_err :: int
  ce_prov_errno :: int

subsection \<open>The library as a record of functions\<close>

record 'p lib =
  errno :: "fi_errno \<Rightarrow> int"
  fi_strerror :: "int \<Rightarrow> string"
  fi_version :: u32
  FI_MSG :: u64
  FI_CONTEXT :: u64
  FI_LOCAL_MR :: u64
  FI_SEND :: u64
  FI_RECV :: u64
  FI_SOURCE :: u64
  FI_TRANSMIT :: u64
  FI_MR_LOCAL :: u64
  FI_MR_ALLOCATED :: u64
  FI_SOCKADDR_IN :: u32
  c_calloc :: "'p \<Rightarrow> addr \<times> 'p"
  c_malloc :: "'p \<Rightarrow> bool \<times> 'p"
  fi_allocinfo :: "'p \<Rightarrow> fi_info option \<times> 'p"
  fi_getinfo :: "string \<Rightarrow> string option \<Rightarrow> u64 \<Rightarrow> fi_info \<Rightarrow> 'p \<Rightarrow> (int \<times> fi_info list) \<times> 'p"
  fi_dupinfo :: "fi_info \<Rightarrow> 'p \<Rightarrow> fi_info option \<times> 'p"
  fi_fabric :: "fi_fabric_attr option \<Rightarrow> addr \<Rightarrow> 'p \<Rightarrow> (int \<times> addr) \<times> 'p"
  fi_domain :: "addr \<Rightarrow> fi_info option \<Rightarrow> addr \<Rightarrow> 'p \<Rightarrow> (int \<times> addr) \<times> 'p"
  fi_eq_open :: "addr \<Rightarrow> addr \<Rightarrow> 'p \<Rightarrow> (int \<times> addr) \<times> 'p"
  fi_cq_open :: "addr \<Rightarrow> size_t \<Rightarrow> addr \<Rightarrow> 'p \<Rightarrow> (int \<times> addr) \<times> 'p"
  fi_passive_ep :: "addr \<Rightarrow> fi_info option \<Rightarrow> addr \<Rightarrow> 'p \<Rightarrow> (int \<times> addr) \<times> 'p"
  fi_pep_bind :: "addr \<Rightarrow> addr \<Rightarrow> 'p \<Rightarrow> int \<times> 'p"
  fi_listen :: "addr \<Rightarrow> 'p \<Rightarrow> int \<times> 'p"
  fi_endpoint :: "addr \<Rightarrow> fi_info \<Rightarrow> addr \<Rightarrow> 'p \<Rightarrow> (int \<times> addr) \<times> 'p"
  fi_ep_bind :: "addr \<Rightarrow> addr \<Rightarrow> u64 \<Rightarrow> 'p \<Rightarrow> int \<times> 'p"
  fi_enable :: "addr \<Rightarrow> 'p \<Rightarrow> int \<times> 'p"
  fi_connect :: "addr \<Rightarrow> addr \<Rightarrow> 'p \<Rightarrow> int \<times> 'p"
  fi_accept :: "addr \<Rightarrow> 'p \<Rightarrow> int \<times> 'p"
  fi_reject :: "addr \<Rightarrow> addr \<Rightarrow> 'p \<Rightarrow> int \<times> 'p"
  fi_shutdown :: "addr \<Rightarrow> 'p \<Rightarrow> int \<times> 'p"
  fi_close :: "addr \<Rightarrow> 'p \<Rightarrow> int \<times> 'p"
  fi_eq_read :: "addr \<Rightarrow> 'p \<Rightarrow> (int \<times> fi_event \<times> eq_cm_entry) \<times> 'p"
  fi_eq_readerr :: "addr \<Rightarrow> 'p \<Rightarrow> (int \<times> eq_err_entry) \<times> 'p"
  fi_eq_strerror :: "addr \<Rightarrow> int \<Rightarrow> string option"
  fi_cq_read :: "addr \<Rightarrow> 'p \<Rightarrow> (int \<times> cq_msg_entry) \<times> 'p"
  fi_cq_readerr :: "addr \<Rightarrow> 'p \<Rightarrow> (int \<times> cq_err_entry) \<times> 'p"
  fi_cq_strerror :: "addr \<Rightarrow> int \<Rightarrow> string option"
  fi_mr_reg :: "addr \<Rightarrow> addr \<Rightarrow> size_t \<Rightarrow> u64 \<Rightarrow> addr \<Rightarrow> 'p \<Rightarrow> (int \<times> addr) \<times> 'p"
  fi_mr_desc :: "addr \<Rightarrow> addr"
  fi_send :: "addr \<Rightarrow> bytes \<Rightarrow> addr \<Rightarrow> addr \<Rightarrow> 'p \<Rightarrow> int \<times> 'p"
  fi_recv :: "addr \<Rightarrow> addr \<Rightarrow> size_t \<Rightarrow> addr \<Rightarrow> addr \<Rightarrow> 'p \<Rightarrow> int \<times> 'p"
  clock :: "nat \<Rightarrow> nat"

subsection \<open>Documented behaviour\<close>

text \<open>
  \<^verbatim>\<open>rdma/fi_errno.h\<close>: error codes are small positive numbers, distinct from each other.
\<close>

definition errno_ok :: "'p lib \<Rightarrow> bool" where
  "errno_ok E \<longleftrightarrow> inj (errno E) \<and> (\<forall>e. 0 < errno E e \<and> errno E e < 2 ^ 31)"

text \<open>
  \<^verbatim>\<open>fi_getinfo(3)\<close>: an allocated or duplicated information record carries its attribute
  structures, and a connection request delivers a complete one.
\<close>

definition infos_ok :: "'p lib \<Rightarrow> bool" where
  "infos_ok E \<longleftrightarrow>
     (\<forall>p i p'. fi_allocinfo E p = (Some i, p') \<longrightarrow> info_wf i)
   \<and> (\<forall>i p j p'. fi_dupinfo E i p = (Some j, p') \<longrightarrow> info_wf i \<longrightarrow> info_wf j)
   \<and> (\<forall>q p r v e p' i. fi_eq_read E q p = ((r, v, e), p') \<longrightarrow> cm_info e = Some i \<longrightarrow> info_wf i)"

text \<open>A provider whose close calls succeed.\<close>

definition closes_ok :: "'p lib \<Rightarrow> bool" where
  "closes_ok E \<longleftrightarrow> (\<forall>x p. fst (fi_close E x p) = 0)"

text \<open>
  \<open>Instant\<close> readings in nanoseconds, in the order they are taken: time passes every
  bound and never falls below it again.
\<close>

definition clock_advances :: "'p lib \<Rightarrow> bool" where
  "clock_advances E \<longleftrightarrow> (\<forall>t. \<exists>n. \<forall>m\<ge>n. t \<le> clock E m)"

lemma errno_pos: "errno_ok E \<Longrightarrow> 0 < errno E e"
  by (simp add: errno_ok_def)

lemma errno_nonzero [simp]: "errno_ok E \<Longrightarrow> errno E e \<noteq> 0"
  using errno_pos [of E e] by simp

lemma errno_eq [simp]: "errno_ok E \<Longrightarrow> errno E e = errno E e' \<longleftrightarrow> e = e'"
  by (auto simp: errno_ok_def inj_def)

lemma infos_okD:
  assumes "infos_ok E"
  shows "fi_allocinfo E p = (Some i, p') \<Longrightarrow> info_wf i"
    and "fi_dupinfo E i p = (Some j, p') \<Longrightarrow> info_wf i \<Longrightarrow> info_wf j"
    and "fi_eq_read E q p = ((r, v, e), p') \<Longrightarrow> cm_info e = Some i \<Longrightarrow> info_wf i"
  using assms unfolding infos_ok_def by blast+

lemma closes_okD: "closes_ok E \<Longrightarrow> fi_close E x p = (r, p') \<Longrightarrow> r = 0"
  by (metis closes_ok_def fst_conv)

text \<open>
  With an advancing clock every deadline is eventually behind all further readings, so a
  loop that takes a reading per round ends. The bound is the variant of those loops.
\<close>

lemma clock_deadline: "clock_advances E \<Longrightarrow> \<exists>n. \<forall>m\<ge>n. \<not> clock E m < t"
  by (simp add: clock_advances_def not_less)

end
