(* ===== verification/Shim_Heap.thy ===== *)
theory Shim_Heap
  imports Libfabric
begin

text \<open>
  The state of \<^verbatim>\<open>naive/fabric_shim.c\<close>: its structures as records, the heap of live shim
  objects as one map per structure type from addresses, the Rust buffers registered with
  the provider, and the well-formedness invariant \<open>inv\<close> that ties reference counts,
  attachment flags and the intrusive lists of in-flight operations to the live objects.
  Freed memory is an address missing from its map, so using it is \<open>None\<close>.
\<close>

subsection \<open>Structures\<close>

record shim_info =
  i_raw :: "fi_info option"

record shim_fabric =
  f_raw :: addr
  f_children :: size_t

record shim_domain =
  d_raw :: addr
  d_fabric :: addr
  d_children :: size_t

record shim_eq =
  e_raw :: addr
  e_fabric :: addr
  e_users :: size_t

record shim_cq =
  c_raw :: addr
  c_domain :: addr
  c_pending :: addr
  c_capacity :: size_t
  c_count :: size_t
  c_used :: bool
  c_attached :: bool
  c_retired :: bool

record shim_listener =
  l_raw :: addr
  l_fabric :: addr
  l_eq :: addr
  l_ready :: bool

record shim_endpoint =
  p_raw :: addr
  p_domain :: addr
  p_eq :: addr
  p_tx :: addr
  p_rx :: addr
  p_max_msg :: size_t
  p_ready :: bool
  p_closing :: bool

record shim_mr =
  m_raw :: addr
  m_domain :: addr
  m_buffer :: addr
  m_capacity :: size_t
  m_pending :: size_t
  m_access :: u32

text \<open>
  \<open>o_buf\<close> is not a field of the C structure: it is the buffer address the provider holds
  for a posted operation, recorded here so that its writes to memory can be modelled.
\<close>

record shim_op =
  o_id :: u64
  o_direction :: u64
  o_len :: size_t
  o_cq :: addr
  o_mr :: addr
  o_next :: addr
  o_buf :: addr

definition SHIM_ACCESS_SEND :: u32 where "SHIM_ACCESS_SEND = 1"
definition SHIM_ACCESS_RECV :: u32 where "SHIM_ACCESS_RECV = 2"
definition SHIM_COMPLETION_SEND :: u64 where "SHIM_COMPLETION_SEND = 1"
definition SHIM_COMPLETION_RECV :: u64 where "SHIM_COMPLETION_RECV = 2"
definition SHIM_EVENT_CONNREQ :: u32 where "SHIM_EVENT_CONNREQ = 1"
definition SHIM_EVENT_CONNECTED :: u32 where "SHIM_EVENT_CONNECTED = 2"
definition SHIM_EVENT_SHUTDOWN :: u32 where "SHIM_EVENT_SHUTDOWN = 3"
definition SHIM_EVENT_ERROR :: u32 where "SHIM_EVENT_ERROR = 4"
definition SHIM_ERROR_TEXT_SIZE :: nat where "SHIM_ERROR_TEXT_SIZE = 256"

record shim_completion =
  op_id :: u64
  flags :: u64
  len :: size_t
  err :: int
  prov_err :: int
  message :: string

record shim_connect_event =
  ev_type :: u32
  ev_source :: addr
  ev_info :: addr
  ev_err :: int
  ev_prov_err :: int
  ev_message :: string

subsection \<open>The world\<close>

text \<open>
  \<open>mem\<close> holds the boxed byte slices of the Rust side, by address; \<open>prov\<close> is the
  library's own state; \<open>ticks\<close> counts the clock readings taken; \<open>fi_lists\<close> counts the
  \<^verbatim>\<open>fi_info\<close> lists handed out by libfabric and not yet freed; \<open>console\<close> is what the
  Rust program printed.
\<close>

record 'p world =
  infos :: "addr \<rightharpoonup> shim_info"
  fabrics :: "addr \<rightharpoonup> shim_fabric"
  domains :: "addr \<rightharpoonup> shim_domain"
  eqs :: "addr \<rightharpoonup> shim_eq"
  cqs :: "addr \<rightharpoonup> shim_cq"
  listeners :: "addr \<rightharpoonup> shim_listener"
  endpoints :: "addr \<rightharpoonup> shim_endpoint"
  mrs :: "addr \<rightharpoonup> shim_mr"
  ops :: "addr \<rightharpoonup> shim_op"
  mem :: "addr \<rightharpoonup> bytes"
  prov :: 'p
  ticks :: nat
  fi_lists :: nat
  console :: "string list"

definition empty_world :: "'p \<Rightarrow> 'p world" where
  "empty_world p = \<lparr>infos = Map.empty, fabrics = Map.empty, domains = Map.empty,
     eqs = Map.empty, cqs = Map.empty, listeners = Map.empty, endpoints = Map.empty,
     mrs = Map.empty, ops = Map.empty, mem = Map.empty, prov = p, ticks = 0,
     fi_lists = 0, console = []\<rparr>"

definition allocated :: "'p world \<Rightarrow> addr \<Rightarrow> bool" where
  "allocated w a \<longleftrightarrow> infos w a \<noteq> None \<or> fabrics w a \<noteq> None \<or> domains w a \<noteq> None \<or>
     eqs w a \<noteq> None \<or> cqs w a \<noteq> None \<or> listeners w a \<noteq> None \<or> endpoints w a \<noteq> None \<or>
     mrs w a \<noteq> None \<or> ops w a \<noteq> None \<or> mem w a \<noteq> None"

text \<open>
  \<open>calloc\<close> returns \<open>NULL\<close> or a block that no live object occupies; which of the two, and
  which block, is the allocator's choice.
\<close>

definition calloc :: "'p lib \<Rightarrow> 'p world \<Rightarrow> addr \<times> 'p world" where
  "calloc E w = (let (a, p) = c_calloc E (prov w)
     in (if allocated w a then 0 else a, w\<lparr>prov := p\<rparr>))"

definition malloc :: "'p lib \<Rightarrow> 'p world \<Rightarrow> bool \<times> 'p world" where
  "malloc E w = (let (b, p) = c_malloc E (prov w) in (b, w\<lparr>prov := p\<rparr>))"

text \<open>A call of a library function: it sees and changes the library's state only.\<close>

definition call :: "('p \<Rightarrow> 'r \<times> 'p) \<Rightarrow> 'p world \<Rightarrow> 'r \<times> 'p world" where
  "call f w = (let (r, p) = f (prov w) in (r, w\<lparr>prov := p\<rparr>))"

text \<open>Every field but the library's state is as before.\<close>

definition same_heap :: "'p world \<Rightarrow> 'p world \<Rightarrow> bool" where
  "same_heap w w' \<longleftrightarrow> (\<exists>p. w' = w\<lparr>prov := p\<rparr>)"

lemma same_heap_refl [simp, intro]: "same_heap w w"
  unfolding same_heap_def by (rule exI [of _ "prov w"]) simp

lemma call_eq: "call f w = (r, w') \<Longrightarrow> \<exists>p. f (prov w) = (r, p) \<and> w' = w\<lparr>prov := p\<rparr>"
  by (auto simp: call_def split: prod.splits)

lemma call_same_heap: "call f w = (r, w') \<Longrightarrow> same_heap w w'"
  by (auto simp: same_heap_def dest: call_eq)

lemma calloc_eq: "calloc E w = (a, w') \<Longrightarrow> \<exists>p. w' = w\<lparr>prov := p\<rparr> \<and> (a \<noteq> 0 \<longrightarrow> \<not> allocated w a)"
  by (auto simp: calloc_def split: prod.splits if_splits)

subsection \<open>Intrusive lists\<close>

text \<open>
  \<open>chain h p xs\<close>: following \<open>o_next\<close> from \<open>p\<close> through the operations of \<open>h\<close> visits
  exactly \<open>xs\<close> and then reaches \<open>NULL\<close>.
\<close>

fun chain :: "(addr \<rightharpoonup> shim_op) \<Rightarrow> addr \<Rightarrow> addr list \<Rightarrow> bool" where
  "chain h p [] \<longleftrightarrow> p = 0"
| "chain h p (x # xs) \<longleftrightarrow> p = x \<and> x \<noteq> 0 \<and>
     (case h x of None \<Rightarrow> False | Some op \<Rightarrow> chain h (o_next op) xs)"

lemma chain_cong:
  "(\<And>x. x \<in> set xs \<Longrightarrow> map_option o_next (g x) = map_option o_next (h x))
    \<Longrightarrow> chain g p xs = chain h p xs"
proof (induction xs arbitrary: p)
  case (Cons x xs)
  have "map_option o_next (g x) = map_option o_next (h x)"
    by (rule Cons.prems) simp
  moreover have "chain g q xs = chain h q xs" for q
    by (rule Cons.IH) (simp add: Cons.prems)
  ultimately show ?case by (cases "g x"; cases "h x") simp_all
qed simp

lemma chain_notin: "x \<notin> set xs \<Longrightarrow> chain (h(x := v)) p xs = chain h p xs"
  by (rule chain_cong) auto

lemma chain_same_next:
  "h x = Some op \<Longrightarrow> o_next op' = o_next op \<Longrightarrow> chain (h(x \<mapsto> op')) p xs = chain h p xs"
  by (rule chain_cong) auto

lemma chain_live: "chain h p xs \<Longrightarrow> x \<in> set xs \<Longrightarrow> x \<noteq> 0 \<and> h x \<noteq> None"
  by (induction xs arbitrary: p) (auto split: option.splits)

lemma chain_zero [simp]: "chain h 0 xs \<longleftrightarrow> xs = []"
  by (cases xs) auto

lemma chain_nonzero:
  "p \<noteq> 0 \<Longrightarrow> chain h p xs \<longleftrightarrow> (\<exists>op ys. xs = p # ys \<and> h p = Some op \<and> chain h (o_next op) ys)"
  by (cases xs) (auto split: option.splits)

text \<open>Removing an element by redirecting its predecessor's pointer past it.\<close>

lemma chain_unlink_head:
  "chain h p (x # ys) \<Longrightarrow> \<exists>op. h x = Some op \<and> chain h (o_next op) ys"
  by (auto split: option.splits)

lemma chain_unlink_mid:
  assumes "chain h p (as @ y # x # bs)" and "distinct (as @ y # x # bs)"
    and "h y = Some oy" and "h x = Some ox"
  shows "chain (h(y \<mapsto> oy\<lparr>o_next := o_next ox\<rparr>)) p (as @ y # bs)"
  using assms
proof (induction as arbitrary: p)
  case Nil
  then have "p = y" "y \<noteq> 0" "chain h (o_next ox) bs" "y \<notin> set bs"
    by (auto split: option.splits)
  then have "chain (h(y \<mapsto> oy\<lparr>o_next := o_next ox\<rparr>)) p (y # bs)"
    by (simp add: chain_notin)
  then show ?case by (simp only: append_Nil)
next
  case (Cons a as)
  from Cons.prems obtain oa where a: "h a = Some oa" "p = a" "a \<noteq> 0" "a \<noteq> y"
    and tl: "chain h (o_next oa) (as @ y # x # bs)"
    by (auto split: option.splits)
  from Cons.IH [OF tl] Cons.prems(2-) a show ?case by simp
qed

subsection \<open>Children and their parents\<close>

text \<open>
  \<open>children_ok m p k\<close>: every object of \<open>m\<close> names, by its field \<open>k\<close>, a live object of
  \<open>p\<close>. \<open>kids m k a\<close> is the number of objects of \<open>m\<close> that name \<open>a\<close>, and
  \<open>counted p n t\<close> says that the counter \<open>n\<close> of every object of \<open>p\<close> reads \<open>t\<close>.
\<close>

definition children_ok :: "(addr \<rightharpoonup> 'c) \<Rightarrow> (addr \<rightharpoonup> 'q) \<Rightarrow> ('c \<Rightarrow> addr) \<Rightarrow> bool" where
  "children_ok m p k \<longleftrightarrow> (\<forall>a x. m a = Some x \<longrightarrow> p (k x) \<noteq> None)"

definition kids :: "(addr \<rightharpoonup> 'c) \<Rightarrow> ('c \<Rightarrow> addr) \<Rightarrow> addr \<Rightarrow> size_t" where
  "kids m k a = refs m (\<lambda>x. k x = a)"

definition counted :: "(addr \<rightharpoonup> 'q) \<Rightarrow> ('q \<Rightarrow> size_t) \<Rightarrow> (addr \<Rightarrow> size_t) \<Rightarrow> bool" where
  "counted p n t \<longleftrightarrow> (\<forall>a x. p a = Some x \<longrightarrow> n x = t a)"

definition bump :: "('o \<Rightarrow> 'o) \<Rightarrow> addr \<Rightarrow> (addr \<rightharpoonup> 'o) \<Rightarrow> (addr \<rightharpoonup> 'o)" where
  "bump f a m = m(a := map_option f (m a))"

lemma bump_apply: "bump f a m b = (if b = a then map_option f (m a) else m b)"
  by (simp add: bump_def)

lemma bump_None [simp]: "bump f a m b = None \<longleftrightarrow> m b = None"
  by (simp add: bump_apply)

lemma dom_bump [simp]: "dom (bump f a m) = dom m"
  by (auto simp: dom_def)

lemma bump_Some: "m a = Some x \<Longrightarrow> bump f a m = m(a \<mapsto> f x)"
  by (simp add: bump_def)

lemma children_ok_bump: "children_ok m p k \<Longrightarrow> children_ok m (bump f a p) k"
  unfolding children_ok_def by simp

lemma children_ok_bump_child:
  "(\<And>x. k (f x) = k x) \<Longrightarrow> children_ok m p k \<Longrightarrow> children_ok (bump f a m) p k"
  by (auto simp: children_ok_def bump_apply split: if_splits)

lemma children_okD: "children_ok m p k \<Longrightarrow> m a = Some x \<Longrightarrow> \<exists>y. p (k x) = Some y"
  by (auto simp: children_ok_def)

lemma children_ok_new: "children_ok m p k \<Longrightarrow> p (k x) \<noteq> None \<Longrightarrow> children_ok (m(a \<mapsto> x)) p k"
  by (auto simp: children_ok_def)

lemma children_ok_upd:
  "children_ok m p k \<Longrightarrow> m a = Some x \<Longrightarrow> k y = k x \<Longrightarrow> children_ok (m(a \<mapsto> y)) p k"
  by (auto simp: children_ok_def)

lemma children_ok_del: "children_ok m p k \<Longrightarrow> children_ok (m(a := None)) p k"
  by (auto simp: children_ok_def)

lemma children_ok_parent: "children_ok m p k \<Longrightarrow> dom p \<subseteq> dom p' \<Longrightarrow> children_ok m p' k"
  by (force simp: children_ok_def dom_def)

lemma children_ok_parent_del:
  assumes "children_ok m p k" and "kids m k a = 0" and "m 0 = None"
  shows "children_ok m (p(a := None)) k"
proof -
  have "k x \<noteq> a" if "m b = Some x" for b x
    using refs_zero1 [of m "\<lambda>x. k x = a" b x] assms(2,3) that by (simp add: kids_def)
  with assms(1) show ?thesis by (auto simp: children_ok_def)
qed

lemma kids_new: "m a = None \<Longrightarrow> kids (m(a \<mapsto> x)) k b = kids m k b + (if b = k x then 1 else 0)"
  by (auto simp: kids_def refs_new)

lemma kids_del: "m a = Some x \<Longrightarrow> kids (m(a := None)) k b = kids m k b - (if b = k x then 1 else 0)"
  by (auto simp: kids_def refs_del)

lemma kids_upd_same: "m a = Some x \<Longrightarrow> k y = k x \<Longrightarrow> kids (m(a \<mapsto> y)) k = kids m k"
  by (rule ext) (simp add: kids_def refs_upd_same)

lemma kids_upd:
  "m a = Some x \<Longrightarrow> kids (m(a \<mapsto> y)) k b =
     kids m k b - (if b = k x then 1 else 0) + (if b = k y then 1 else 0)"
  by (auto simp: kids_def refs_upd)

lemma kids_bump: "(\<And>x. k (f x) = k x) \<Longrightarrow> kids (bump f a m) k = kids m k"
  by (cases "m a") (simp_all add: bump_def kids_upd_same fun_upd_idem)

lemma kids_orphan: "children_ok m p k \<Longrightarrow> p a = None \<Longrightarrow> kids m k a = 0"
  unfolding kids_def by (rule refs_none) (fastforce simp: children_ok_def)

lemma kids_null: "children_ok m p k \<Longrightarrow> p 0 = None \<Longrightarrow> kids m k 0 = 0"
  by (rule kids_orphan)

lemma countedD: "counted p n t \<Longrightarrow> p a = Some x \<Longrightarrow> n x = t a"
  by (simp add: counted_def)

lemma counted_new: "counted p n t \<Longrightarrow> n x = t a \<Longrightarrow> counted (p(a \<mapsto> x)) n t"
  by (simp add: counted_def)

lemma counted_upd: "counted p n t \<Longrightarrow> p a = Some x \<Longrightarrow> n y = n x \<Longrightarrow> counted (p(a \<mapsto> y)) n t"
  by (simp add: counted_def)

lemma counted_del: "counted p n t \<Longrightarrow> counted (p(a := None)) n t"
  by (simp add: counted_def)

lemma counted_bump:
  "counted p n t \<Longrightarrow> (\<And>x. n (f x) = n x + d) \<Longrightarrow>
   (\<And>b. t' b = t b + (if b = a then d else 0)) \<Longrightarrow> counted (bump f a p) n t'"
  by (auto simp: counted_def bump_apply)

lemma counted_cong: "counted p n t \<Longrightarrow> (\<And>b. t' b = t b) \<Longrightarrow> counted p n t'"
  by (simp add: counted_def)

lemma bump2_Some:
  assumes "bump f b (bump f a m) q = Some c" and "a \<noteq> b"
  obtains c0 where "m q = Some c0" "c = (if q = a \<or> q = b then f c0 else c0)"
  using assms by (auto simp: bump_apply split: if_splits)

text \<open>A change of every object that keeps which objects there are.\<close>

definition mapm :: "(addr \<Rightarrow> 'o \<Rightarrow> 'o) \<Rightarrow> (addr \<rightharpoonup> 'o) \<Rightarrow> (addr \<rightharpoonup> 'o)" where
  "mapm f m = (\<lambda>a. map_option (f a) (m a))"

lemma mapm_apply: "mapm f m a = map_option (f a) (m a)"
  by (simp add: mapm_def)

lemma mapm_None [simp]: "mapm f m a = None \<longleftrightarrow> m a = None"
  by (simp add: mapm_def)

lemma dom_mapm [simp]: "dom (mapm f m) = dom m"
  by (auto simp: dom_def)

lemma kids_mapm: "(\<And>a x. m a = Some x \<Longrightarrow> k (f a x) = k x) \<Longrightarrow> kids (mapm f m) k = kids m k"
proof (rule ext)
  fix b
  assume "\<And>a x. m a = Some x \<Longrightarrow> k (f a x) = k x"
  then have "refset (mapm f m) (\<lambda>x. k x = b) = refset m (\<lambda>x. k x = b)"
    by (auto simp: refset_def mapm_apply)
  then show "kids (mapm f m) k b = kids m k b" by (simp add: kids_def refs_def)
qed

lemma children_ok_mapm:
  "(\<And>a x. k (f a x) = k x) \<Longrightarrow> children_ok m p k \<Longrightarrow> children_ok (mapm f m) p k"
  by (auto simp: children_ok_def mapm_apply)

lemma children_ok_mapm': "children_ok m p k \<Longrightarrow> children_ok m (mapm f p) k"
  unfolding children_ok_def by simp

definition apart :: "(addr \<rightharpoonup> 'c) \<Rightarrow> (addr \<rightharpoonup> 'q) \<Rightarrow> bool" where
  "apart m n \<longleftrightarrow> dom m \<inter> dom n = {}"

lemma apart_new: "apart m n \<Longrightarrow> n a = None \<Longrightarrow> apart (m(a \<mapsto> x)) n"
  and apart_new': "apart m n \<Longrightarrow> m a = None \<Longrightarrow> apart m (n(a \<mapsto> y))"
  by (auto simp: apart_def)

lemma apart_del: "apart m n \<Longrightarrow> apart (m(a := None)) n"
  and apart_del': "apart m n \<Longrightarrow> apart m (n(a := None))"
  by (auto simp: apart_def)

lemma apart_dom: "apart m n \<Longrightarrow> dom m' = dom m \<Longrightarrow> apart m' n"
  and apart_dom': "apart m n \<Longrightarrow> dom n' = dom n \<Longrightarrow> apart m n'"
  by (simp_all add: apart_def)

lemma apart_upd: "apart m n \<Longrightarrow> m a = Some y \<Longrightarrow> apart (m(a \<mapsto> x)) n"
  and apart_upd': "apart m n \<Longrightarrow> n a = Some z \<Longrightarrow> apart m (n(a \<mapsto> x'))"
  by (auto simp: apart_def)

lemma apart_bump: "apart m n \<Longrightarrow> apart (bump f a m) n"
  and apart_bump': "apart m n \<Longrightarrow> apart m (bump g a n)"
  by (simp_all add: apart_def)

lemma apart_mapm: "apart m n \<Longrightarrow> apart (mapm f m) n"
  and apart_mapm': "apart m n \<Longrightarrow> apart m (mapm g n)"
  by (simp_all add: apart_def)

lemma kids_zero3:
  assumes "kids m k a + kids n l a + kids o' j a = 0"
    and "m 0 = None" "n 0 = None" "o' 0 = None" and "apart m n" "apart m o'" "apart n o'"
  shows "kids m k a = 0" and "kids n l a = 0" and "kids o' j a = 0"
  using assms unfolding kids_def apart_def by (blast intro: refs_zero3)+

lemma kids_zero2:
  assumes "kids m k a + kids n l a = 0"
    and "m 0 = None" "n 0 = None" and "apart m n"
  shows "kids m k a = 0" and "kids n l a = 0"
  using assms unfolding kids_def apart_def by (blast intro: refs_zero2)+

subsection \<open>Invariant\<close>

text \<open>No object sits at the null address.\<close>

definition inv_null :: "'p world \<Rightarrow> bool" where
  "inv_null w \<longleftrightarrow> infos w 0 = None \<and> fabrics w 0 = None \<and> domains w 0 = None \<and>
     eqs w 0 = None \<and> cqs w 0 = None \<and> listeners w 0 = None \<and> endpoints w 0 = None \<and>
     mrs w 0 = None \<and> ops w 0 = None \<and> mem w 0 = None"

definition infos_wf :: "(addr \<rightharpoonup> shim_info) \<Rightarrow> bool" where
  "infos_wf m \<longleftrightarrow> (\<forall>a i. m a = Some i \<longrightarrow> (\<exists>r. i_raw i = Some r \<and> info_wf r))"

text \<open>Objects that are counted together live at different addresses.\<close>

definition inv_apart :: "'p world \<Rightarrow> bool" where
  "inv_apart w \<longleftrightarrow> apart (domains w) (eqs w) \<and> apart (domains w) (listeners w) \<and>
     apart (eqs w) (listeners w) \<and> apart (cqs w) (mrs w) \<and> apart (cqs w) (endpoints w) \<and>
     apart (mrs w) (endpoints w) \<and> apart (listeners w) (endpoints w)"

text \<open>No object refers to a freed parent.\<close>

definition inv_links :: "'p world \<Rightarrow> bool" where
  "inv_links w \<longleftrightarrow>
     children_ok (domains w) (fabrics w) d_fabric \<and> children_ok (eqs w) (fabrics w) e_fabric \<and>
     children_ok (listeners w) (fabrics w) l_fabric \<and> children_ok (listeners w) (eqs w) l_eq \<and>
     children_ok (cqs w) (domains w) c_domain \<and> children_ok (mrs w) (domains w) m_domain \<and>
     children_ok (endpoints w) (domains w) p_domain \<and> children_ok (endpoints w) (eqs w) p_eq \<and>
     children_ok (endpoints w) (cqs w) p_tx \<and> children_ok (endpoints w) (cqs w) p_rx"

text \<open>The reference counts are the numbers of live referrers.\<close>

definition inv_counts :: "'p world \<Rightarrow> bool" where
  "inv_counts w \<longleftrightarrow>
     counted (fabrics w) f_children (\<lambda>a. kids (domains w) d_fabric a + kids (eqs w) e_fabric a
       + kids (listeners w) l_fabric a) \<and>
     counted (domains w) d_children (\<lambda>a. kids (cqs w) c_domain a + kids (mrs w) m_domain a
       + kids (endpoints w) p_domain a) \<and>
     counted (eqs w) e_users (\<lambda>a. kids (listeners w) l_eq a + kids (endpoints w) p_eq a) \<and>
     counted (mrs w) m_pending (kids (ops w) o_mr)"

text \<open>
  A completion queue is attached exactly while the one endpoint that uses it is alive, and
  retired for good when that endpoint is closed.
\<close>

definition uses_cq :: "shim_endpoint \<Rightarrow> addr \<Rightarrow> bool" where
  "uses_cq p q \<longleftrightarrow> p_tx p = q \<or> p_rx p = q"

definition user_of :: "(addr \<rightharpoonup> shim_endpoint) \<Rightarrow> addr \<Rightarrow> addr \<Rightarrow> bool" where
  "user_of ep q a \<longleftrightarrow> (\<exists>p. ep a = Some p \<and> uses_cq p q)"

definition cq_flags_ok :: "(addr \<rightharpoonup> shim_endpoint) \<Rightarrow> addr \<Rightarrow> shim_cq \<Rightarrow> bool" where
  "cq_flags_ok ep q c \<longleftrightarrow>
     (c_attached c \<longleftrightarrow> (\<exists>a. user_of ep q a)) \<and>
     (c_used c \<longleftrightarrow> c_attached c \<or> c_retired c) \<and> \<not> (c_attached c \<and> c_retired c)"

definition inv_attach :: "(addr \<rightharpoonup> shim_cq) \<Rightarrow> (addr \<rightharpoonup> shim_endpoint) \<Rightarrow> bool" where
  "inv_attach cq ep \<longleftrightarrow>
     (\<forall>q c. cq q = Some c \<longrightarrow> cq_flags_ok ep q c) \<and>
     (\<forall>a p. ep a = Some p \<longrightarrow> p_tx p \<noteq> p_rx p) \<and>
     (\<forall>a b q. user_of ep q a \<and> user_of ep q b \<longrightarrow> a = b)"

lemma user_of_upd:
  "ep a = Some p \<Longrightarrow> uses_cq p' q = uses_cq p q \<Longrightarrow> user_of (ep(a \<mapsto> p')) q b = user_of ep q b"
  by (simp add: user_of_def)

lemma user_of_new:
  "ep a = None \<Longrightarrow> user_of (ep(a \<mapsto> p)) q b \<longleftrightarrow> (b = a \<and> uses_cq p q) \<or> user_of ep q b"
  by (auto simp: user_of_def)

lemma user_of_del: "user_of (ep(a := None)) q b \<longleftrightarrow> b \<noteq> a \<and> user_of ep q b"
  by (simp add: user_of_def)

text \<open>
  A completion queue's pending list holds exactly the operations that name the queue; its
  length is the count and stays within the capacity; the operations left in a queue whose
  endpoint is closed no longer pin a memory region.
\<close>

definition cq_wf :: "(addr \<rightharpoonup> shim_op) \<Rightarrow> addr \<Rightarrow> shim_cq \<Rightarrow> bool" where
  "cq_wf h q c \<longleftrightarrow> (\<exists>xs. chain h (c_pending c) xs \<and> distinct xs \<and>
     c_count c = of_nat (length xs) \<and> length xs \<le> unat (c_capacity c) \<and>
     (\<forall>x. x \<in> set xs \<longleftrightarrow> (\<exists>op. h x = Some op \<and> o_cq op = q))) \<and>
   (\<not> c_attached c \<longrightarrow> (\<forall>x op. h x = Some op \<and> o_cq op = q \<longrightarrow> o_mr op = 0))"

definition inv_queues :: "(addr \<rightharpoonup> shim_cq) \<Rightarrow> (addr \<rightharpoonup> shim_op) \<Rightarrow> bool" where
  "inv_queues cq h \<longleftrightarrow>
     (\<forall>q c. cq q = Some c \<longrightarrow> cq_wf h q c) \<and>
     (\<forall>x op. h x = Some op \<and> o_cq op \<noteq> 0 \<longrightarrow> cq (o_cq op) \<noteq> None)"

text \<open>
  The memory behind a live region is live and long enough; an operation in flight stays
  inside its region.
\<close>

definition mr_backed :: "(addr \<rightharpoonup> bytes) \<Rightarrow> shim_mr \<Rightarrow> bool" where
  "mr_backed mm r \<longleftrightarrow> (\<exists>bs. mm (m_buffer r) = Some bs \<and> unat (m_capacity r) \<le> length bs)"

definition in_region :: "shim_op \<Rightarrow> shim_mr \<Rightarrow> bool" where
  "in_region op r \<longleftrightarrow> unat (o_buf op - m_buffer r) + unat (o_len op) \<le> unat (m_capacity r)"

definition mrs_backed :: "(addr \<rightharpoonup> shim_mr) \<Rightarrow> (addr \<rightharpoonup> bytes) \<Rightarrow> bool" where
  "mrs_backed mr mm \<longleftrightarrow> (\<forall>a r. mr a = Some r \<longrightarrow> mr_backed mm r)"

definition borrows_ok :: "(addr \<rightharpoonup> shim_op) \<Rightarrow> (addr \<rightharpoonup> shim_mr) \<Rightarrow> bool" where
  "borrows_ok h mr \<longleftrightarrow> (\<forall>x op. h x = Some op \<and> o_mr op \<noteq> 0 \<longrightarrow>
     o_cq op \<noteq> 0 \<and> (\<exists>r. mr (o_mr op) = Some r \<and> in_region op r))"

definition inv :: "'p world \<Rightarrow> bool" where
  "inv w \<longleftrightarrow> inv_null w \<and> infos_wf (infos w) \<and> inv_apart w \<and> inv_links w \<and> inv_counts w \<and>
     inv_attach (cqs w) (endpoints w) \<and> inv_queues (cqs w) (ops w) \<and>
     mrs_backed (mrs w) (mem w) \<and> borrows_ok (ops w) (mrs w)"

lemmas inv_structure = inv_null_def inv_apart_def inv_links_def inv_counts_def

lemma inv_empty_world: "inv (empty_world p)"
  by (simp add: inv_def inv_structure infos_wf_def apart_def children_ok_def counted_def
      inv_attach_def user_of_def inv_queues_def mrs_backed_def borrows_ok_def empty_world_def)

lemma inv_prov [simp]: "inv (w\<lparr>prov := p\<rparr>) = inv w"
  by (simp add: inv_def inv_structure)

lemma inv_ticks [simp]: "inv (w\<lparr>ticks := n\<rparr>) = inv w"
  by (simp add: inv_def inv_structure)

lemma inv_console [simp]: "inv (w\<lparr>console := n\<rparr>) = inv w"
  by (simp add: inv_def inv_structure)

lemma inv_fi_lists [simp]: "inv (w\<lparr>fi_lists := n\<rparr>) = inv w"
  by (simp add: inv_def inv_structure)

lemma kids_orphans:
  assumes "inv w"
  shows "fabrics w a = None \<Longrightarrow> kids (domains w) d_fabric a = 0"
    and "fabrics w a = None \<Longrightarrow> kids (eqs w) e_fabric a = 0"
    and "fabrics w a = None \<Longrightarrow> kids (listeners w) l_fabric a = 0"
    and "eqs w a = None \<Longrightarrow> kids (listeners w) l_eq a = 0"
    and "domains w a = None \<Longrightarrow> kids (cqs w) c_domain a = 0"
    and "domains w a = None \<Longrightarrow> kids (mrs w) m_domain a = 0"
    and "domains w a = None \<Longrightarrow> kids (endpoints w) p_domain a = 0"
    and "eqs w a = None \<Longrightarrow> kids (endpoints w) p_eq a = 0"
  using assms by (auto simp: inv_def inv_links_def intro: kids_orphan)

text \<open>A counter that reads 0 means that nothing names the object any more.\<close>

lemma no_kids:
  assumes "inv w"
  shows "fabrics w a = Some f \<Longrightarrow> f_children f = 0 \<Longrightarrow>
      kids (domains w) d_fabric a = 0 \<and> kids (eqs w) e_fabric a = 0 \<and>
      kids (listeners w) l_fabric a = 0"
    and "domains w a = Some d \<Longrightarrow> d_children d = 0 \<Longrightarrow>
      kids (cqs w) c_domain a = 0 \<and> kids (mrs w) m_domain a = 0 \<and>
      kids (endpoints w) p_domain a = 0"
    and "eqs w a = Some e \<Longrightarrow> e_users e = 0 \<Longrightarrow>
      kids (listeners w) l_eq a = 0 \<and> kids (endpoints w) p_eq a = 0"
    and "mrs w a = Some m \<Longrightarrow> m_pending m = 0 \<Longrightarrow> kids (ops w) o_mr a = 0"
proof -
  from assms have c: "inv_counts w" and n: "inv_null w" and ap: "inv_apart w"
    by (simp_all add: inv_def)
  show "kids (domains w) d_fabric a = 0 \<and> kids (eqs w) e_fabric a = 0 \<and>
      kids (listeners w) l_fabric a = 0" if "fabrics w a = Some f" "f_children f = 0"
  proof -
    have s: "kids (domains w) d_fabric a + kids (eqs w) e_fabric a + kids (listeners w) l_fabric a = 0"
      using c that unfolding inv_counts_def by (auto dest: countedD)
    show ?thesis using kids_zero3 [OF s] n ap by (simp add: inv_null_def inv_apart_def)
  qed
  show "kids (cqs w) c_domain a = 0 \<and> kids (mrs w) m_domain a = 0 \<and>
      kids (endpoints w) p_domain a = 0" if "domains w a = Some d" "d_children d = 0"
  proof -
    have s: "kids (cqs w) c_domain a + kids (mrs w) m_domain a + kids (endpoints w) p_domain a = 0"
      using c that unfolding inv_counts_def by (auto dest: countedD)
    show ?thesis using kids_zero3 [OF s] n ap by (simp add: inv_null_def inv_apart_def)
  qed
  show "kids (listeners w) l_eq a = 0 \<and> kids (endpoints w) p_eq a = 0"
    if "eqs w a = Some e" "e_users e = 0"
  proof -
    have s: "kids (listeners w) l_eq a + kids (endpoints w) p_eq a = 0"
      using c that unfolding inv_counts_def by (auto dest: countedD)
    show ?thesis using kids_zero2 [OF s] n ap by (simp add: inv_null_def inv_apart_def)
  qed
  show "kids (ops w) o_mr a = 0" if "mrs w a = Some m" "m_pending m = 0"
    using c that unfolding inv_counts_def by (auto dest: countedD)
qed

lemma single_user:
  "inv w \<Longrightarrow> user_of (endpoints w) q a \<Longrightarrow> user_of (endpoints w) q b \<Longrightarrow> a = b"
  unfolding inv_def inv_attach_def by blast

lemma inv_queuesI:
  assumes "\<And>q c. cq q = Some c \<Longrightarrow> cq_wf h q c"
    and "\<And>x op. h x = Some op \<Longrightarrow> o_cq op \<noteq> 0 \<Longrightarrow> cq (o_cq op) \<noteq> None"
  shows "inv_queues cq h"
  unfolding inv_queues_def using assms by blast

lemma cq_wfE:
  assumes "cq_wf h q c"
  obtains xs where "chain h (c_pending c) xs" "distinct xs" "c_count c = of_nat (length xs)"
    "length xs \<le> unat (c_capacity c)"
    "\<And>x. x \<in> set xs \<longleftrightarrow> (\<exists>op. h x = Some op \<and> o_cq op = q)"
    "\<And>x op. \<not> c_attached c \<Longrightarrow> h x = Some op \<Longrightarrow> o_cq op = q \<Longrightarrow> o_mr op = 0"
proof -
  from assms have nb: "\<not> c_attached c \<longrightarrow> (\<forall>x op. h x = Some op \<and> o_cq op = q \<longrightarrow> o_mr op = 0)"
    unfolding cq_wf_def by (rule conjunct2)
  from assms have "\<exists>xs. chain h (c_pending c) xs \<and> distinct xs \<and>
     c_count c = of_nat (length xs) \<and> length xs \<le> unat (c_capacity c) \<and>
     (\<forall>x. x \<in> set xs \<longleftrightarrow> (\<exists>op. h x = Some op \<and> o_cq op = q))"
    unfolding cq_wf_def by (rule conjunct1)
  then obtain xs where "chain h (c_pending c) xs" "distinct xs" "c_count c = of_nat (length xs)"
    "length xs \<le> unat (c_capacity c)"
    "\<forall>x. x \<in> set xs \<longleftrightarrow> (\<exists>op. h x = Some op \<and> o_cq op = q)"
    by blast
  with nb show ?thesis by (intro that [of xs]) blast+
qed

lemma cq_wfI:
  assumes "chain h (c_pending c) xs" "distinct xs" "c_count c = of_nat (length xs)"
    "length xs \<le> unat (c_capacity c)"
    "\<And>x. x \<in> set xs \<longleftrightarrow> (\<exists>op. h x = Some op \<and> o_cq op = q)"
    "\<And>x op. \<not> c_attached c \<Longrightarrow> h x = Some op \<Longrightarrow> o_cq op = q \<Longrightarrow> o_mr op = 0"
  shows "cq_wf h q c"
  unfolding cq_wf_def using assms by blast

lemma op_cq_live:
  "inv w \<Longrightarrow> ops w x = Some op \<Longrightarrow> o_cq op \<noteq> 0 \<Longrightarrow> \<exists>c. cqs w (o_cq op) = Some c"
  by (auto simp: inv_def inv_queues_def)

lemma op_mr_live:
  "inv w \<Longrightarrow> ops w x = Some op \<Longrightarrow> o_mr op \<noteq> 0 \<Longrightarrow>
     o_cq op \<noteq> 0 \<and> (\<exists>r. mrs w (o_mr op) = Some r \<and> in_region op r)"
  by (auto simp: inv_def borrows_ok_def)

lemma cq_wfD: "inv w \<Longrightarrow> cqs w q = Some c \<Longrightarrow> cq_wf (ops w) q c"
  by (simp add: inv_def inv_queues_def)

lemma cq_flagsD: "inv w \<Longrightarrow> cqs w q = Some c \<Longrightarrow> cq_flags_ok (endpoints w) q c"
  by (simp add: inv_def inv_attach_def)

lemma endpoint_parents:
  assumes "inv w" and "endpoints w a = Some p"
  shows "domains w (p_domain p) \<noteq> None" and "eqs w (p_eq p) \<noteq> None"
    and "cqs w (p_tx p) \<noteq> None" and "cqs w (p_rx p) \<noteq> None" and "p_tx p \<noteq> p_rx p"
  using assms unfolding inv_def inv_links_def children_ok_def inv_attach_def by blast+

lemma listener_parents:
  assumes "inv w" and "listeners w a = Some l"
  shows "fabrics w (l_fabric l) \<noteq> None" and "eqs w (l_eq l) \<noteq> None"
  using assms unfolding inv_def inv_links_def children_ok_def by blast+

lemma parent_live:
  assumes "inv w"
  shows "domains w a = Some d \<Longrightarrow> fabrics w (d_fabric d) \<noteq> None"
    and "eqs w a = Some e \<Longrightarrow> fabrics w (e_fabric e) \<noteq> None"
    and "cqs w a = Some c \<Longrightarrow> domains w (c_domain c) \<noteq> None"
    and "mrs w a = Some m \<Longrightarrow> domains w (m_domain m) \<noteq> None"
  using assms unfolding inv_def inv_links_def children_ok_def by blast+

lemma allocated_prov [simp]: "allocated (w\<lparr>prov := p\<rparr>) = allocated w"
  by (auto simp: allocated_def)

lemma inv_nullD:
  assumes "inv w"
  shows "infos w 0 = None" "fabrics w 0 = None" "domains w 0 = None" "eqs w 0 = None"
    "cqs w 0 = None" "listeners w 0 = None" "endpoints w 0 = None" "mrs w 0 = None"
    "ops w 0 = None" "mem w 0 = None"
  using assms by (simp_all add: inv_def inv_null_def)

lemma fresh_maps:
  assumes "\<not> allocated w a"
  shows "infos w a = None" "fabrics w a = None" "domains w a = None" "eqs w a = None"
    "cqs w a = None" "listeners w a = None" "endpoints w a = None" "mrs w a = None"
    "ops w a = None" "mem w a = None"
  using assms by (simp_all add: allocated_def)

end
