(* ===== verification/Shim_Info.thy ===== *)
theory Shim_Info
  imports Shim_Heap
begin

text \<open>
  \<^verbatim>\<open>naive/fabric_shim.c\<close>, lines 16 to 267 and 321 to 331: querying libfabric for one
  verbs/\<open>FI_EP_MSG\<close> configuration, releasing it, and the error-code helpers. \<open>fi_lists\<close>
  of the world counts the \<^verbatim>\<open>fi_info\<close> lists still to be freed, so that the clean-up path
  of every error branch can be checked.
\<close>

definition eprint :: "string \<Rightarrow> 'p world \<Rightarrow> 'p world" where
  "eprint s w = w\<lparr>console := console w @ [s]\<rparr>"

definition take_info :: "'p world \<Rightarrow> 'p world" where
  "take_info w = w\<lparr>fi_lists := fi_lists w + 1\<rparr>"

definition fi_freeinfo :: "'p world \<Rightarrow> 'p world" where
  "fi_freeinfo w = w\<lparr>fi_lists := fi_lists w - 1\<rparr>"

subsection \<open>Error codes\<close>

definition shim_error_string :: "'p lib \<Rightarrow> int \<Rightarrow> string" where
  "shim_error_string E error =
     (if error = - (2 ^ 31) then ''invalid error code''
      else fi_strerror E (if error < 0 then - error else error))"

definition shim_error_is_again :: "'p lib \<Rightarrow> int \<Rightarrow> int" where
  "shim_error_is_again E error = (if error = - errno E FI_EAGAIN then 1 else 0)"

definition shim_fabric_version :: "'p lib \<Rightarrow> u32" where
  "shim_fabric_version E = fi_version E"

subsection \<open>The query\<close>

definition copy_string :: "'p lib \<Rightarrow> string \<Rightarrow> 'p world \<Rightarrow> string option \<times> 'p world" where
  "copy_string E s w = (let (ok, w) = malloc E w in (if ok then Some s else None, w))"

text \<open>Lines 153 to 160: the fixed part of the hints; the attribute pointers are dereferenced.\<close>

definition fill_hints :: "'p lib \<Rightarrow> fi_info \<Rightarrow> fi_info option" where
  "fill_hints E h = do {
     ea \<leftarrow> ep_attr h;
     da \<leftarrow> domain_attr h;
     Some (h\<lparr>fi_caps := FI_MSG E, ep_attr := Some (ea\<lparr>ep_type := FI_EP_MSG\<rparr>),
             addr_format := FI_SOCKADDR_IN E,
             domain_attr := Some (da\<lparr>mr_mode := FI_MR_LOCAL E OR FI_MR_ALLOCATED E\<rparr>)\<rparr>)
   }"

definition set_prov_name :: "string option \<Rightarrow> fi_info \<Rightarrow> fi_info option" where
  "set_prov_name s h = do {
     fa \<leftarrow> fabric_attr h;
     Some (h\<lparr>fabric_attr := Some (fa\<lparr>prov_name := s\<rparr>)\<rparr>)
   }"

definition set_dom_name :: "string option \<Rightarrow> fi_info \<Rightarrow> fi_info option" where
  "set_dom_name s h = do {
     da \<leftarrow> domain_attr h;
     Some (h\<lparr>domain_attr := Some (da\<lparr>dom_name := s\<rparr>)\<rparr>)
   }"

text \<open>The loop of lines 186 to 222: which candidate is not skipped, and the first such.\<close>

definition info_selectable :: "'p lib \<Rightarrow> string option \<Rightarrow> int \<Rightarrow> fi_info \<Rightarrow> bool" where
  "info_selectable E domain_name is_source p =
     (case (fabric_attr p, domain_attr p, ep_attr p) of
        (Some fa, Some da, Some ea) \<Rightarrow>
          if tx_op_flags p = None \<or> rx_op_flags p = None then False
          else if prov_name fa \<noteq> Some ''verbs'' then False
          else if ep_type ea \<noteq> FI_EP_MSG \<or> fi_caps p AND FI_MSG E = 0
                  \<or> addr_format p \<noteq> FI_SOCKADDR_IN E then False
          else if domain_name \<noteq> None \<and> dom_name da \<noteq> domain_name then False
          else if is_source \<noteq> 0 then src_addr p \<noteq> 0 \<and> src_addrlen p \<noteq> 0
          else dest_addr p \<noteq> 0 \<and> dest_addrlen p \<noteq> 0
      | _ \<Rightarrow> False)"

fun select_info :: "'p lib \<Rightarrow> string option \<Rightarrow> int \<Rightarrow> fi_info list \<Rightarrow> fi_info option" where
  "select_info E domain_name is_source [] = None"
| "select_info E domain_name is_source (p # ps) =
     (if info_selectable E domain_name is_source p then Some p
      else select_info E domain_name is_source ps)"

text \<open>
  Lines 224 to 247 and the clean-up: wrap a private copy of the selected entry, free the
  result list if there is one, and the hints.
\<close>

definition free_query :: "fi_info list \<Rightarrow> 'p world \<Rightarrow> 'p world" where
  "free_query results w = fi_freeinfo (if results \<noteq> [] then fi_freeinfo w else w)"

definition wrap_selected ::
    "'p lib \<Rightarrow> fi_info option \<Rightarrow> 'p world \<Rightarrow> (int \<times> addr) \<times> 'p world" where
  "wrap_selected E selected w =
     (case selected of
        None \<Rightarrow> ((- errno E FI_ENODATA, 0), w)
      | Some p \<Rightarrow>
          (let (wrapper, w) = calloc E w
           in if wrapper = 0 then ((- errno E FI_ENOMEM, 0), w)
              else (let (dup, w) = call (fi_dupinfo E p) w
                    in case dup of
                         None \<Rightarrow> ((- errno E FI_ENOMEM, 0), w)
                       | Some d \<Rightarrow> ((0, wrapper),
                           take_info (w\<lparr>infos := (infos w)(wrapper \<mapsto> \<lparr>i_raw = Some d\<rparr>)\<rparr>)))))"

definition query_hints :: "'p lib \<Rightarrow> string \<Rightarrow> string option \<Rightarrow> string option \<Rightarrow> int \<Rightarrow> fi_info
    \<Rightarrow> 'p world \<Rightarrow> ((int \<times> addr) \<times> 'p world) option" where
  "query_hints E node service domain_name is_source hints w =
     (let ((ret, results), w) = call (fi_getinfo E node service
            (if is_source \<noteq> 0 then FI_SOURCE E else 0) hints) w;
          w = (if results \<noteq> [] then take_info w else w)
      in if ret \<noteq> 0
         then Some ((ret, 0), free_query results
                (eprint (''fi_getinfo: '' @ fi_strerror E (- ret) @ '' ('' @ show_int ret @ '')'') w))
         else (let (r, w) = wrap_selected E (select_info E domain_name is_source results) w
               in Some (r, free_query results w)))"

definition shim_info_open :: "'p lib \<Rightarrow> string option \<Rightarrow> string option \<Rightarrow> string option \<Rightarrow> int
    \<Rightarrow> bool \<Rightarrow> 'p world \<Rightarrow> ((int \<times> addr) \<times> 'p world) option" where
  "shim_info_open E node service domain_name is_source out w =
     (if \<not> out then Some ((- errno E FI_EINVAL, 0), w)
      else if node = None \<or> node = Some '''' then
        Some ((- errno E FI_EINVAL, 0), eprint ''node is NULL or empty'' w)
      else if service = None \<or> service = Some '''' then
        Some ((- errno E FI_EINVAL, 0), eprint ''service is NULL or empty'' w)
      else if is_source \<noteq> 0 \<and> is_source \<noteq> 1 then
        Some ((- errno E FI_EINVAL, 0), eprint ''is_source must be 0 or 1'' w)
      else if domain_name = Some '''' then
        Some ((- errno E FI_EINVAL, 0), eprint ''domain_name is empty'' w)
      else (let (hints, w) = call (fi_allocinfo E) w in
        case hints of
          None \<Rightarrow> Some ((- errno E FI_ENOMEM, 0), w)
        | Some h \<Rightarrow> do {
            let w = take_info w;
            h \<leftarrow> fill_hints E h;
            let (name, w) = copy_string E ''verbs'' w;
            h \<leftarrow> set_prov_name name h;
            if name = None then Some ((- errno E FI_ENOMEM, 0), fi_freeinfo w)
            else (case domain_name of
                None \<Rightarrow> query_hints E (the node) service domain_name is_source h w
              | Some d \<Rightarrow> do {
                  let (name, w) = copy_string E d w;
                  h \<leftarrow> set_dom_name name h;
                  if name = None then Some ((- errno E FI_ENOMEM, 0), fi_freeinfo w)
                  else query_hints E (the node) service domain_name is_source h w
                })
          }))"

definition shim_info_free :: "addr \<Rightarrow> 'p world \<Rightarrow> 'p world option" where
  "shim_info_free info w =
     (if info = 0 then Some w
      else do {
        i \<leftarrow> infos w info;
        let w = (if i_raw i \<noteq> None then fi_freeinfo w else w);
        Some (w\<lparr>infos := (infos w)(info := None)\<rparr>)
      })"

end
