(* ===== verification/Shim_Close.thy ===== *)
theory Shim_Close
  imports Shim_Info
begin

text \<open>
  The close half of \<^verbatim>\<open>naive/fabric_shim.c\<close> (lines 541 to 548, 626 to 632 and 681 to 781):
  every close function releases its object only when nothing refers to it any more and
  the provider agreed, and keeps it alive otherwise.
\<close>

abbreviation set_fabric :: "addr \<Rightarrow> shim_fabric \<Rightarrow> 'p world \<Rightarrow> 'p world" where
  "set_fabric a x w \<equiv> w\<lparr>fabrics := (fabrics w)(a \<mapsto> x)\<rparr>"

abbreviation set_domain :: "addr \<Rightarrow> shim_domain \<Rightarrow> 'p world \<Rightarrow> 'p world" where
  "set_domain a x w \<equiv> w\<lparr>domains := (domains w)(a \<mapsto> x)\<rparr>"

abbreviation set_eq :: "addr \<Rightarrow> shim_eq \<Rightarrow> 'p world \<Rightarrow> 'p world" where
  "set_eq a x w \<equiv> w\<lparr>eqs := (eqs w)(a \<mapsto> x)\<rparr>"

abbreviation set_cq :: "addr \<Rightarrow> shim_cq \<Rightarrow> 'p world \<Rightarrow> 'p world" where
  "set_cq a x w \<equiv> w\<lparr>cqs := (cqs w)(a \<mapsto> x)\<rparr>"

abbreviation set_mr :: "addr \<Rightarrow> shim_mr \<Rightarrow> 'p world \<Rightarrow> 'p world" where
  "set_mr a x w \<equiv> w\<lparr>mrs := (mrs w)(a \<mapsto> x)\<rparr>"

abbreviation set_op :: "addr \<Rightarrow> shim_op \<Rightarrow> 'p world \<Rightarrow> 'p world" where
  "set_op a x w \<equiv> w\<lparr>ops := (ops w)(a \<mapsto> x)\<rparr>"

abbreviation set_endpoint :: "addr \<Rightarrow> shim_endpoint \<Rightarrow> 'p world \<Rightarrow> 'p world" where
  "set_endpoint a x w \<equiv> w\<lparr>endpoints := (endpoints w)(a \<mapsto> x)\<rparr>"

subsection \<open>Operations in flight\<close>

text \<open>\<open>op->mr->pending--\<close>, guarded by \<open>op->mr != NULL\<close>.\<close>

definition unborrow :: "addr \<Rightarrow> 'p world \<Rightarrow> 'p world option" where
  "unborrow mr w =
     (if mr = 0 then Some w
      else do {
        m \<leftarrow> mrs w mr;
        Some (set_mr mr (m\<lparr>m_pending := m_pending m - 1\<rparr>) w)
      })"

definition release_op :: "addr \<Rightarrow> 'p world \<Rightarrow> 'p world option" where
  "release_op x w = do {
     op \<leftarrow> ops w x;
     w \<leftarrow> unborrow (o_mr op) w;
     Some (set_op x (op\<lparr>o_mr := 0, o_cq := 0, o_next := 0\<rparr>) w)
   }"

partial_function (option) retire_walk :: "addr \<Rightarrow> 'p world \<Rightarrow> 'p world option" where
  "retire_walk p w =
     (if p = 0 then Some w
      else Option.bind (ops w p) (\<lambda>op.
        Option.bind (unborrow (o_mr op) w) (\<lambda>w.
          retire_walk (o_next op) (set_op p (op\<lparr>o_mr := 0\<rparr>) w))))"

definition retire_cq :: "addr \<Rightarrow> 'p world \<Rightarrow> 'p world option" where
  "retire_cq q w = do {
     c \<leftarrow> cqs w q;
     retire_walk (c_pending c) (set_cq q (c\<lparr>c_attached := False, c_retired := True\<rparr>) w)
   }"

text \<open>The loop of \<^verbatim>\<open>shim_cq_close\<close>: pop the head of the pending list until it is empty.\<close>

partial_function (option) drain_cq :: "addr \<Rightarrow> 'p world \<Rightarrow> 'p world option" where
  "drain_cq q w =
     Option.bind (cqs w q) (\<lambda>c.
       if c_pending c = 0 then Some w
       else Option.bind (ops w (c_pending c)) (\<lambda>op.
         Option.bind (release_op (c_pending c) (set_cq q (c\<lparr>c_pending := o_next op\<rparr>) w))
           (\<lambda>w. drain_cq q w)))"

subsection \<open>Close functions\<close>

definition shim_op_free :: "'p lib \<Rightarrow> addr \<Rightarrow> 'p world \<Rightarrow> (int \<times> 'p world) option" where
  "shim_op_free E op w =
     (if op = 0 then Some (0, w)
      else do {
        x \<leftarrow> ops w op;
        if o_cq x \<noteq> 0 then Some (- errno E FI_EBUSY, w)
        else Some (0, w\<lparr>ops := (ops w)(op := None)\<rparr>)
      })"

definition shim_shutdown :: "'p lib \<Rightarrow> addr \<Rightarrow> 'p world \<Rightarrow> (int \<times> 'p world) option" where
  "shim_shutdown E ep w =
     (if ep = 0 then Some (- errno E FI_EINVAL, w)
      else do {
        p \<leftarrow> endpoints w ep;
        if \<not> p_ready p then Some (- errno E FI_EINVAL, w)
        else Some (call (fi_shutdown E (p_raw p)) (set_endpoint ep (p\<lparr>p_closing := True\<rparr>) w))
      })"

definition shim_endpoint_close :: "'p lib \<Rightarrow> addr \<Rightarrow> 'p world \<Rightarrow> (int \<times> 'p world) option" where
  "shim_endpoint_close E ep w =
     (if ep = 0 then Some (0, w)
      else do {
        p \<leftarrow> endpoints w ep;
        let w = set_endpoint ep (p\<lparr>p_closing := True\<rparr>) w;
        let (ret, w) = call (fi_close E (p_raw p)) w;
        if ret \<noteq> 0 then Some (ret, w)
        else do {
          w \<leftarrow> retire_cq (p_tx p) w;
          w \<leftarrow> retire_cq (p_rx p) w;
          e \<leftarrow> eqs w (p_eq p);
          let w = set_eq (p_eq p) (e\<lparr>e_users := e_users e - 1\<rparr>) w;
          d \<leftarrow> domains w (p_domain p);
          let w = set_domain (p_domain p) (d\<lparr>d_children := d_children d - 1\<rparr>) w;
          Some (0, w\<lparr>endpoints := (endpoints w)(ep := None)\<rparr>)
        }
      })"

definition shim_listener_close :: "'p lib \<Rightarrow> addr \<Rightarrow> 'p world \<Rightarrow> (int \<times> 'p world) option" where
  "shim_listener_close E listener w =
     (if listener = 0 then Some (0, w)
      else do {
        l \<leftarrow> listeners w listener;
        let (ret, w) = call (fi_close E (l_raw l)) w;
        if ret \<noteq> 0 then Some (ret, w)
        else do {
          e \<leftarrow> eqs w (l_eq l);
          let w = set_eq (l_eq l) (e\<lparr>e_users := e_users e - 1\<rparr>) w;
          f \<leftarrow> fabrics w (l_fabric l);
          let w = set_fabric (l_fabric l) (f\<lparr>f_children := f_children f - 1\<rparr>) w;
          Some (0, w\<lparr>listeners := (listeners w)(listener := None)\<rparr>)
        }
      })"

definition shim_mr_close :: "'p lib \<Rightarrow> addr \<Rightarrow> 'p world \<Rightarrow> (int \<times> 'p world) option" where
  "shim_mr_close E mr w =
     (if mr = 0 then Some (0, w)
      else do {
        m \<leftarrow> mrs w mr;
        if m_pending m \<noteq> 0 then Some (- errno E FI_EBUSY, w)
        else do {
          let (ret, w) = call (fi_close E (m_raw m)) w;
          if ret \<noteq> 0 then Some (ret, w)
          else do {
            d \<leftarrow> domains w (m_domain m);
            let w = set_domain (m_domain m) (d\<lparr>d_children := d_children d - 1\<rparr>) w;
            Some (0, w\<lparr>mrs := (mrs w)(mr := None)\<rparr>)
          }
        }
      })"

definition shim_cq_close :: "'p lib \<Rightarrow> addr \<Rightarrow> 'p world \<Rightarrow> (int \<times> 'p world) option" where
  "shim_cq_close E cq w =
     (if cq = 0 then Some (0, w)
      else do {
        c \<leftarrow> cqs w cq;
        if c_attached c then Some (- errno E FI_EBUSY, w)
        else do {
          let (ret, w) = call (fi_close E (c_raw c)) w;
          if ret \<noteq> 0 then Some (ret, w)
          else do {
            w \<leftarrow> drain_cq cq w;
            d \<leftarrow> domains w (c_domain c);
            let w = set_domain (c_domain c) (d\<lparr>d_children := d_children d - 1\<rparr>) w;
            Some (0, w\<lparr>cqs := (cqs w)(cq := None)\<rparr>)
          }
        }
      })"

definition shim_eq_close :: "'p lib \<Rightarrow> addr \<Rightarrow> 'p world \<Rightarrow> (int \<times> 'p world) option" where
  "shim_eq_close E eq w =
     (if eq = 0 then Some (0, w)
      else do {
        e \<leftarrow> eqs w eq;
        if e_users e \<noteq> 0 then Some (- errno E FI_EBUSY, w)
        else do {
          let (ret, w) = call (fi_close E (e_raw e)) w;
          if ret \<noteq> 0 then Some (ret, w)
          else do {
            f \<leftarrow> fabrics w (e_fabric e);
            let w = set_fabric (e_fabric e) (f\<lparr>f_children := f_children f - 1\<rparr>) w;
            Some (0, w\<lparr>eqs := (eqs w)(eq := None)\<rparr>)
          }
        }
      })"

definition shim_domain_close :: "'p lib \<Rightarrow> addr \<Rightarrow> 'p world \<Rightarrow> (int \<times> 'p world) option" where
  "shim_domain_close E domain w =
     (if domain = 0 then Some (0, w)
      else do {
        d \<leftarrow> domains w domain;
        if d_children d \<noteq> 0 then Some (- errno E FI_EBUSY, w)
        else do {
          let (ret, w) = call (fi_close E (d_raw d)) w;
          if ret \<noteq> 0 then Some (ret, w)
          else do {
            f \<leftarrow> fabrics w (d_fabric d);
            let w = set_fabric (d_fabric d) (f\<lparr>f_children := f_children f - 1\<rparr>) w;
            Some (0, w\<lparr>domains := (domains w)(domain := None)\<rparr>)
          }
        }
      })"

definition shim_fabric_close :: "'p lib \<Rightarrow> addr \<Rightarrow> 'p world \<Rightarrow> (int \<times> 'p world) option" where
  "shim_fabric_close E fabric w =
     (if fabric = 0 then Some (0, w)
      else do {
        f \<leftarrow> fabrics w fabric;
        if f_children f \<noteq> 0 then Some (- errno E FI_EBUSY, w)
        else do {
          let (ret, w) = call (fi_close E (f_raw f)) w;
          if ret \<noteq> 0 then Some (ret, w)
          else Some (0, w\<lparr>fabrics := (fabrics w)(fabric := None)\<rparr>)
        }
      })"

end
