(* ===== verification/Shim_Ledger.thy ===== *)
theory Shim_Ledger
  imports Shim_Heap
begin

text \<open>
  The abstract specification of the shim: a ledger of live resources. Each step adds or
  removes one object together with the count its parents keep of it. The C functions are
  proved to perform exactly one such step or none; here every step is shown to keep the
  invariant \<open>inv\<close>.
\<close>

abbreviation fabric_inc :: "shim_fabric \<Rightarrow> shim_fabric" where
  "fabric_inc x \<equiv> x\<lparr>f_children := f_children x + 1\<rparr>"

abbreviation fabric_dec :: "shim_fabric \<Rightarrow> shim_fabric" where
  "fabric_dec x \<equiv> x\<lparr>f_children := f_children x - 1\<rparr>"

abbreviation domain_inc :: "shim_domain \<Rightarrow> shim_domain" where
  "domain_inc x \<equiv> x\<lparr>d_children := d_children x + 1\<rparr>"

abbreviation domain_dec :: "shim_domain \<Rightarrow> shim_domain" where
  "domain_dec x \<equiv> x\<lparr>d_children := d_children x - 1\<rparr>"

abbreviation eq_inc :: "shim_eq \<Rightarrow> shim_eq" where
  "eq_inc x \<equiv> x\<lparr>e_users := e_users x + 1\<rparr>"

abbreviation eq_dec :: "shim_eq \<Rightarrow> shim_eq" where
  "eq_dec x \<equiv> x\<lparr>e_users := e_users x - 1\<rparr>"

lemmas map_steps = children_ok_new children_ok_del children_ok_bump
  children_ok_bump_child apart_new apart_new'
  apart_del apart_del' apart_bump apart_bump'

lemmas kids_steps = kids_new kids_del kids_bump

lemma children_ok_parent_new: "children_ok m p k \<Longrightarrow> children_ok m (p(a \<mapsto> x)) k"
  by (auto simp: children_ok_def)

subsection \<open>Information records and fabrics\<close>

definition add_info :: "addr \<Rightarrow> fi_info \<Rightarrow> 'p world \<Rightarrow> 'p world" where
  "add_info a r w = w\<lparr>infos := (infos w)(a \<mapsto> \<lparr>i_raw = Some r\<rparr>)\<rparr>"

definition del_info :: "addr \<Rightarrow> 'p world \<Rightarrow> 'p world" where
  "del_info a w = w\<lparr>infos := (infos w)(a := None)\<rparr>"

definition add_fabric :: "addr \<Rightarrow> shim_fabric \<Rightarrow> 'p world \<Rightarrow> 'p world" where
  "add_fabric a f w = w\<lparr>fabrics := (fabrics w)(a \<mapsto> f)\<rparr>"

definition del_fabric :: "addr \<Rightarrow> 'p world \<Rightarrow> 'p world" where
  "del_fabric a w = w\<lparr>fabrics := (fabrics w)(a := None)\<rparr>"

lemma inv_add_info:
  assumes "inv w" and "a \<noteq> 0" and "info_wf r"
  shows "inv (add_info a r w)"
  using assms by (simp add: inv_def inv_structure add_info_def infos_wf_def)

lemma inv_del_info: "inv w \<Longrightarrow> inv (del_info a w)"
  by (simp add: inv_def inv_structure del_info_def infos_wf_def)

lemma inv_add_fabric:
  assumes "inv w" and "a \<noteq> 0" and "\<not> allocated w a" and "f_children f = 0"
  shows "inv (add_fabric a f w)"
  using assms fresh_maps [OF assms(3)] kids_orphans [OF assms(1), of a]
  by (simp add: inv_def inv_structure add_fabric_def children_ok_parent_new counted_new)

lemma inv_del_fabric:
  assumes "inv w" and "fabrics w a = Some f" and "f_children f = 0"
  shows "inv (del_fabric a w)"
  using assms no_kids(1) [OF assms]
  by (simp add: inv_def inv_structure del_fabric_def children_ok_parent_del counted_del)

subsection \<open>Domains and event queues\<close>

definition add_domain :: "addr \<Rightarrow> shim_domain \<Rightarrow> 'p world \<Rightarrow> 'p world" where
  "add_domain a d w = w\<lparr>domains := (domains w)(a \<mapsto> d),
     fabrics := bump fabric_inc (d_fabric d) (fabrics w)\<rparr>"

definition del_domain :: "addr \<Rightarrow> shim_domain \<Rightarrow> 'p world \<Rightarrow> 'p world" where
  "del_domain a d w = w\<lparr>domains := (domains w)(a := None),
     fabrics := bump fabric_dec (d_fabric d) (fabrics w)\<rparr>"

definition add_eq :: "addr \<Rightarrow> shim_eq \<Rightarrow> 'p world \<Rightarrow> 'p world" where
  "add_eq a e w = w\<lparr>eqs := (eqs w)(a \<mapsto> e),
     fabrics := bump fabric_inc (e_fabric e) (fabrics w)\<rparr>"

definition del_eq :: "addr \<Rightarrow> shim_eq \<Rightarrow> 'p world \<Rightarrow> 'p world" where
  "del_eq a e w = w\<lparr>eqs := (eqs w)(a := None),
     fabrics := bump fabric_dec (e_fabric e) (fabrics w)\<rparr>"

lemma inv_add_domain:
  assumes "inv w" and "a \<noteq> 0" and "\<not> allocated w a" and "d_children d = 0"
    and "fabrics w (d_fabric d) \<noteq> None"
  shows "inv (add_domain a d w)"
  using assms fresh_maps [OF assms(3)] kids_orphans [OF assms(1), of a]
  by (simp add: inv_def inv_structure add_domain_def map_steps children_ok_parent_new
      counted_new kids_steps) (auto elim!: counted_bump)

lemma inv_del_domain:
  assumes "inv w" and "domains w a = Some d" and "d_children d = 0"
  shows "inv (del_domain a d w)"
  using assms no_kids(2) [OF assms]
  by (simp add: inv_def inv_structure del_domain_def map_steps counted_del kids_steps
      children_ok_parent_del) (auto elim!: counted_bump)

lemma inv_add_eq:
  assumes "inv w" and "a \<noteq> 0" and "\<not> allocated w a" and "e_users e = 0"
    and "fabrics w (e_fabric e) \<noteq> None"
  shows "inv (add_eq a e w)"
  using assms fresh_maps [OF assms(3)] kids_orphans [OF assms(1), of a]
  by (simp add: inv_def inv_structure add_eq_def map_steps children_ok_parent_new
      counted_new kids_steps) (auto elim!: counted_bump)

lemma inv_del_eq:
  assumes "inv w" and "eqs w a = Some e" and "e_users e = 0"
  shows "inv (del_eq a e w)"
  using assms no_kids(3) [OF assms]
  by (simp add: inv_def inv_structure del_eq_def map_steps counted_del kids_steps
      children_ok_parent_del) (auto elim!: counted_bump)

subsection \<open>Completion queues and memory regions\<close>

definition add_cq :: "addr \<Rightarrow> shim_cq \<Rightarrow> 'p world \<Rightarrow> 'p world" where
  "add_cq a c w = w\<lparr>cqs := (cqs w)(a \<mapsto> c),
     domains := bump domain_inc (c_domain c) (domains w)\<rparr>"

text \<open>Closing a queue detaches the operations that are left in it.\<close>

definition drain_ops :: "addr \<Rightarrow> (addr \<rightharpoonup> shim_op) \<Rightarrow> (addr \<rightharpoonup> shim_op)" where
  "drain_ops q = mapm (\<lambda>_ op. if o_cq op = q then op\<lparr>o_mr := 0, o_cq := 0, o_next := 0\<rparr> else op)"

definition del_cq :: "addr \<Rightarrow> shim_cq \<Rightarrow> 'p world \<Rightarrow> 'p world" where
  "del_cq a c w = w\<lparr>cqs := (cqs w)(a := None), ops := drain_ops a (ops w),
     domains := bump domain_dec (c_domain c) (domains w)\<rparr>"

definition add_mr :: "addr \<Rightarrow> shim_mr \<Rightarrow> 'p world \<Rightarrow> 'p world" where
  "add_mr a m w = w\<lparr>mrs := (mrs w)(a \<mapsto> m),
     domains := bump domain_inc (m_domain m) (domains w)\<rparr>"

definition del_mr :: "addr \<Rightarrow> shim_mr \<Rightarrow> 'p world \<Rightarrow> 'p world" where
  "del_mr a m w = w\<lparr>mrs := (mrs w)(a := None),
     domains := bump domain_dec (m_domain m) (domains w)\<rparr>"

definition add_op :: "addr \<Rightarrow> shim_op \<Rightarrow> 'p world \<Rightarrow> 'p world" where
  "add_op a x w = w\<lparr>ops := (ops w)(a \<mapsto> x)\<rparr>"

definition del_op :: "addr \<Rightarrow> 'p world \<Rightarrow> 'p world" where
  "del_op a w = w\<lparr>ops := (ops w)(a := None)\<rparr>"

lemma inv_add_cq:
  assumes "inv w" and "a \<noteq> 0" and "\<not> allocated w a" and "domains w (c_domain c) \<noteq> None"
    and "c_pending c = 0" "c_count c = 0" "\<not> c_used c" "\<not> c_attached c" "\<not> c_retired c"
  shows "inv (add_cq a c w)"
proof -
  note fresh = fresh_maps [OF assms(3)]
  have no_op: "o_cq op \<noteq> a" if "ops w x = Some op" for x op
    using op_cq_live [OF assms(1) that] assms(2) fresh by auto
  have no_ep: "\<not> uses_cq p a" if "endpoints w b = Some p" for b p
    using endpoint_parents [OF assms(1) that] fresh by (auto simp: uses_cq_def)
  have "cq_wf (ops w) a c"
    using assms(5-) no_op by (auto simp: cq_wf_def)
  then have "inv_queues ((cqs w)(a \<mapsto> c)) (ops w)"
    using assms(1) by (auto simp: inv_def inv_queues_def)
  moreover have "cq_flags_ok (endpoints w) a c"
    using assms(5-) no_ep by (auto simp: cq_flags_ok_def user_of_def)
  then have "inv_attach ((cqs w)(a \<mapsto> c)) (endpoints w)"
    using assms(1) by (simp add: inv_def inv_attach_def)
  ultimately show ?thesis
    using assms fresh
    by (simp add: inv_def inv_structure add_cq_def map_steps children_ok_parent_new
      counted_new kids_steps) (auto elim!: counted_bump)
qed

lemma drain_ops_apply:
  "drain_ops q h x = map_option
     (\<lambda>op. if o_cq op = q then op\<lparr>o_mr := 0, o_cq := 0, o_next := 0\<rparr> else op) (h x)"
  by (simp add: drain_ops_def mapm_apply)

lemma drain_ops_None [simp]: "drain_ops q h x = None \<longleftrightarrow> h x = None"
  by (simp add: drain_ops_def)

lemma drain_ops_Some:
  assumes "drain_ops q h x = Some op" and "o_cq op \<noteq> 0"
  shows "h x = Some op" and "o_cq op \<noteq> q"
proof -
  from assms(1) obtain op' where h: "h x = Some op'"
    and op: "op = (if o_cq op' = q then op'\<lparr>o_mr := 0, o_cq := 0, o_next := 0\<rparr> else op')"
    by (cases "h x") (auto simp: drain_ops_apply)
  have "o_cq op' \<noteq> q" using assms(2) by (auto simp: op)
  then show "h x = Some op" and "o_cq op \<noteq> q" using h by (simp_all add: op)
qed

lemma cq_wf_drain:
  assumes "cq_wf h q' c" and "q' \<noteq> q" and "q' \<noteq> 0"
  shows "cq_wf (drain_ops q h) q' c"
  using assms(1)
proof (rule cq_wfE)
  fix xs
  assume xs: "chain h (c_pending c) xs" "distinct xs" "c_count c = of_nat (length xs)"
    "length xs \<le> unat (c_capacity c)"
    "\<And>x. x \<in> set xs \<longleftrightarrow> (\<exists>op. h x = Some op \<and> o_cq op = q')"
    and nb: "\<And>x op. \<not> c_attached c \<Longrightarrow> h x = Some op \<Longrightarrow> o_cq op = q' \<Longrightarrow> o_mr op = 0"
  have same: "drain_ops q h x = h x" if "x \<in> set xs" for x
    using xs(5) [of x] that assms(2) by (auto simp: drain_ops_apply)
  have "chain (drain_ops q h) (c_pending c) xs"
    using xs(1) chain_cong [of xs "drain_ops q h" h] same by simp
  moreover have "(\<exists>op. drain_ops q h x = Some op \<and> o_cq op = q') \<longleftrightarrow> x \<in> set xs" for x
    using xs(5) [of x] assms(2,3) by (cases "h x") (auto simp: drain_ops_apply)
  moreover have "o_mr op = 0"
    if "\<not> c_attached c" "drain_ops q h x = Some op" "o_cq op = q'" for x op
    using that nb [of x] by (auto simp: drain_ops_apply split: if_splits)
  ultimately show ?thesis using xs by (intro cq_wfI [of _ _ xs]) auto
qed

lemma inv_del_cq:
  assumes "inv w" and "cqs w a = Some c" and "\<not> c_attached c"
  shows "inv (del_cq a c w)"
proof -
  let ?h = "drain_ops a (ops w)"
  have null: "cqs w 0 = None" using assms(1) by (rule inv_nullD)
  have idle: "o_mr op = 0" if "ops w x = Some op" "o_cq op = a" for x op
    using cq_wfD [OF assms(1,2)] assms(3) that by (auto simp: cq_wf_def)
  have unused: "p_tx p \<noteq> a" "p_rx p \<noteq> a" if "endpoints w b = Some p" for b p
    using cq_flagsD [OF assms(1,2)] assms(3) that
    by (auto simp: cq_flags_ok_def user_of_def uses_cq_def)
  have "children_ok (endpoints w) ((cqs w)(a := None)) p_tx"
    and "children_ok (endpoints w) ((cqs w)(a := None)) p_rx"
    using assms(1) unused by (auto simp: inv_def inv_links_def children_ok_def)
  moreover have "inv_queues ((cqs w)(a := None)) ?h"
  proof (rule inv_queuesI)
    show "cq_wf ?h q c'" if "((cqs w)(a := None)) q = Some c'" for q c'
      using that null cq_wfD [OF assms(1), of q c'] by (intro cq_wf_drain) (auto split: if_splits)
    show "((cqs w)(a := None)) (o_cq op) \<noteq> None" if "?h x = Some op" "o_cq op \<noteq> 0" for x op
      using drain_ops_Some [OF that] op_cq_live [OF assms(1), of x] that(2) by auto
  qed
  moreover have "inv_attach ((cqs w)(a := None)) (endpoints w)"
    using assms by (auto simp: inv_def inv_attach_def)
  moreover have "kids ?h o_mr = kids (ops w) o_mr"
    unfolding drain_ops_def by (rule kids_mapm) (simp add: idle)
  moreover have "borrows_ok ?h (mrs w)"
    unfolding borrows_ok_def
  proof (intro allI impI, elim conjE)
    fix x op
    assume h: "?h x = Some op" and nz: "o_mr op \<noteq> 0"
    from h obtain op' where h': "ops w x = Some op'"
      and op: "op = (if o_cq op' = a then op'\<lparr>o_mr := 0, o_cq := 0, o_next := 0\<rparr> else op')"
      by (cases "ops w x") (auto simp: drain_ops_apply)
    from nz have "op' = op" by (auto simp: op split: if_splits)
    with op_mr_live [OF assms(1) h'] nz
    show "o_cq op \<noteq> 0 \<and> (\<exists>r. mrs w (o_mr op) = Some r \<and> in_region op r)" by simp
  qed
  ultimately show ?thesis
    using assms(1-3)
    by (simp add: inv_def inv_structure del_cq_def map_steps children_ok_parent_new
      counted_new kids_steps) (auto elim!: counted_bump)
qed

lemma inv_add_mr:
  assumes "inv w" and "a \<noteq> 0" and "\<not> allocated w a" and "domains w (m_domain m) \<noteq> None"
    and "m_pending m = 0" and "mr_backed (mem w) m"
  shows "inv (add_mr a m w)"
proof -
  note fresh = fresh_maps [OF assms(3)]
  have "kids (ops w) o_mr a = 0"
    unfolding kids_def using assms(1,2) fresh
    by (intro refs_none) (fastforce simp: inv_def borrows_ok_def)
  moreover have "borrows_ok (ops w) ((mrs w)(a \<mapsto> m))"
    using assms(1) fresh by (fastforce simp: inv_def borrows_ok_def)
  moreover have "mrs_backed ((mrs w)(a \<mapsto> m)) (mem w)"
    using assms(1,6) by (simp add: inv_def mrs_backed_def)
  ultimately show ?thesis
    using assms fresh
    by (simp add: inv_def inv_structure add_mr_def map_steps children_ok_parent_new
      counted_new kids_steps) (auto elim!: counted_bump)
qed

lemma inv_del_mr:
  assumes "inv w" and "mrs w a = Some m" and "m_pending m = 0"
  shows "inv (del_mr a m w)"
proof -
  have no: "o_mr op \<noteq> a" if "ops w x = Some op" for x op
    using no_kids(4) [OF assms] refs_zero1 [of "ops w" "\<lambda>op. o_mr op = a" x op] that
      inv_nullD(9) [OF assms(1)] by (simp add: kids_def)
  have "borrows_ok (ops w) ((mrs w)(a := None))"
    using assms(1) no by (auto simp: inv_def borrows_ok_def)
  moreover have "mrs_backed ((mrs w)(a := None)) (mem w)"
    using assms(1) by (simp add: inv_def mrs_backed_def)
  ultimately show ?thesis
    using assms
    by (simp add: inv_def inv_structure del_mr_def map_steps counted_del kids_steps)
      (auto elim!: counted_bump)
qed

subsection \<open>Listeners\<close>

definition add_listener :: "addr \<Rightarrow> shim_listener \<Rightarrow> 'p world \<Rightarrow> 'p world" where
  "add_listener a l w = w\<lparr>listeners := (listeners w)(a \<mapsto> l),
     fabrics := bump fabric_inc (l_fabric l) (fabrics w),
     eqs := bump eq_inc (l_eq l) (eqs w)\<rparr>"

definition del_listener :: "addr \<Rightarrow> shim_listener \<Rightarrow> 'p world \<Rightarrow> 'p world" where
  "del_listener a l w = w\<lparr>listeners := (listeners w)(a := None),
     fabrics := bump fabric_dec (l_fabric l) (fabrics w),
     eqs := bump eq_dec (l_eq l) (eqs w)\<rparr>"

lemma inv_add_listener:
  assumes "inv w" and "a \<noteq> 0" and "\<not> allocated w a"
    and "fabrics w (l_fabric l) \<noteq> None" and "eqs w (l_eq l) \<noteq> None"
  shows "inv (add_listener a l w)"
  using assms fresh_maps [OF assms(3)]
  by (simp add: inv_def inv_structure add_listener_def map_steps kids_steps)
    (auto elim!: counted_bump)

lemma inv_del_listener:
  assumes "inv w" and "listeners w a = Some l"
  shows "inv (del_listener a l w)"
  using assms
  by (simp add: inv_def inv_structure del_listener_def map_steps kids_steps)
    (auto elim!: counted_bump)

lemma inv_upd_listener:
  assumes "inv w" and "listeners w a = Some l" and "l_fabric l' = l_fabric l" "l_eq l' = l_eq l"
  shows "inv (w\<lparr>listeners := (listeners w)(a \<mapsto> l')\<rparr>)"
  using assms
  by (auto simp: inv_def inv_structure kids_upd_same elim!: children_ok_upd apart_upd apart_upd')

subsection \<open>Endpoints\<close>

abbreviation cq_attach :: "shim_cq \<Rightarrow> shim_cq" where
  "cq_attach c \<equiv> c\<lparr>c_used := True, c_attached := True\<rparr>"

abbreviation cq_retire :: "shim_cq \<Rightarrow> shim_cq" where
  "cq_retire c \<equiv> c\<lparr>c_attached := False, c_retired := True\<rparr>"

text \<open>The operations of queue \<open>q\<close> stop borrowing their memory regions.\<close>

definition retire_ops :: "addr \<Rightarrow> (addr \<rightharpoonup> shim_op) \<Rightarrow> (addr \<rightharpoonup> shim_op)" where
  "retire_ops q = mapm (\<lambda>_ op. if o_cq op = q then op\<lparr>o_mr := 0\<rparr> else op)"

definition recount :: "(addr \<rightharpoonup> shim_op) \<Rightarrow> (addr \<rightharpoonup> shim_mr) \<Rightarrow> (addr \<rightharpoonup> shim_mr)" where
  "recount h = mapm (\<lambda>a r. r\<lparr>m_pending := kids h o_mr a\<rparr>)"

definition add_endpoint :: "addr \<Rightarrow> shim_endpoint \<Rightarrow> 'p world \<Rightarrow> 'p world" where
  "add_endpoint a p w = w\<lparr>endpoints := (endpoints w)(a \<mapsto> p),
     domains := bump domain_inc (p_domain p) (domains w),
     eqs := bump eq_inc (p_eq p) (eqs w),
     cqs := bump cq_attach (p_rx p) (bump cq_attach (p_tx p) (cqs w))\<rparr>"

definition del_endpoint :: "addr \<Rightarrow> shim_endpoint \<Rightarrow> 'p world \<Rightarrow> 'p world" where
  "del_endpoint a p w =
     (let h = retire_ops (p_rx p) (retire_ops (p_tx p) (ops w))
      in w\<lparr>endpoints := (endpoints w)(a := None),
           domains := bump domain_dec (p_domain p) (domains w),
           eqs := bump eq_dec (p_eq p) (eqs w),
           cqs := bump cq_retire (p_rx p) (bump cq_retire (p_tx p) (cqs w)),
           ops := h, mrs := recount h (mrs w)\<rparr>)"

lemma inv_upd_endpoint:
  assumes "inv w" and "endpoints w a = Some p" and "p_domain p' = p_domain p" "p_eq p' = p_eq p"
    "p_tx p' = p_tx p" "p_rx p' = p_rx p"
  shows "inv (w\<lparr>endpoints := (endpoints w)(a \<mapsto> p')\<rparr>)"
proof -
  have "inv_attach (cqs w) ((endpoints w)(a \<mapsto> p'))"
    using assms by (auto simp: inv_def inv_attach_def cq_flags_ok_def user_of_upd uses_cq_def)
  with assms show ?thesis
    by (auto simp: inv_def inv_structure kids_upd_same elim!: children_ok_upd apart_upd apart_upd')
qed

lemma cq_wf_flags:
  "cq_wf h q c \<Longrightarrow> c_pending c' = c_pending c \<Longrightarrow> c_count c' = c_count c \<Longrightarrow>
   c_capacity c' = c_capacity c \<Longrightarrow> c_attached c' \<or> \<not> c_attached c \<Longrightarrow> cq_wf h q c'"
  by (auto simp: cq_wf_def)

lemma inv_add_endpoint:
  assumes "inv w" and "a \<noteq> 0" and "\<not> allocated w a"
    and "domains w (p_domain p) \<noteq> None" and "eqs w (p_eq p) \<noteq> None"
    and "cqs w (p_tx p) = Some t" and "cqs w (p_rx p) = Some r"
    and "p_tx p \<noteq> p_rx p" and "\<not> c_used t" and "\<not> c_used r"
  shows "inv (add_endpoint a p w)"
proof -
  note fresh = fresh_maps [OF assms(3)]
  let ?cq = "bump cq_attach (p_rx p) (bump cq_attach (p_tx p) (cqs w))"
  have free: "\<not> user_of (endpoints w) (p_tx p) b" "\<not> user_of (endpoints w) (p_rx p) b" for b
    using cq_flagsD [OF assms(1,6)] cq_flagsD [OF assms(1,7)] assms(9,10)
    by (auto simp: cq_flags_ok_def)
  have flags: "cq_flags_ok ((endpoints w)(a \<mapsto> p)) q c" if "?cq q = Some c" for q c
    using assms(1,6-10) that fresh cq_flagsD [OF assms(1), of q]
    by (auto simp: bump_apply uses_cq_def user_of_new cq_flags_ok_def split: if_splits)
  have "inv_attach ?cq ((endpoints w)(a \<mapsto> p))"
    using assms(1,8) fresh free flags
    by (auto simp: inv_def inv_attach_def user_of_new uses_cq_def) blast
  moreover have "inv_queues ?cq (ops w)"
  proof (rule inv_queuesI)
    show "cq_wf (ops w) q c" if bq: "?cq q = Some c" for q c
    proof -
      obtain c0 where c0: "cqs w q = Some c0"
        and c: "c = (if q = p_tx p \<or> q = p_rx p then cq_attach c0 else c0)"
        using bq assms(8) by (rule bump2_Some)
      have same: "c_pending c = c_pending c0" "c_count c = c_count c0"
        "c_capacity c = c_capacity c0" "c_attached c \<or> \<not> c_attached c0"
        by (simp_all add: c)
      from cq_wfD [OF assms(1) c0] same show ?thesis by (rule cq_wf_flags)
    qed
    show "?cq (o_cq op) \<noteq> None" if "ops w x = Some op" "o_cq op \<noteq> 0" for x op
      using op_cq_live [OF assms(1) that] by simp
  qed
  ultimately show ?thesis
    using assms(1-7) fresh
    by (simp add: inv_def inv_structure add_endpoint_def map_steps kids_steps)
      (auto elim!: counted_bump)
qed

text \<open>Dropping borrows keeps every list, and every other field of the regions.\<close>

lemma cq_wf_retire_ops:
  assumes "cq_wf h q c"
  shows "cq_wf (retire_ops r h) q c"
proof -
  have n: "map_option o_next (retire_ops r h x) = map_option o_next (h x)" for x
    by (cases "h x") (simp_all add: retire_ops_def mapm_apply)
  have ch: "chain (retire_ops r h) p xs = chain h p xs" for p xs
    by (rule chain_cong) (rule n)
  have o_: "(\<exists>op. retire_ops r h x = Some op \<and> o_cq op = q) \<longleftrightarrow> (\<exists>op. h x = Some op \<and> o_cq op = q)"
    for x by (cases "h x") (auto simp: retire_ops_def mapm_apply)
  from assms show ?thesis
  proof (rule cq_wfE)
    fix xs
    assume xs: "chain h (c_pending c) xs" "distinct xs" "c_count c = of_nat (length xs)"
      "length xs \<le> unat (c_capacity c)"
      "\<And>x. x \<in> set xs \<longleftrightarrow> (\<exists>op. h x = Some op \<and> o_cq op = q)"
      and nb: "\<And>x op. \<not> c_attached c \<Longrightarrow> h x = Some op \<Longrightarrow> o_cq op = q \<Longrightarrow> o_mr op = 0"
    have "o_mr op = 0" if "\<not> c_attached c" "retire_ops r h x = Some op" "o_cq op = q" for x op
      using that nb [of x] by (auto simp: retire_ops_def mapm_apply split: if_splits)
    with xs show ?thesis by (intro cq_wfI [of _ _ xs]) (auto simp: ch o_)
  qed
qed

lemma cq_wf_retired:
  assumes "cq_wf h q c" and "\<And>x op. h x = Some op \<Longrightarrow> o_cq op = q \<Longrightarrow> o_mr op = 0"
    and "c_pending c' = c_pending c" "c_count c' = c_count c" "c_capacity c' = c_capacity c"
  shows "cq_wf h q c'"
  using assms by (auto simp: cq_wf_def)

lemma retire2_Some:
  assumes "retire_ops r (retire_ops t h) x = Some op"
  obtains op' where "h x = Some op'"
    "op = (if o_cq op' = t \<or> o_cq op' = r then op'\<lparr>o_mr := 0\<rparr> else op')"
proof -
  from assms obtain op' where "h x = Some op'"
    by (cases "h x") (simp_all add: retire_ops_def mapm_apply)
  with assms show ?thesis
    by (intro that [of op']) (auto simp: retire_ops_def mapm_apply split: if_splits)
qed

lemma recount_keeps:
  "kids (recount h m) m_domain = kids m m_domain"
  "children_ok m p m_domain \<Longrightarrow> children_ok (recount h m) p m_domain"
  "apart m n \<Longrightarrow> apart (recount h m) n" "apart k m \<Longrightarrow> apart k (recount h m)"
  by (simp_all add: recount_def kids_mapm children_ok_mapm apart_mapm apart_mapm')

lemma attach_del_endpoint:
  assumes "inv w" and "endpoints w a = Some p"
  shows "inv_attach (bump cq_retire (p_rx p) (bump cq_retire (p_tx p) (cqs w))) ((endpoints w)(a := None))"
proof -
  let ?cq = "bump cq_retire (p_rx p) (bump cq_retire (p_tx p) (cqs w))"
  have uq: "b = a" if "user_of (endpoints w) q b" "user_of (endpoints w) q a" for b q
    using single_user [OF assms(1)] that by blast
  have mine: "user_of (endpoints w) q a \<longleftrightarrow> q = p_tx p \<or> q = p_rx p" for q
    using assms(2) by (auto simp: user_of_def uses_cq_def)
  have "cq_flags_ok ((endpoints w)(a := None)) q c" if bq: "?cq q = Some c" for q c
  proof -
    obtain c0 where c0: "cqs w q = Some c0"
      and c: "c = (if q = p_tx p \<or> q = p_rx p then cq_retire c0 else c0)"
      using bq endpoint_parents(5) [OF assms] by (rule bump2_Some)
    show ?thesis
      using cq_flagsD [OF assms(1) c0] uq mine [of q]
      by (simp add: c cq_flags_ok_def user_of_del) metis
  qed
  then show ?thesis
    using assms(1) by (auto simp: inv_def inv_attach_def user_of_del) blast
qed

lemma queues_del_endpoint:
  assumes "inv w" and "endpoints w a = Some p"
  shows "inv_queues (bump cq_retire (p_rx p) (bump cq_retire (p_tx p) (cqs w)))
    (retire_ops (p_rx p) (retire_ops (p_tx p) (ops w)))" (is "inv_queues ?cq ?h")
proof (rule inv_queuesI)
  fix q c assume bq: "?cq q = Some c"
  obtain c0 where c0: "cqs w q = Some c0"
    and c: "c = (if q = p_tx p \<or> q = p_rx p then cq_retire c0 else c0)"
    using bq endpoint_parents(5) [OF assms] by (rule bump2_Some)
  have same: "c_pending c = c_pending c0" "c_count c = c_count c0" "c_capacity c = c_capacity c0"
    by (simp_all add: c)
  have wf0: "cq_wf ?h q c0" using cq_wfD [OF assms(1) c0] by (simp add: cq_wf_retire_ops)
  show "cq_wf ?h q c"
  proof (cases "q = p_tx p \<or> q = p_rx p")
    case True
    have "o_mr op = 0" if "?h x = Some op" "o_cq op = q" for x op
      by (rule retire2_Some [OF that(1)]) (use that(2) True in auto)
    with wf0 show ?thesis using same by (rule cq_wf_retired)
  qed (use wf0 c in simp)
next
  fix x op assume x: "?h x = Some op" and nz: "o_cq op \<noteq> 0"
  show "?cq (o_cq op) \<noteq> None"
  proof (rule retire2_Some [OF x])
    fix op'
    assume "ops w x = Some op'"
      and "op = (if o_cq op' = p_tx p \<or> o_cq op' = p_rx p then op'\<lparr>o_mr := 0\<rparr> else op')"
    with op_cq_live [OF assms(1), of x op'] nz show ?thesis by (auto split: if_splits)
  qed
qed

lemma borrows_del_endpoint:
  assumes "inv w" and "h = retire_ops (p_rx p) (retire_ops (p_tx p) (ops w))"
  shows "borrows_ok h (recount h (mrs w))"
  unfolding borrows_ok_def
proof (intro allI impI, elim conjE)
  fix x op
  assume "h x = Some op" and nz: "o_mr op \<noteq> 0"
  then have x: "retire_ops (p_rx p) (retire_ops (p_tx p) (ops w)) x = Some op" by (simp add: assms(2))
  obtain op' where o': "ops w x = Some op'"
    and op: "op = (if o_cq op' = p_tx p \<or> o_cq op' = p_rx p then op'\<lparr>o_mr := 0\<rparr> else op')"
    using x by (rule retire2_Some)
  with nz have "op = op'" by (auto split: if_splits)
  with op_mr_live [OF assms(1) o'] nz
  show "o_cq op \<noteq> 0 \<and> (\<exists>r. recount h (mrs w) (o_mr op) = Some r \<and> in_region op r)"
    by (auto simp: recount_def mapm_apply in_region_def)
qed

lemma inv_del_endpoint:
  assumes "inv w" and "endpoints w a = Some p"
  shows "inv (del_endpoint a p w)"
proof -
  let ?h = "retire_ops (p_rx p) (retire_ops (p_tx p) (ops w))"
  note endpoint_parents [OF assms] attach_del_endpoint [OF assms] queues_del_endpoint [OF assms]
    borrows_del_endpoint [OF assms(1) refl, of p]
  moreover have "mrs_backed (recount ?h (mrs w)) (mem w)"
    using assms(1) by (auto simp: inv_def mrs_backed_def recount_def mapm_apply mr_backed_def)
  moreover have "counted (recount ?h (mrs w)) m_pending (kids ?h o_mr)"
    by (auto simp: counted_def recount_def mapm_apply)
  moreover have "recount ?h (mrs w) 0 = None" "?h 0 = None"
    using assms(1) by (auto simp: inv_def inv_null_def recount_def retire_ops_def)
  ultimately show ?thesis
    using assms
    by (simp add: inv_def inv_structure del_endpoint_def Let_def map_steps kids_steps
        recount_keeps) (auto elim!: counted_bump)
qed

subsection \<open>Operations\<close>

lemma inv_add_op:
  assumes "inv w" and "a \<noteq> 0" and "\<not> allocated w a" and "o_cq x = 0" "o_mr x = 0"
  shows "inv (add_op a x w)"
proof -
  note fresh = fresh_maps [OF assms(3)]
  have "cq_wf ((ops w)(a \<mapsto> x)) q c" if "cqs w q = Some c" for q c
  proof -
    have "q \<noteq> 0" using that inv_nullD(5) [OF assms(1)] by auto
    from cq_wfD [OF assms(1) that] show ?thesis
    proof (rule cq_wfE)
      fix xs
      assume xs: "chain (ops w) (c_pending c) xs" "distinct xs" "c_count c = of_nat (length xs)"
        "length xs \<le> unat (c_capacity c)"
        "\<And>x. x \<in> set xs \<longleftrightarrow> (\<exists>op. ops w x = Some op \<and> o_cq op = q)"
        and nb: "\<And>x op. \<not> c_attached c \<Longrightarrow> ops w x = Some op \<Longrightarrow> o_cq op = q \<Longrightarrow> o_mr op = 0"
      have "a \<notin> set xs" using xs(5) fresh by simp
      then have "chain ((ops w)(a \<mapsto> x)) (c_pending c) xs" using xs(1) by (simp add: chain_notin)
      with xs nb fresh \<open>q \<noteq> 0\<close> assms(4,5) show ?thesis
        by (intro cq_wfI [of _ _ xs]) (auto split: if_splits)
    qed
  qed
  then have "inv_queues (cqs w) ((ops w)(a \<mapsto> x))"
    using assms by (intro inv_queuesI) (auto dest: op_cq_live split: if_splits)
  moreover have "borrows_ok ((ops w)(a \<mapsto> x)) (mrs w)"
    using assms by (auto simp: inv_def borrows_ok_def)
  moreover have "kids (ops w) o_mr b = kids ((ops w)(a \<mapsto> x)) o_mr b" if "mrs w b \<noteq> None" for b
    using fresh assms(5) that inv_nullD(8) [OF assms(1)] by (auto simp: kids_new)
  ultimately show ?thesis
    using assms
    by (simp add: inv_def inv_structure add_op_def) (auto simp: counted_def)
qed

lemma cq_wf_op_elsewhere:
  assumes "cq_wf h q c" and "h x = Some op" and "o_cq op \<noteq> q" and "v = None \<or> o_cq (the v) \<noteq> q"
  shows "cq_wf (h(x := v)) q c"
  using assms(1)
proof (rule cq_wfE)
  fix xs
  assume xs: "chain h (c_pending c) xs" "distinct xs" "c_count c = of_nat (length xs)"
    "length xs \<le> unat (c_capacity c)"
    "\<And>x. x \<in> set xs \<longleftrightarrow> (\<exists>op. h x = Some op \<and> o_cq op = q)"
    and nb: "\<And>x op. \<not> c_attached c \<Longrightarrow> h x = Some op \<Longrightarrow> o_cq op = q \<Longrightarrow> o_mr op = 0"
  have "x \<notin> set xs" using xs(5) [of x] assms(2,3) by simp
  then have "chain (h(x := v)) (c_pending c) xs" using xs(1) by (simp add: chain_notin)
  with xs nb assms(2-4) show ?thesis by (intro cq_wfI [of _ _ xs]) (auto split: if_splits)
qed

lemma inv_del_op:
  assumes "inv w" and "ops w a = Some x" and "o_cq x = 0"
  shows "inv (del_op a w)"
proof -
  have null: "cqs w 0 = None" "mrs w 0 = None" using assms(1) by (rule inv_nullD)+
  have idle: "o_mr x = 0" using op_mr_live [OF assms(1,2)] assms(3) by auto
  have "inv_queues (cqs w) ((ops w)(a := None))"
  proof (rule inv_queuesI)
    show "cq_wf ((ops w)(a := None)) q c" if q: "cqs w q = Some c" for q c
    proof (rule cq_wf_op_elsewhere [OF cq_wfD [OF assms(1) q] assms(2)])
      show "o_cq x \<noteq> q" using q null assms(3) by auto
    qed simp
  qed (use op_cq_live [OF assms(1)] in \<open>auto split: if_splits\<close>)
  moreover have "borrows_ok ((ops w)(a := None)) (mrs w)"
    using assms(1) by (auto simp: inv_def borrows_ok_def)
  moreover have "kids ((ops w)(a := None)) o_mr b = kids (ops w) o_mr b" if "mrs w b \<noteq> None" for b
    using that null assms(2) idle by (auto simp: kids_del)
  ultimately show ?thesis
    using assms by (simp add: inv_def inv_structure del_op_def) (auto simp: counted_def)
qed

subsection \<open>Work requests\<close>

text \<open>
  \<open>start_op\<close>: a posted operation enters its queue's list at the head and borrows its
  region. \<open>finish_op\<close>: the operation \<open>x\<close>, whose link is the \<open>o_next\<close> field of \<open>prev\<close> or
  the queue's head, leaves the list and gives the region back.
\<close>

definition start_op :: "addr \<Rightarrow> shim_op \<Rightarrow> 'p world \<Rightarrow> 'p world" where
  "start_op x op w = w\<lparr>ops := (ops w)(x \<mapsto> op),
     cqs := bump (\<lambda>c. c\<lparr>c_pending := x, c_count := c_count c + 1\<rparr>) (o_cq op) (cqs w),
     mrs := bump (\<lambda>m. m\<lparr>m_pending := m_pending m + 1\<rparr>) (o_mr op) (mrs w)\<rparr>"

definition finish_op :: "addr \<Rightarrow> addr \<Rightarrow> shim_op \<Rightarrow> 'p world \<Rightarrow> 'p world" where
  "finish_op prev x op w = w\<lparr>
     ops := (bump (\<lambda>o'. o'\<lparr>o_next := o_next op\<rparr>) prev (ops w))
              (x \<mapsto> op\<lparr>o_mr := 0, o_cq := 0, o_next := 0\<rparr>),
     cqs := bump (\<lambda>c. (if prev = 0 then c\<lparr>c_pending := o_next op\<rparr> else c)
                        \<lparr>c_count := c_count c - 1\<rparr>) (o_cq op) (cqs w),
     mrs := bump (\<lambda>m. m\<lparr>m_pending := m_pending m - 1\<rparr>) (o_mr op) (mrs w)\<rparr>"

lemma inv_attach_bump:
  assumes "inv_attach cq ep"
    and "\<And>c. c_attached (f c) = c_attached c" "\<And>c. c_used (f c) = c_used c"
      "\<And>c. c_retired (f c) = c_retired c"
  shows "inv_attach (bump f q cq) ep"
  using assms by (auto simp: inv_attach_def bump_apply cq_flags_ok_def split: if_splits)

lemma mrs_bump_keeps:
  assumes "\<And>m. m_buffer (f m) = m_buffer m" "\<And>m. m_capacity (f m) = m_capacity m"
  shows "mrs_backed mr mm \<Longrightarrow> mrs_backed (bump f a mr) mm"
    and "borrows_ok h mr \<Longrightarrow> borrows_ok h (bump f a mr)"
  using assms
  by (auto simp: mrs_backed_def mr_backed_def bump_apply split: if_splits)
    (fastforce simp: borrows_ok_def in_region_def bump_apply)

lemma unat_lt_64: "unat (n :: size_t) < 2 ^ 64"
  by (rule order_less_le_trans [OF unsigned_less]) simp

lemma word_succ_le:
  assumes "length xs \<le> unat n" and "(of_nat (length xs) :: size_t) < n"
  shows "Suc (length xs) \<le> unat n"
proof -
  have "length xs < 2 ^ 64"
    using assms(1) unat_lt_64 [of n] by simp
  then have "unat (of_nat (length xs) :: size_t) = length xs"
    by (simp add: unat_of_nat)
  with assms(2) show ?thesis by (simp add: word_less_nat_alt)
qed

text \<open>Starting an operation pushes it onto its queue's pending list; no other queue sees it.\<close>

lemma cq_wf_push:
  assumes "cq_wf h q c" and "x \<noteq> 0" and "q \<noteq> 0"
    and "h x = Some op0" and "o_cq op0 = 0" and "o_cq op = q" and "o_next op = c_pending c"
    and "c_count c < c_capacity c" and "c_attached c"
  shows "cq_wf (h(x \<mapsto> op)) q (c\<lparr>c_pending := x, c_count := c_count c + 1\<rparr>)"
  using assms(1)
proof (rule cq_wfE)
  fix xs
  assume xs: "chain h (c_pending c) xs" "distinct xs" "c_count c = of_nat (length xs)"
    "length xs \<le> unat (c_capacity c)"
    "\<And>y. y \<in> set xs \<longleftrightarrow> (\<exists>op. h y = Some op \<and> o_cq op = q)"
  have new: "x \<notin> set xs" using xs(5) [of x] assms(3-5) by auto
  have "chain (h(x \<mapsto> op)) x (x # xs)" using xs(1) new assms(2,7) by (simp add: chain_notin)
  moreover have "Suc (length xs) \<le> unat (c_capacity c)"
    by (rule word_succ_le) (use xs(3,4) assms(8) in simp_all)
  ultimately show ?thesis using xs(2,3,5) new assms(6,9)
    by (intro cq_wfI [of _ _ "x # xs"]) auto
qed

lemma queues_start_op:
  assumes "inv w" and "ops w x = Some op0" and "o_cq op0 = 0"
    and "cqs w (o_cq op) = Some c" and "c_count c < c_capacity c" and "c_attached c"
    and "o_next op = c_pending c"
  shows "inv_queues (bump (\<lambda>c. c\<lparr>c_pending := x, c_count := c_count c + 1\<rparr>) (o_cq op) (cqs w))
    ((ops w)(x \<mapsto> op))"
    (is "inv_queues (bump ?f ?q _) ?h")
proof (rule inv_queuesI)
  have nz: "x \<noteq> 0" "?q \<noteq> 0"
    using assms inv_nullD(5,9) [OF assms(1)] by auto
  have mine: "cq_wf ?h ?q (?f c)"
    by (rule cq_wf_push [OF cq_wfD [OF assms(1,4)] nz assms(2,3) refl assms(7,5,6)])
  show "cq_wf ?h q c'" if c': "bump ?f ?q (cqs w) q = Some c'" for q c'
  proof (cases "q = ?q")
    case True
    with c' mine assms(4) show ?thesis by (auto simp: bump_apply)
  next
    case False
    with c' have c'': "cqs w q = Some c'" by (simp add: bump_apply)
    have "o_cq op0 \<noteq> q" using c'' inv_nullD(5) [OF assms(1)] assms(3) by auto
    with False show ?thesis
      by (intro cq_wf_op_elsewhere [OF cq_wfD [OF assms(1) c''] assms(2)]) auto
  qed
  show "bump ?f ?q (cqs w) (o_cq op') \<noteq> None" if "?h y = Some op'" "o_cq op' \<noteq> 0" for y op'
    using that op_cq_live [OF assms(1), of y op'] assms(4) by (auto split: if_splits)
qed

lemma inv_start_op:
  assumes "inv w" and "ops w x = Some op0" and "o_cq op0 = 0"
    and "cqs w (o_cq op) = Some c" and "c_count c < c_capacity c" and "c_attached c"
    and "o_next op = c_pending c"
    and "mrs w (o_mr op) = Some r" and "in_region op r"
  shows "inv (start_op x op w)"
proof -
  let ?h = "(ops w)(x \<mapsto> op)" and ?q = "o_cq op"
  let ?f = "\<lambda>c. c\<lparr>c_pending := x, c_count := c_count c + 1\<rparr>"
  have nz: "x \<noteq> 0" "?q \<noteq> 0" "o_mr op \<noteq> 0"
    using assms inv_nullD(5,8,9) [OF assms(1)] by auto
  have idle: "o_mr op0 = 0" using op_mr_live [OF assms(1,2)] assms(3) by auto
  have "inv_queues (bump ?f ?q (cqs w)) ?h" by (rule queues_start_op [OF assms(1-7)])
  moreover have "inv_attach (bump ?f ?q (cqs w)) (endpoints w)"
    by (rule inv_attach_bump) (use assms(1) in \<open>simp_all add: inv_def\<close>)
  moreover have "borrows_ok ?h (mrs w)"
    using assms(1,8,9) nz by (auto simp: inv_def borrows_ok_def)
  moreover have "kids ?h o_mr b = kids (ops w) o_mr b + (if b = o_mr op then 1 else 0)"
    if "mrs w b \<noteq> None" for b
    using that assms(2) idle inv_nullD(8) [OF assms(1)] by (auto simp: kids_upd)
  then have "counted (bump (\<lambda>m. m\<lparr>m_pending := m_pending m + 1\<rparr>) (o_mr op) (mrs w))
      m_pending (kids ?h o_mr)"
    using assms(1) by (auto simp: inv_def inv_counts_def counted_def bump_apply split: if_splits)
  ultimately show ?thesis
    using assms(1) nz
    by (simp add: inv_def inv_structure start_op_def map_steps kids_steps mrs_bump_keeps)
qed


lemma chain_det: "chain h p xs \<Longrightarrow> chain h p ys \<Longrightarrow> xs = ys"
proof (induction xs arbitrary: p ys)
  case (Cons x xs)
  then show ?case by (cases ys) (auto split: option.splits)
qed simp

lemma bump_absent: "m a = None \<Longrightarrow> bump f a m = m"
  by (simp add: bump_def fun_upd_idem)

text \<open>The list that remains, and where its links are.\<close>

lemma chain_finish:
  assumes "chain h p (as @ x # bs)" and "distinct (as @ x # bs)" and "h x = Some op" and "h 0 = None"
    and "prev = (if as = [] then 0 else last as)"
  shows "chain ((bump (\<lambda>y. y\<lparr>o_next := o_next op\<rparr>) prev h)(x := v))
           (if prev = 0 then o_next op else p) (as @ bs)"
proof (cases as rule: rev_cases)
  case Nil
  then have "chain h (o_next op) bs" using chain_unlink_head [of h p x bs] assms(1,3) by auto
  with Nil assms(2,4,5) show ?thesis by (simp add: bump_absent chain_notin)
next
  case (snoc as' y)
  with assms(1) have "y \<noteq> 0" "h y \<noteq> None" using chain_live [OF assms(1), of y] by auto
  then obtain oy where y: "h y = Some oy" by auto
  have "chain (h(y \<mapsto> oy\<lparr>o_next := o_next op\<rparr>)) p (as' @ y # bs)"
    by (rule chain_unlink_mid [OF _ _ y assms(3)]) (use snoc assms(1,2) in simp_all)
  moreover have "x \<notin> set (as' @ y # bs)" using snoc assms(2) by auto
  ultimately show ?thesis
    using snoc y \<open>y \<noteq> 0\<close> assms(5) by (simp add: bump_Some chain_notin del: set_append)
qed

text \<open>The heap of operations after one of them was unlinked behind \<open>prev\<close> and made idle.\<close>

abbreviation relink :: "addr \<Rightarrow> shim_op \<Rightarrow> (addr \<rightharpoonup> shim_op) \<Rightarrow> (addr \<rightharpoonup> shim_op)" where
  "relink prev op h \<equiv> bump (\<lambda>o'. o'\<lparr>o_next := o_next op\<rparr>) prev h"

abbreviation idle_op :: "shim_op \<Rightarrow> shim_op" where
  "idle_op op \<equiv> op\<lparr>o_mr := 0, o_cq := 0, o_next := 0\<rparr>"

abbreviation unlinked_cq :: "addr \<Rightarrow> shim_op \<Rightarrow> shim_cq \<Rightarrow> shim_cq" where
  "unlinked_cq prev op c \<equiv> (if prev = 0 then c\<lparr>c_pending := o_next op\<rparr> else c)\<lparr>c_count := c_count c - 1\<rparr>"

lemma relink_Some:
  "relink prev op h y = Some o1 \<Longrightarrow> \<exists>o'. h y = Some o' \<and> o_cq o' = o_cq o1 \<and> o_mr o' = o_mr o1 \<and>
     o_len o' = o_len o1 \<and> o_buf o' = o_buf o1"
  by (auto simp: bump_apply split: if_splits)

lemma relink_keeps: "h y = Some o1 \<Longrightarrow> \<exists>o'. relink prev op h y = Some o' \<and> o_cq o' = o_cq o1"
  by (auto simp: bump_apply)

lemma cq_wf_finished:
  assumes "cq_wf h q c" and "chain h (c_pending c) (as @ x # bs)" and "h x = Some op" and "o_cq op = q"
    and "h 0 = None" and "q \<noteq> 0" and "prev = (if as = [] then 0 else last as)"
  shows "cq_wf ((relink prev op h)(x \<mapsto> idle_op op)) q (unlinked_cq prev op c)"
proof -
  obtain xs where xs: "chain h (c_pending c) xs" "distinct xs"
    "c_count c = of_nat (length xs)" "length xs \<le> unat (c_capacity c)"
    and mem: "\<And>x. x \<in> set xs \<longleftrightarrow> (\<exists>op. h x = Some op \<and> o_cq op = q)"
    and nb: "\<And>x op'. \<not> c_attached c \<Longrightarrow> h x = Some op' \<Longrightarrow> o_cq op' = q \<Longrightarrow> o_mr op' = 0"
    using assms(1) by (rule cq_wfE) (rule that, assumption+)
  have eq: "xs = as @ x # bs" using xs(1) assms(2) by (rule chain_det)
  let ?h = "(relink prev op h)(x \<mapsto> idle_op op)"
  show ?thesis
  proof (rule cq_wfI [of _ _ "as @ bs"])
    show "chain ?h (c_pending (unlinked_cq prev op c)) (as @ bs)"
      using chain_finish [OF assms(2) _ assms(3,5,7), of "Some (idle_op op)"] xs(2)
      by (cases "prev = 0") (simp_all add: eq)
    show "y \<in> set (as @ bs) \<longleftrightarrow> (\<exists>o'. ?h y = Some o' \<and> o_cq o' = q)" for y
      using mem [of y] xs(2) assms(6) relink_Some [of op prev h y] relink_keeps [of h y _ op prev] by (auto simp: eq)
    show "o_mr o' = 0" if "\<not> c_attached (unlinked_cq prev op c)" "?h y = Some o'" "o_cq o' = q" for y o'
      using that assms(6) nb [of y] relink_Some [of op prev h y] by (auto split: if_splits)
  qed (use xs eq in auto)
qed

lemma cq_wf_finish_elsewhere:
  assumes "cq_wf h q c" and "prev = 0 \<or> (\<exists>o'. h prev = Some o' \<and> o_cq o' = o_cq op)" and "h x = Some op"
    and "x \<noteq> prev" and "o_cq op \<noteq> q" and "q \<noteq> 0" and "h 0 = None"
  shows "cq_wf ((relink prev op h)(x \<mapsto> idle_op op)) q c"
proof -
  have "cq_wf (relink prev op h) q c"
    using assms(2)
  proof
    assume "\<exists>o'. h prev = Some o' \<and> o_cq o' = o_cq op"
    then obtain o' where o': "h prev = Some o'" "o_cq o' = o_cq op" by blast
    show ?thesis
      unfolding bump_Some [of h prev o', OF o'(1)]
      by (intro cq_wf_op_elsewhere [OF assms(1) o'(1)]) (use o'(2) assms(5) in auto)
  qed (use assms(1,7) in \<open>simp add: bump_absent\<close>)
  then show ?thesis
    by (rule cq_wf_op_elsewhere [where x = x and op = op]) (use assms in \<open>auto simp: bump_apply\<close>)
qed

lemma borrows_finish:
  assumes "borrows_ok h m"
  shows "borrows_ok ((relink prev op h)(x \<mapsto> idle_op op)) m"
  unfolding borrows_ok_def
proof (intro allI impI, elim conjE)
  fix y o1 assume "((relink prev op h)(x \<mapsto> idle_op op)) y = Some o1" and nz: "o_mr o1 \<noteq> 0"
  then have "relink prev op h y = Some o1" by (auto split: if_splits)
  then obtain o' where "h y = Some o'" "o_cq o' = o_cq o1" "o_mr o' = o_mr o1"
    "o_len o' = o_len o1" "o_buf o' = o_buf o1" using relink_Some by blast
  then show "o_cq o1 \<noteq> 0 \<and> (\<exists>r. m (o_mr o1) = Some r \<and> in_region o1 r)"
    using assms nz unfolding borrows_ok_def in_region_def by metis
qed

lemma kids_finish:
  assumes "h x = Some op" and "x \<noteq> prev" and "b \<noteq> 0"
  shows "kids ((relink prev op h)(x \<mapsto> idle_op op)) o_mr b = kids h o_mr b - (if b = o_mr op then 1 else 0)"
proof -
  have "relink prev op h x = Some op" using assms(1,2) by (simp add: bump_apply)
  moreover have "kids (relink prev op h) o_mr = kids h o_mr" by (rule kids_bump) simp
  ultimately show ?thesis
    using assms(3) kids_upd [where m = "relink prev op h" and a = x and x = op and k = o_mr and y = "idle_op op" and b = b]
    by auto
qed

lemma inv_finish_op:
  assumes "inv w" and "ops w x = Some op" and "cqs w (o_cq op) = Some c"
    and "chain (ops w) (c_pending c) (as @ x # bs)"
    and "prev = (if as = [] then 0 else last as)"
  shows "inv (finish_op prev x op w)"
proof -
  let ?q = "o_cq op" and ?h = "(relink prev op (ops w))(x \<mapsto> idle_op op)" and ?g = "unlinked_cq prev op"
  have null: "cqs w 0 = None" "mrs w 0 = None" "ops w 0 = None"
    using assms(1) by (rule inv_nullD)+
  obtain xs where xs: "chain (ops w) (c_pending c) xs" "distinct xs"
    and mem: "\<And>x. x \<in> set xs \<longleftrightarrow> (\<exists>op. ops w x = Some op \<and> o_cq op = ?q)"
    using cq_wfD [OF assms(1,3)] by (rule cq_wfE) (rule that, assumption+)
  have eq: "xs = as @ x # bs" using xs(1) assms(4) by (rule chain_det)
  have nz: "x \<noteq> 0" "?q \<noteq> 0" using null assms(2,3) by auto
  have px: "x \<noteq> prev" using xs(2) nz assms(5) by (auto simp: eq)
  have prev: "prev = 0 \<or> (\<exists>o'. ops w prev = Some o' \<and> o_cq o' = ?q)"
    using mem [of prev] assms(5) by (auto simp: eq)
  have "inv_queues (bump ?g ?q (cqs w)) ?h"
  proof (rule inv_queuesI)
    show "cq_wf ?h q c'" if c': "bump ?g ?q (cqs w) q = Some c'" for q c'
    proof (cases "q = ?q")
      case True
      then show ?thesis
        using c' cq_wf_finished [OF cq_wfD [OF assms(1,3)] assms(4,2) refl null(3) nz(2) assms(5)] assms(3)
        by (auto simp: bump_apply)
    next
      case False
      with c' have c'': "cqs w q = Some c'" by (simp add: bump_apply)
      then have "q \<noteq> 0" using null by auto
      with False show ?thesis
        by (intro cq_wf_finish_elsewhere [OF cq_wfD [OF assms(1) c''] prev assms(2) px _ _ null(3)]) auto
    qed
    show "bump ?g ?q (cqs w) (o_cq op') \<noteq> None" if "?h y = Some op'" "o_cq op' \<noteq> 0" for y op'
      using that relink_Some [of op prev "ops w" y] op_cq_live [OF assms(1), of y] by (auto split: if_splits)
  qed
  moreover have "inv_attach (bump ?g ?q (cqs w)) (endpoints w)"
    by (rule inv_attach_bump) (use assms(1) in \<open>simp_all add: inv_def\<close>)
  moreover have "borrows_ok ?h (mrs w)"
    by (rule borrows_finish) (use assms(1) in \<open>simp add: inv_def\<close>)
  moreover have kids: "kids ?h o_mr b = kids (ops w) o_mr b - (if b = o_mr op then 1 else 0)" if "mrs w b \<noteq> None" for b
    using kids_finish [of "ops w" x op, OF assms(2) px] that null(2) by metis
  have "counted (bump (\<lambda>m. m\<lparr>m_pending := m_pending m - 1\<rparr>) (o_mr op) (mrs w)) m_pending (kids ?h o_mr)"
    using assms(1) kids by (auto simp: inv_def inv_counts_def counted_def bump_apply split: if_splits)
  ultimately show ?thesis
    using assms(1) nz
    by (simp add: inv_def inv_structure finish_op_def map_steps kids_steps mrs_bump_keeps)
qed

lemma inv_mem:
  assumes "inv w" and "mem w a = Some bs" and "length bs' = length bs"
  shows "inv (w\<lparr>mem := (mem w)(a \<mapsto> bs')\<rparr>)"
proof -
  have "a \<noteq> 0" using assms(2) inv_nullD(10) [OF assms(1)] by auto
  moreover have "mrs_backed (mrs w) ((mem w)(a \<mapsto> bs'))"
    using assms by (auto simp: inv_def mrs_backed_def mr_backed_def) fastforce
  ultimately show ?thesis
    using assms(1) by (simp add: inv_def inv_structure)
qed

text \<open>Every step commutes with a change of the library's own state.\<close>

lemma ledger_prov:
  "add_info a r (w\<lparr>prov := p\<rparr>) = (add_info a r w)\<lparr>prov := p\<rparr>"
  "del_info a (w\<lparr>prov := p\<rparr>) = (del_info a w)\<lparr>prov := p\<rparr>"
  "add_fabric a f (w\<lparr>prov := p\<rparr>) = (add_fabric a f w)\<lparr>prov := p\<rparr>"
  "del_fabric a (w\<lparr>prov := p\<rparr>) = (del_fabric a w)\<lparr>prov := p\<rparr>"
  "add_domain a d (w\<lparr>prov := p\<rparr>) = (add_domain a d w)\<lparr>prov := p\<rparr>"
  "del_domain a d (w\<lparr>prov := p\<rparr>) = (del_domain a d w)\<lparr>prov := p\<rparr>"
  "add_eq a e (w\<lparr>prov := p\<rparr>) = (add_eq a e w)\<lparr>prov := p\<rparr>"
  "del_eq a e (w\<lparr>prov := p\<rparr>) = (del_eq a e w)\<lparr>prov := p\<rparr>"
  "add_cq a c (w\<lparr>prov := p\<rparr>) = (add_cq a c w)\<lparr>prov := p\<rparr>"
  "del_cq a c (w\<lparr>prov := p\<rparr>) = (del_cq a c w)\<lparr>prov := p\<rparr>"
  "add_mr a m (w\<lparr>prov := p\<rparr>) = (add_mr a m w)\<lparr>prov := p\<rparr>"
  "del_mr a m (w\<lparr>prov := p\<rparr>) = (del_mr a m w)\<lparr>prov := p\<rparr>"
  "add_op a x (w\<lparr>prov := p\<rparr>) = (add_op a x w)\<lparr>prov := p\<rparr>"
  "del_op a (w\<lparr>prov := p\<rparr>) = (del_op a w)\<lparr>prov := p\<rparr>"
  "add_listener a l (w\<lparr>prov := p\<rparr>) = (add_listener a l w)\<lparr>prov := p\<rparr>"
  "del_listener a l (w\<lparr>prov := p\<rparr>) = (del_listener a l w)\<lparr>prov := p\<rparr>"
  "add_endpoint a q (w\<lparr>prov := p\<rparr>) = (add_endpoint a q w)\<lparr>prov := p\<rparr>"
  "del_endpoint a q (w\<lparr>prov := p\<rparr>) = (del_endpoint a q w)\<lparr>prov := p\<rparr>"
  "start_op a x (w\<lparr>prov := p\<rparr>) = (start_op a x w)\<lparr>prov := p\<rparr>"
  "finish_op b a x (w\<lparr>prov := p\<rparr>) = (finish_op b a x w)\<lparr>prov := p\<rparr>"
  by (simp_all add: add_info_def del_info_def add_fabric_def del_fabric_def add_domain_def del_domain_def add_eq_def del_eq_def add_cq_def del_cq_def add_mr_def del_mr_def add_op_def del_op_def add_listener_def del_listener_def add_endpoint_def del_endpoint_def start_op_def finish_op_def Let_def)

end
