(* ===== verification/Shim_Refine_Close.thy ===== *)
theory Shim_Refine_Close
  imports Shim_Close Shim_Ledger
begin

text \<open>
  Refinement of the close half of the shim: from a well-formed world, every C close
  function equals one guarded ledger step. \<open>close_step\<close> is that abstract step: refuse
  while referenced, ask the provider, and only then take the object off the ledger.
\<close>

definition close_step :: "'p lib \<Rightarrow> bool \<Rightarrow> addr \<Rightarrow> ('p world \<Rightarrow> 'p world) \<Rightarrow> 'p world
    \<Rightarrow> int \<times> 'p world" where
  "close_step E busy raw del w =
     (if busy then (- errno E FI_EBUSY, w)
      else (let (ret, w) = call (fi_close E raw) w
            in if ret \<noteq> 0 then (ret, w) else (0, del w)))"

lemma close_step_cases:
  assumes "close_step E busy raw del w = (r, w')"
  obtains (busy) "busy" "r = - errno E FI_EBUSY" "w' = w"
    | (refused) p where "\<not> busy" "fi_close E raw (prov w) = (r, p)" "r \<noteq> 0" "w' = w\<lparr>prov := p\<rparr>"
    | (closed) p where "\<not> busy" "fi_close E raw (prov w) = (0, p)" "r = 0" "w' = del (w\<lparr>prov := p\<rparr>)"
  using assms by (auto simp: close_step_def call_def split: if_splits prod.splits)

subsection \<open>Objects without children lists\<close>

lemma shim_fabric_close_eq:
  assumes "fabrics w a = Some f" and "a \<noteq> 0"
  shows "shim_fabric_close E a w = Some (close_step E (f_children f \<noteq> 0) (f_raw f) (del_fabric a) w)"
  using assms
  by (simp add: shim_fabric_close_def close_step_def call_def del_fabric_def split: prod.splits)

lemma shim_domain_close_eq:
  assumes "inv w" and "domains w a = Some d"
  shows "shim_domain_close E a w = Some (close_step E (d_children d \<noteq> 0) (d_raw d) (del_domain a d) w)"
proof -
  have "a \<noteq> 0" using assms inv_nullD(3) [OF assms(1)] by auto
  moreover obtain f where "fabrics w (d_fabric d) = Some f"
    using parent_live(1) [OF assms] by auto
  ultimately show ?thesis
    using assms(2)
    by (simp add: shim_domain_close_def close_step_def call_def del_domain_def bump_Some
        split: prod.splits)
qed

lemma shim_eq_close_eq:
  assumes "inv w" and "eqs w a = Some e"
  shows "shim_eq_close E a w = Some (close_step E (e_users e \<noteq> 0) (e_raw e) (del_eq a e) w)"
proof -
  have "a \<noteq> 0" using assms inv_nullD(4) [OF assms(1)] by auto
  moreover obtain f where "fabrics w (e_fabric e) = Some f"
    using parent_live(2) [OF assms] by auto
  ultimately show ?thesis
    using assms(2)
    by (simp add: shim_eq_close_def close_step_def call_def del_eq_def bump_Some
        split: prod.splits)
qed

lemma shim_mr_close_eq:
  assumes "inv w" and "mrs w a = Some m"
  shows "shim_mr_close E a w = Some (close_step E (m_pending m \<noteq> 0) (m_raw m) (del_mr a m) w)"
proof -
  have "a \<noteq> 0" using assms inv_nullD(8) [OF assms(1)] by auto
  moreover obtain d where "domains w (m_domain m) = Some d"
    using parent_live(4) [OF assms] by auto
  ultimately show ?thesis
    using assms(2)
    by (simp add: shim_mr_close_def close_step_def call_def del_mr_def bump_Some
        split: prod.splits)
qed

lemma shim_listener_close_eq:
  assumes "inv w" and "listeners w a = Some l"
  shows "shim_listener_close E a w = Some (close_step E False (l_raw l) (del_listener a l) w)"
proof -
  have "a \<noteq> 0" using assms inv_nullD(6) [OF assms(1)] by auto
  moreover obtain f e where "fabrics w (l_fabric l) = Some f" "eqs w (l_eq l) = Some e"
    using listener_parents [OF assms] by auto
  ultimately show ?thesis
    using assms(2)
    by (simp add: shim_listener_close_def close_step_def call_def del_listener_def bump_Some
        split: prod.splits)
qed

lemma shim_op_free_eq:
  assumes "inv w" and "ops w a = Some x"
  shows "shim_op_free E a w =
    Some (if o_cq x \<noteq> 0 then (- errno E FI_EBUSY, w) else (0, del_op a w))"
proof -
  have "a \<noteq> 0" using assms inv_nullD(9) [OF assms(1)] by auto
  with assms(2) show ?thesis by (simp add: shim_op_free_def del_op_def)
qed

subsection \<open>Retiring a queue\<close>

lemma recount_bump:
  assumes "\<And>r. f r = r\<lparr>m_pending := g r\<rparr>"
  shows "recount h (bump f a m) = recount h m"
  by (rule ext) (simp add: recount_def mapm_apply bump_apply assms option.map_comp comp_def)

lemma recount_id:
  assumes "counted m m_pending (kids h o_mr)"
  shows "recount h m = m"
proof (rule ext)
  fix a
  show "recount h m a = m a"
    using countedD [OF assms, of a] by (cases "m a") (simp_all add: recount_def mapm_apply)
qed

lemma counted_unborrow:
  assumes "counted m m_pending (kids h o_mr)" and "h x = Some op" and "m 0 = None"
  shows "counted (bump (\<lambda>r. r\<lparr>m_pending := m_pending r - 1\<rparr>) (o_mr op) m) m_pending
     (kids (h(x \<mapsto> op\<lparr>o_mr := 0\<rparr>)) o_mr)"
  unfolding counted_def
proof (intro allI impI)
  fix b r
  assume b: "bump (\<lambda>r. r\<lparr>m_pending := m_pending r - 1\<rparr>) (o_mr op) m b = Some r"
  then have "b \<noteq> 0" using assms(3) by (auto simp: bump_apply split: if_splits)
  then have "kids (h(x \<mapsto> op\<lparr>o_mr := 0\<rparr>)) o_mr b = kids h o_mr b - (if b = o_mr op then 1 else 0)"
    using kids_upd [where m = h and a = x and x = op and k = o_mr and y = "op\<lparr>o_mr := 0\<rparr>" and b = b]
      assms(2) by simp
  with b assms(1) show "m_pending r = kids (h(x \<mapsto> op\<lparr>o_mr := 0\<rparr>)) o_mr b"
    by (auto simp: bump_apply counted_def split: if_splits)
qed

lemma unborrow_eq:
  assumes "mrs w 0 = None" and "a \<noteq> 0 \<longrightarrow> mrs w a \<noteq> None"
  shows "unborrow a w = Some (w\<lparr>mrs := bump (\<lambda>r. r\<lparr>m_pending := m_pending r - 1\<rparr>) a (mrs w)\<rparr>)"
  using assms by (auto simp: unborrow_def bump_def fun_upd_idem)

definition retire_list :: "addr list \<Rightarrow> (addr \<rightharpoonup> shim_op) \<Rightarrow> (addr \<rightharpoonup> shim_op)" where
  "retire_list xs = mapm (\<lambda>a op. if a \<in> set xs then op\<lparr>o_mr := 0\<rparr> else op)"

lemma retire_list_Cons:
  assumes "h x = Some op" and "x \<notin> set xs"
  shows "retire_list (x # xs) h = retire_list xs (h(x \<mapsto> op\<lparr>o_mr := 0\<rparr>))"
  using assms by (auto simp: retire_list_def mapm_def fun_eq_iff)

lemma retire_walk_eq:
  assumes "chain (ops w) p xs" and "distinct xs"
    and "counted (mrs w) m_pending (kids (ops w) o_mr)" and "mrs w 0 = None"
    and "\<And>x op. ops w x = Some op \<Longrightarrow> o_mr op \<noteq> 0 \<Longrightarrow> mrs w (o_mr op) \<noteq> None"
  shows "retire_walk p w = Some (w\<lparr>ops := retire_list xs (ops w),
    mrs := recount (retire_list xs (ops w)) (mrs w)\<rparr>)"
  using assms
proof (induction xs arbitrary: p w)
  case Nil
  then have "retire_list [] (ops w) = ops w"
    by (simp add: retire_list_def mapm_def option.map_ident)
  with Nil show ?case
    by (subst retire_walk.simps) (simp add: recount_id)
next
  case (Cons x xs)
  from Cons.prems(1,2) obtain op where x: "p = x" "x \<noteq> 0" "ops w x = Some op" "x \<notin> set xs"
    "distinct xs" and tl: "chain (ops w) (o_next op) xs"
    by (auto split: option.splits)
  let ?m = "bump (\<lambda>r. r\<lparr>m_pending := m_pending r - 1\<rparr>) (o_mr op) (mrs w)"
  let ?h = "(ops w)(x \<mapsto> op\<lparr>o_mr := 0\<rparr>)"
  let ?w = "w\<lparr>mrs := ?m, ops := ?h\<rparr>"
  have "retire_walk p w = retire_walk (o_next op) ?w"
    using x Cons.prems(4,5) by (subst retire_walk.simps) (simp add: unborrow_eq)
  also have "retire_walk (o_next op) ?w = Some (?w\<lparr>ops := retire_list xs (ops ?w),
      mrs := recount (retire_list xs (ops ?w)) (mrs ?w)\<rparr>)"
  proof (rule Cons.IH)
    show "chain (ops ?w) (o_next op) xs" using tl x(4) by (simp add: chain_notin)
    show "counted (mrs ?w) m_pending (kids (ops ?w) o_mr)"
      using counted_unborrow [OF Cons.prems(3) x(3) Cons.prems(4)] by simp
    show "mrs ?w (o_mr op') \<noteq> None" if "ops ?w y = Some op'" "o_mr op' \<noteq> 0" for y op'
      using that Cons.prems(5) [of y op'] by (auto split: if_splits)
  qed (use x Cons.prems(4) in simp_all)
  finally show ?case
    using x by (simp add: recount_bump retire_list_Cons)
qed

lemma retire_cq_eq:
  assumes "cqs w q = Some c" and "cq_wf (ops w) q c"
    and "counted (mrs w) m_pending (kids (ops w) o_mr)" and "mrs w 0 = None"
    and "\<And>x op. ops w x = Some op \<Longrightarrow> o_mr op \<noteq> 0 \<Longrightarrow> mrs w (o_mr op) \<noteq> None"
  shows "retire_cq q w = Some (w\<lparr>cqs := bump cq_retire q (cqs w), ops := retire_ops q (ops w),
    mrs := recount (retire_ops q (ops w)) (mrs w)\<rparr>)"
  using assms(2)
proof (rule cq_wfE)
  fix xs
  assume xs: "chain (ops w) (c_pending c) xs" "distinct xs"
    and mem: "\<And>x. x \<in> set xs \<longleftrightarrow> (\<exists>op. ops w x = Some op \<and> o_cq op = q)"
  have "retire_list xs (ops w) = retire_ops q (ops w)"
  proof (rule ext)
    fix x
    show "retire_list xs (ops w) x = retire_ops q (ops w) x"
      using mem [of x]
      by (cases "ops w x") (auto simp: retire_list_def retire_ops_def mapm_apply)
  qed
  moreover have "retire_walk (c_pending c) (w\<lparr>cqs := (cqs w)(q \<mapsto> cq_retire c)\<rparr>) = Some
     (w\<lparr>cqs := (cqs w)(q \<mapsto> cq_retire c), ops := retire_list xs (ops w),
        mrs := recount (retire_list xs (ops w)) (mrs w)\<rparr>)"
    using xs assms by (subst retire_walk_eq [of _ _ xs]) simp_all
  ultimately show ?thesis
    using assms(1) by (simp add: retire_cq_def bump_Some)
qed

lemma recount_recount: "recount h (recount g m) = recount h m"
  by (rule ext) (simp add: recount_def mapm_apply option.map_comp comp_def)

lemma counted_recount: "counted (recount h m) m_pending (kids h o_mr)"
  by (auto simp: counted_def recount_def mapm_apply)

lemma retire_pair:
  assumes "inv w" and "cqs w t = Some ct" and "cqs w r = Some cr" and "t \<noteq> r"
  shows "Option.bind (retire_cq t w) (retire_cq r) =
    (let h = retire_ops r (retire_ops t (ops w))
     in Some (w\<lparr>cqs := bump cq_retire r (bump cq_retire t (cqs w)), ops := h,
          mrs := recount h (mrs w)\<rparr>))"
proof -
  let ?h = "retire_ops t (ops w)"
  let ?w = "w\<lparr>cqs := bump cq_retire t (cqs w), ops := ?h, mrs := recount ?h (mrs w)\<rparr>"
  have null: "mrs w 0 = None" using assms(1) by (rule inv_nullD)
  have live: "mrs w (o_mr op) \<noteq> None" if "ops w x = Some op" "o_mr op \<noteq> 0" for x op
    using op_mr_live [OF assms(1) that] by auto
  have cnt: "counted (mrs w) m_pending (kids (ops w) o_mr)"
    using assms(1) by (simp add: inv_def inv_counts_def)
  have t: "retire_cq t w = Some ?w"
    by (rule retire_cq_eq [OF assms(2) cq_wfD [OF assms(1,2)] cnt null live])
  have "retire_cq r ?w = Some (?w\<lparr>cqs := bump cq_retire r (cqs ?w), ops := retire_ops r (ops ?w),
      mrs := recount (retire_ops r (ops ?w)) (mrs ?w)\<rparr>)"
  proof (rule retire_cq_eq)
    show "cqs ?w r = Some cr" using assms(3,4) by (simp add: bump_apply)
    show "cq_wf (ops ?w) r cr" using cq_wfD [OF assms(1,3)] by (simp add: cq_wf_retire_ops)
    show "counted (mrs ?w) m_pending (kids (ops ?w) o_mr)" by (simp add: counted_recount)
    show "mrs ?w 0 = None" using null by (simp add: recount_def)
    show "mrs ?w (o_mr op) \<noteq> None" if op: "ops ?w x = Some op" "o_mr op \<noteq> 0" for x op
    proof -
      from op obtain op' where "ops w x = Some op'" "o_mr op' = o_mr op"
        by (cases "ops w x") (auto simp: retire_ops_def mapm_apply split: if_splits)
      with live [of x op'] op(2) show ?thesis by (simp add: recount_def)
    qed
  qed
  then show ?thesis by (simp add: t Let_def recount_recount)
qed

subsection \<open>Endpoints\<close>

lemma shim_endpoint_close_eq:
  fixes w :: "'p world"
  assumes "inv w" and "endpoints w a = Some p"
  shows "shim_endpoint_close E a w =
    Some (close_step E False (p_raw p) (del_endpoint a p)
           (w\<lparr>endpoints := (endpoints w)(a \<mapsto> p\<lparr>p_closing := True\<rparr>)\<rparr>))"
proof -
  let ?w = "w\<lparr>endpoints := (endpoints w)(a \<mapsto> p\<lparr>p_closing := True\<rparr>)\<rparr>"
  have "a \<noteq> 0" using assms inv_nullD(7) [OF assms(1)] by auto
  note par = endpoint_parents [OF assms]
  obtain d e t r where live: "domains w (p_domain p) = Some d" "eqs w (p_eq p) = Some e"
    "cqs w (p_tx p) = Some t" "cqs w (p_rx p) = Some r" using par by auto
  have i: "inv (?w\<lparr>prov := x\<rparr>)" for x using inv_upd_endpoint [OF assms] by simp
  have pair: "Option.bind (retire_cq (p_tx p) (?w\<lparr>prov := x\<rparr>)) (retire_cq (p_rx p)) =
    (let h = retire_ops (p_rx p) (retire_ops (p_tx p) (ops w))
     in Some (?w\<lparr>prov := x, cqs := bump cq_retire (p_rx p) (bump cq_retire (p_tx p) (cqs w)),
          ops := h, mrs := recount h (mrs w)\<rparr>))" for x
    using retire_pair [OF i [of x], of "p_tx p" t "p_rx p" r] live par(5) by simp
  have "Option.bind (retire_cq (p_tx p) (?w\<lparr>prov := x\<rparr>)) (\<lambda>w. Option.bind (retire_cq (p_rx p) w) f) =
      f (?w\<lparr>prov := x, cqs := bump cq_retire (p_rx p) (bump cq_retire (p_tx p) (cqs w)),
          ops := retire_ops (p_rx p) (retire_ops (p_tx p) (ops w)),
          mrs := recount (retire_ops (p_rx p) (retire_ops (p_tx p) (ops w))) (mrs w)\<rparr>)"
    for x and f :: "'p world \<Rightarrow> (int \<times> 'p world) option"
    using pair [of x] by (simp add: Let_def Option.bind_assoc [symmetric] del: Option.bind_assoc)
  then show ?thesis
    using assms(2) \<open>a \<noteq> 0\<close> live
    by (simp add: shim_endpoint_close_def close_step_def call_def del_endpoint_def bump_Some Let_def
        split: prod.splits)
qed

subsection \<open>Completion queues\<close>

definition drain_list :: "addr list \<Rightarrow> (addr \<rightharpoonup> shim_op) \<Rightarrow> (addr \<rightharpoonup> shim_op)" where
  "drain_list xs = mapm (\<lambda>a op. if a \<in> set xs then op\<lparr>o_mr := 0, o_cq := 0, o_next := 0\<rparr> else op)"

lemma drain_list_Cons:
  assumes "h x = Some op" and "x \<notin> set xs"
  shows "drain_list (x # xs) h = drain_list xs (h(x \<mapsto> op\<lparr>o_mr := 0, o_cq := 0, o_next := 0\<rparr>))"
  using assms by (auto simp: drain_list_def mapm_def fun_eq_iff)

lemma drain_cq_eq:
  assumes "cqs w q = Some c" and "chain (ops w) (c_pending c) xs" and "distinct xs"
    and "\<And>x op. x \<in> set xs \<Longrightarrow> ops w x = Some op \<Longrightarrow> o_mr op = 0"
  shows "drain_cq q w = Some (w\<lparr>cqs := (cqs w)(q \<mapsto> c\<lparr>c_pending := 0\<rparr>),
    ops := drain_list xs (ops w)\<rparr>)"
  using assms
proof (induction xs arbitrary: w c)
  case Nil
  then have "drain_list [] (ops w) = ops w" and "c\<lparr>c_pending := 0\<rparr> = c"
    by (simp_all add: drain_list_def mapm_def option.map_ident)
  with Nil show ?case
    by (subst drain_cq.simps) (simp add: fun_upd_idem)
next
  case (Cons x xs)
  from Cons.prems(2,3) obtain op where x: "c_pending c = x" "x \<noteq> 0" "ops w x = Some op" "x \<notin> set xs"
    "distinct xs" and tl: "chain (ops w) (o_next op) xs"
    by (auto split: option.splits)
  have idle: "o_mr op = 0" using Cons.prems(4) [of x op] x by simp
  let ?w = "w\<lparr>cqs := (cqs w)(q \<mapsto> c\<lparr>c_pending := o_next op\<rparr>),
    ops := (ops w)(x \<mapsto> op\<lparr>o_mr := 0, o_cq := 0, o_next := 0\<rparr>)\<rparr>"
  have "drain_cq q w = drain_cq q ?w"
    using x Cons.prems(1) idle
    by (subst drain_cq.simps) (simp add: release_op_def unborrow_def)
  also have "drain_cq q ?w = Some (?w\<lparr>cqs := (cqs ?w)(q \<mapsto> c\<lparr>c_pending := o_next op\<rparr>\<lparr>c_pending := 0\<rparr>),
      ops := drain_list xs (ops ?w)\<rparr>)"
  proof (rule Cons.IH)
    show "chain (ops ?w) (c_pending (c\<lparr>c_pending := o_next op\<rparr>)) xs"
      using tl x(4) by (simp add: chain_notin)
    show "o_mr op' = 0" if "y \<in> set xs" "ops ?w y = Some op'" for y op'
      using that x(4) Cons.prems(4) [of y op'] by (auto split: if_splits)
  qed (use x in simp_all)
  finally show ?case
    using x by (simp add: drain_list_Cons) (simp add: fun_upd_def)
qed

lemma shim_cq_close_eq:
  assumes "inv w" and "cqs w a = Some c"
  shows "shim_cq_close E a w = Some (close_step E (c_attached c) (c_raw c) (del_cq a c) w)"
proof -
  have "a \<noteq> 0" using assms inv_nullD(5) [OF assms(1)] by auto
  obtain d where d: "domains w (c_domain c) = Some d"
    using parent_live(3) [OF assms] by auto
  have drain: "drain_cq a (w\<lparr>prov := p\<rparr>) = Some (w\<lparr>prov := p,
      cqs := (cqs w)(a \<mapsto> c\<lparr>c_pending := 0\<rparr>), ops := drain_ops a (ops w)\<rparr>)"
    if "\<not> c_attached c" for p
    using cq_wfD [OF assms]
  proof (rule cq_wfE)
    fix xs
    assume xs: "chain (ops w) (c_pending c) xs" "distinct xs"
      and mem: "\<And>x. x \<in> set xs \<longleftrightarrow> (\<exists>op. ops w x = Some op \<and> o_cq op = a)"
      and nb: "\<And>x op. \<not> c_attached c \<Longrightarrow> ops w x = Some op \<Longrightarrow> o_cq op = a \<Longrightarrow> o_mr op = 0"
    have "drain_list xs (ops w) = drain_ops a (ops w)"
    proof (rule ext)
      fix x
      show "drain_list xs (ops w) x = drain_ops a (ops w) x"
        using mem [of x]
        by (cases "ops w x") (auto simp: drain_list_def drain_ops_def mapm_apply)
    qed
    moreover have "o_mr op = 0" if "x \<in> set xs" "ops w x = Some op" for x op
      using that mem [of x] nb [OF \<open>\<not> c_attached c\<close>] by auto
    ultimately show ?thesis
      using xs assms(2) by (subst drain_cq_eq [of _ _ c xs]) auto
  qed
  show ?thesis
    using assms(2) \<open>a \<noteq> 0\<close> d drain
    by (simp add: shim_cq_close_def close_step_def call_def del_cq_def bump_Some
        split: prod.splits)
qed

end
