(* ===== verification/Shim_Contract.thy ===== *)
theory Shim_Contract
  imports Shim_Refine_Close
begin

text \<open>
  The contract every close function of the shim offers its caller (\<^verbatim>\<open>src/ffi.rs\<close>: a
  successful close consumes the handle, a failed close keeps it alive), as a locale, and
  its interpretation on all eight of them.
\<close>

locale closable =
  fixes E :: "'p lib"
    and close :: "addr \<Rightarrow> 'p world \<Rightarrow> (int \<times> 'p world) option"
    and live :: "'p world \<Rightarrow> addr \<Rightarrow> bool"
  assumes null_dead: "inv w \<Longrightarrow> \<not> live w 0"
    and close_live: "errno_ok E \<Longrightarrow> inv w \<Longrightarrow> live w a \<Longrightarrow> runs (close a w) (\<lambda>(r, w').
      inv w' \<and> (\<forall>b. live w' b \<longleftrightarrow> live w b \<and> (r = 0 \<longrightarrow> b \<noteq> a)))"
begin

text \<open>A handle that a failed close left behind can be closed again.\<close>

lemma failed_stays:
  assumes "errno_ok E" and "inv w" and "live w a"
  shows "runs (close a w) (\<lambda>(r, w'). r \<noteq> 0 \<longrightarrow> inv w' \<and> live w' a)"
  by (rule runs_conseq [OF close_live [OF assms]]) (use assms(3) in auto)

lemma done_gone:
  assumes "errno_ok E" and "inv w" and "live w a"
  shows "runs (close a w) (\<lambda>(r, w'). r = 0 \<longrightarrow> inv w' \<and> \<not> live w' a)"
  by (rule runs_conseq [OF close_live [OF assms]]) auto

end

text \<open>Which entries a deletion removes.\<close>

lemma del_keys [simp]:
  "fabrics (del_fabric a w) b = None \<longleftrightarrow> b = a \<or> fabrics w b = None"
  "domains (del_domain a d w) b = None \<longleftrightarrow> b = a \<or> domains w b = None"
  "eqs (del_eq a e w) b = None \<longleftrightarrow> b = a \<or> eqs w b = None"
  "cqs (del_cq a c w) b = None \<longleftrightarrow> b = a \<or> cqs w b = None"
  "mrs (del_mr a m w) b = None \<longleftrightarrow> b = a \<or> mrs w b = None"
  "ops (del_op a w) b = None \<longleftrightarrow> b = a \<or> ops w b = None"
  "listeners (del_listener a l w) b = None \<longleftrightarrow> b = a \<or> listeners w b = None"
  "endpoints (del_endpoint a p w) b = None \<longleftrightarrow> b = a \<or> endpoints w b = None"
  by (simp_all add: del_fabric_def del_domain_def del_eq_def del_cq_def del_mr_def del_op_def
      del_listener_def del_endpoint_def Let_def)

text \<open>The common form: a close step that deletes one entry of one map.\<close>

lemma close_step_contract:
  assumes "errno_ok E" and "inv v" and "\<not> busy \<Longrightarrow> inv (del v)"
    and "\<And>p. del (v\<lparr>prov := p\<rparr>) = (del v)\<lparr>prov := p\<rparr>"
    and "\<And>b. m (del v) b = None \<longleftrightarrow> b = a \<or> m v b = None"
    and "\<And>w p. m (w\<lparr>prov := p\<rparr>) = m w" and "\<And>b. m v b = None \<longleftrightarrow> m w b = None"
  shows "case close_step E busy raw del v of (r, w') \<Rightarrow>
    inv w' \<and> (\<forall>b. (m w' b \<noteq> None) = (m w b \<noteq> None \<and> (r = 0 \<longrightarrow> b \<noteq> a)))"
proof -
  obtain r w' where cs: "close_step E busy raw del v = (r, w')" by (metis prod.exhaust)
  then have "inv w' \<and> (\<forall>b. (m w' b \<noteq> None) = (m w b \<noteq> None \<and> (r = 0 \<longrightarrow> b \<noteq> a)))"
    by (cases rule: close_step_cases) (use assms in \<open>auto simp: assms(4,5,6)\<close>)
  then show ?thesis by (simp add: cs)
qed

interpretation domain_h: closable E "shim_domain_close E" "\<lambda>w a. domains w a \<noteq> None"
proof
  fix w :: "'a world" and a
  show "\<not> domains w 0 \<noteq> None" if "inv w" using inv_nullD(3) [OF that] by simp
  assume i: "errno_ok E" "inv w" and "domains w a \<noteq> None"
  then obtain x where x: "domains w a = Some x" by auto
  show "runs (shim_domain_close E a w) (\<lambda>(r, w'). inv w' \<and>
      (\<forall>b. (domains w' b \<noteq> None) = (domains w b \<noteq> None \<and> (r = 0 \<longrightarrow> b \<noteq> a))))"
    unfolding shim_domain_close_eq [OF i(2) x] runs_Some
    by (rule close_step_contract) (use i x inv_del_domain [OF i(2) x] in \<open>simp_all add: ledger_prov\<close>)
qed

interpretation eq_h: closable E "shim_eq_close E" "\<lambda>w a. eqs w a \<noteq> None"
proof
  fix w :: "'a world" and a
  show "\<not> eqs w 0 \<noteq> None" if "inv w" using inv_nullD(4) [OF that] by simp
  assume i: "errno_ok E" "inv w" and "eqs w a \<noteq> None"
  then obtain x where x: "eqs w a = Some x" by auto
  show "runs (shim_eq_close E a w) (\<lambda>(r, w'). inv w' \<and>
      (\<forall>b. (eqs w' b \<noteq> None) = (eqs w b \<noteq> None \<and> (r = 0 \<longrightarrow> b \<noteq> a))))"
    unfolding shim_eq_close_eq [OF i(2) x] runs_Some
    by (rule close_step_contract) (use i x inv_del_eq [OF i(2) x] in \<open>simp_all add: ledger_prov\<close>)
qed

interpretation cq_h: closable E "shim_cq_close E" "\<lambda>w a. cqs w a \<noteq> None"
proof
  fix w :: "'a world" and a
  show "\<not> cqs w 0 \<noteq> None" if "inv w" using inv_nullD(5) [OF that] by simp
  assume i: "errno_ok E" "inv w" and "cqs w a \<noteq> None"
  then obtain x where x: "cqs w a = Some x" by auto
  show "runs (shim_cq_close E a w) (\<lambda>(r, w'). inv w' \<and>
      (\<forall>b. (cqs w' b \<noteq> None) = (cqs w b \<noteq> None \<and> (r = 0 \<longrightarrow> b \<noteq> a))))"
    unfolding shim_cq_close_eq [OF i(2) x] runs_Some
    by (rule close_step_contract) (use i x inv_del_cq [OF i(2) x] in \<open>simp_all add: ledger_prov\<close>)
qed

interpretation mr_h: closable E "shim_mr_close E" "\<lambda>w a. mrs w a \<noteq> None"
proof
  fix w :: "'a world" and a
  show "\<not> mrs w 0 \<noteq> None" if "inv w" using inv_nullD(8) [OF that] by simp
  assume i: "errno_ok E" "inv w" and "mrs w a \<noteq> None"
  then obtain x where x: "mrs w a = Some x" by auto
  show "runs (shim_mr_close E a w) (\<lambda>(r, w'). inv w' \<and>
      (\<forall>b. (mrs w' b \<noteq> None) = (mrs w b \<noteq> None \<and> (r = 0 \<longrightarrow> b \<noteq> a))))"
    unfolding shim_mr_close_eq [OF i(2) x] runs_Some
    by (rule close_step_contract) (use i x inv_del_mr [OF i(2) x] in \<open>simp_all add: ledger_prov\<close>)
qed

interpretation listener_h: closable E "shim_listener_close E" "\<lambda>w a. listeners w a \<noteq> None"
proof
  fix w :: "'a world" and a
  show "\<not> listeners w 0 \<noteq> None" if "inv w" using inv_nullD(6) [OF that] by simp
  assume i: "errno_ok E" "inv w" and "listeners w a \<noteq> None"
  then obtain x where x: "listeners w a = Some x" by auto
  show "runs (shim_listener_close E a w) (\<lambda>(r, w'). inv w' \<and>
      (\<forall>b. (listeners w' b \<noteq> None) = (listeners w b \<noteq> None \<and> (r = 0 \<longrightarrow> b \<noteq> a))))"
    unfolding shim_listener_close_eq [OF i(2) x] runs_Some
    by (rule close_step_contract) (use i x inv_del_listener [OF i(2) x] in \<open>simp_all add: ledger_prov\<close>)
qed

interpretation fabric_h: closable E "shim_fabric_close E" "\<lambda>w a. fabrics w a \<noteq> None"
proof
  fix w :: "'a world" and a
  show "\<not> fabrics w 0 \<noteq> None" if "inv w" using inv_nullD(2) [OF that] by simp
  assume i: "errno_ok E" "inv w" and "fabrics w a \<noteq> None"
  then obtain x where x: "fabrics w a = Some x" by auto
  from x have a: "a \<noteq> 0" using inv_nullD(2) [OF i(2)] by auto
  show "runs (shim_fabric_close E a w) (\<lambda>(r, w'). inv w' \<and>
      (\<forall>b. (fabrics w' b \<noteq> None) = (fabrics w b \<noteq> None \<and> (r = 0 \<longrightarrow> b \<noteq> a))))"
    unfolding shim_fabric_close_eq [OF x a] runs_Some
    by (rule close_step_contract) (use i x inv_del_fabric [OF i(2) x] in \<open>simp_all add: ledger_prov\<close>)
qed

interpretation endpoint_h: closable E "shim_endpoint_close E" "\<lambda>w a. endpoints w a \<noteq> None"
proof
  fix w :: "'a world" and a
  show "\<not> endpoints w 0 \<noteq> None" if "inv w" using inv_nullD(7) [OF that] by simp
  assume i: "errno_ok E" "inv w" and "endpoints w a \<noteq> None"
  then obtain x where x: "endpoints w a = Some x" by auto
  show "runs (shim_endpoint_close E a w) (\<lambda>(r, w'). inv w' \<and>
      (\<forall>b. (endpoints w' b \<noteq> None) = (endpoints w b \<noteq> None \<and> (r = 0 \<longrightarrow> b \<noteq> a))))"
    unfolding shim_endpoint_close_eq [OF i(2) x] runs_Some
  proof (rule close_step_contract)
    let ?w = "w\<lparr>endpoints := (endpoints w)(a \<mapsto> x\<lparr>p_closing := True\<rparr>)\<rparr>"
    have iw: "inv ?w" using i(2) x by (rule inv_upd_endpoint) simp_all
    then show "inv ?w" .
    have del: "del_endpoint a x ?w = del_endpoint a (x\<lparr>p_closing := True\<rparr>) ?w"
      by (simp add: del_endpoint_def)
    show "inv (del_endpoint a x ?w)" unfolding del by (rule inv_del_endpoint [OF iw]) simp
  qed (use i x in \<open>simp_all add: ledger_prov del_endpoint_def Let_def\<close>)
qed

interpretation op_h: closable E "shim_op_free E" "\<lambda>w a. ops w a \<noteq> None"
proof
  fix w :: "'a world" and a
  show "\<not> ops w 0 \<noteq> None" if "inv w" using inv_nullD(9) [OF that] by simp
  assume i: "errno_ok E" "inv w" and "ops w a \<noteq> None"
  then obtain x where x: "ops w a = Some x" by auto
  show "runs (shim_op_free E a w) (\<lambda>(r, w'). inv w' \<and>
      (\<forall>b. (ops w' b \<noteq> None) = (ops w b \<noteq> None \<and> (r = 0 \<longrightarrow> b \<noteq> a))))"
    unfolding shim_op_free_eq [OF i(2) x] using i x inv_del_op [OF i(2) x]
    by (auto simp: del_op_def)
qed

end
