(* ===== verification/Shim_Open.thy ===== *)
theory Shim_Open
  imports Shim_Close
begin

text \<open>
  The open half of \<^verbatim>\<open>naive/fabric_shim.c\<close> (lines 333 to 489, 593 to 624): creating each
  resource, registering it with its parents, rolling composite opens back, and the
  connection management calls. An open returns its code and the value left in \<^verbatim>\<open>*out\<close>;
  \<open>out\<close> tells whether the caller passed a non-null output pointer.
\<close>

type_synonym 'p opened = "((int \<times> addr) \<times> 'p world) option"

definition shim_fabric_open :: "'p lib \<Rightarrow> addr \<Rightarrow> bool \<Rightarrow> 'p world \<Rightarrow> 'p opened" where
  "shim_fabric_open E info out w =
     (if \<not> out then Some ((- errno E FI_EINVAL, 0), w)
      else if info = 0 then Some ((- errno E FI_EINVAL, 0), w)
      else do {
        i \<leftarrow> infos w info;
        (case i_raw i of
           None \<Rightarrow> Some ((- errno E FI_EINVAL, 0), w)
         | Some raw \<Rightarrow> do {
             let (obj, w) = calloc E w;
             if obj = 0 then Some ((- errno E FI_ENOMEM, 0), w)
             else do {
               let ((ret, r), w) = call (fi_fabric E (fabric_attr raw) obj) w;
               if ret \<noteq> 0 then Some ((ret, 0), w)
               else Some ((0, obj), set_fabric obj \<lparr>f_raw = r, f_children = 0\<rparr> w)
             }
           })
      })"

definition shim_domain_open :: "'p lib \<Rightarrow> addr \<Rightarrow> addr \<Rightarrow> bool \<Rightarrow> 'p world \<Rightarrow> 'p opened" where
  "shim_domain_open E fabric info out w =
     (if \<not> out then Some ((- errno E FI_EINVAL, 0), w)
      else if fabric = 0 \<or> info = 0 then Some ((- errno E FI_EINVAL, 0), w)
      else do {
        let (obj, w) = calloc E w;
        if obj = 0 then Some ((- errno E FI_ENOMEM, 0), w)
        else do {
          f \<leftarrow> fabrics w fabric;
          i \<leftarrow> infos w info;
          let ((ret, r), w) = call (fi_domain E (f_raw f) (i_raw i) obj) w;
          if ret \<noteq> 0 then Some ((ret, 0), w)
          else Some ((0, obj),
            set_domain obj \<lparr>d_raw = r, d_fabric = fabric, d_children = 0\<rparr>
              (set_fabric fabric (f\<lparr>f_children := f_children f + 1\<rparr>) w))
        }
      })"

definition shim_eq_open :: "'p lib \<Rightarrow> addr \<Rightarrow> bool \<Rightarrow> 'p world \<Rightarrow> 'p opened" where
  "shim_eq_open E fabric out w =
     (if \<not> out then Some ((- errno E FI_EINVAL, 0), w)
      else if fabric = 0 then Some ((- errno E FI_EINVAL, 0), w)
      else do {
        let (obj, w) = calloc E w;
        if obj = 0 then Some ((- errno E FI_ENOMEM, 0), w)
        else do {
          f \<leftarrow> fabrics w fabric;
          let ((ret, r), w) = call (fi_eq_open E (f_raw f) obj) w;
          if ret \<noteq> 0 then Some ((ret, 0), w)
          else Some ((0, obj),
            set_eq obj \<lparr>e_raw = r, e_fabric = fabric, e_users = 0\<rparr>
              (set_fabric fabric (f\<lparr>f_children := f_children f + 1\<rparr>) w))
        }
      })"

definition shim_cq_open :: "'p lib \<Rightarrow> addr \<Rightarrow> size_t \<Rightarrow> bool \<Rightarrow> 'p world \<Rightarrow> 'p opened" where
  "shim_cq_open E domain capacity out w =
     (if \<not> out then Some ((- errno E FI_EINVAL, 0), w)
      else if domain = 0 \<or> capacity = 0 then Some ((- errno E FI_EINVAL, 0), w)
      else do {
        let (obj, w) = calloc E w;
        if obj = 0 then Some ((- errno E FI_ENOMEM, 0), w)
        else do {
          d \<leftarrow> domains w domain;
          let ((ret, r), w) = call (fi_cq_open E (d_raw d) capacity obj) w;
          if ret \<noteq> 0 then Some ((ret, 0), w)
          else Some ((0, obj),
            set_cq obj \<lparr>c_raw = r, c_domain = domain, c_pending = 0, c_capacity = capacity,
                c_count = 0, c_used = False, c_attached = False, c_retired = False\<rparr>
              (set_domain domain (d\<lparr>d_children := d_children d + 1\<rparr>) w))
        }
      })"

text \<open>
  The composite opens: the object is registered with its parents before it is bound, so a
  failed bind is rolled back by the matching close, and \<^verbatim>\<open>*out\<close> keeps the handle when the
  provider refuses that close.
\<close>

definition shim_listener_open ::
    "'p lib \<Rightarrow> addr \<Rightarrow> addr \<Rightarrow> addr \<Rightarrow> bool \<Rightarrow> 'p world \<Rightarrow> 'p opened" where
  "shim_listener_open E fabric info eq out w =
     (if \<not> out then Some ((- errno E FI_EINVAL, 0), w)
      else if fabric = 0 \<or> info = 0 \<or> eq = 0 then Some ((- errno E FI_EINVAL, 0), w)
      else do {
        e \<leftarrow> eqs w eq;
        if e_fabric e \<noteq> fabric then Some ((- errno E FI_EINVAL, 0), w)
        else do {
          let (obj, w) = calloc E w;
          if obj = 0 then Some ((- errno E FI_ENOMEM, 0), w)
          else do {
            f \<leftarrow> fabrics w fabric;
            i \<leftarrow> infos w info;
            let ((ret, r), w) = call (fi_passive_ep E (f_raw f) (i_raw i) obj) w;
            if ret \<noteq> 0 then Some ((ret, 0), w)
            else do {
              let l = \<lparr>l_raw = r, l_fabric = fabric, l_eq = eq, l_ready = False\<rparr>;
              let w = w\<lparr>listeners := (listeners w)(obj \<mapsto> l)\<rparr>;
              let w = set_fabric fabric (f\<lparr>f_children := f_children f + 1\<rparr>) w;
              let w = set_eq eq (e\<lparr>e_users := e_users e + 1\<rparr>) w;
              let (ret, w) = call (fi_pep_bind E r (e_raw e)) w;
              let (ret, w) = (if ret = 0 then call (fi_listen E r) w else (ret, w));
              if ret \<noteq> 0 then do {
                (c, w) \<leftarrow> shim_listener_close E obj w;
                Some ((ret, if c \<noteq> 0 then obj else 0), w)
              }
              else Some ((0, obj), w\<lparr>listeners := (listeners w)(obj \<mapsto> l\<lparr>l_ready := True\<rparr>)\<rparr>)
            }
          }
        }
      })"

text \<open>Lines 451 to 454: bind the event queue and both completion queues, then enable.\<close>

definition bind_endpoint ::
    "'p lib \<Rightarrow> addr \<Rightarrow> addr \<Rightarrow> addr \<Rightarrow> addr \<Rightarrow> 'p world \<Rightarrow> int \<times> 'p world" where
  "bind_endpoint E ep eq tx rx w =
     (let (ret, w) = call (fi_ep_bind E ep eq 0) w;
          (ret, w) = (if ret = 0 then call (fi_ep_bind E ep tx (FI_TRANSMIT E)) w else (ret, w));
          (ret, w) = (if ret = 0 then call (fi_ep_bind E ep rx (FI_RECV E)) w else (ret, w))
      in if ret = 0 then call (fi_enable E ep) w else (ret, w))"

text \<open>Lines 431 to 434, with C's left-to-right short-circuit evaluation.\<close>

definition endpoint_args_bad ::
    "addr \<Rightarrow> addr \<Rightarrow> addr \<Rightarrow> addr \<Rightarrow> addr \<Rightarrow> 'p world \<Rightarrow> bool option" where
  "endpoint_args_bad domain info eq tx rx w =
     (if domain = 0 \<or> info = 0 \<or> eq = 0 \<or> tx = 0 \<or> rx = 0 \<or> tx = rx then Some True
      else do {
        t \<leftarrow> cqs w tx;
        r \<leftarrow> cqs w rx;
        e \<leftarrow> eqs w eq;
        d \<leftarrow> domains w domain;
        Some (c_domain t \<noteq> domain \<or> c_domain r \<noteq> domain \<or> e_fabric e \<noteq> d_fabric d
              \<or> c_used t \<or> c_used r)
      })"

definition shim_endpoint_open ::
    "'p lib \<Rightarrow> addr \<Rightarrow> addr \<Rightarrow> addr \<Rightarrow> addr \<Rightarrow> addr \<Rightarrow> bool \<Rightarrow> 'p world \<Rightarrow> 'p opened" where
  "shim_endpoint_open E domain info eq tx rx out w =
     (if \<not> out then Some ((- errno E FI_EINVAL, 0), w)
      else do {
        bad \<leftarrow> endpoint_args_bad domain info eq tx rx w;
        if bad then Some ((- errno E FI_EINVAL, 0), w)
        else do {
          i \<leftarrow> infos w info;
          raw \<leftarrow> i_raw i;
          txf \<leftarrow> tx_op_flags raw;
          rxf \<leftarrow> rx_op_flags raw;
          if fi_mode raw AND NOT (FI_CONTEXT E OR FI_LOCAL_MR E) \<noteq> 0 \<or> txf \<noteq> 0 \<or> rxf \<noteq> 0
          then Some ((- errno E FI_ENOSYS, 0), w)
          else do {
            let (obj, w) = calloc E w;
            if obj = 0 then Some ((- errno E FI_ENOMEM, 0), w)
            else do {
              d \<leftarrow> domains w domain;
              let ((ret, r), w) = call (fi_endpoint E (d_raw d) raw obj) w;
              if ret \<noteq> 0 then Some ((ret, 0), w)
              else do {
                ea \<leftarrow> ep_attr raw;
                e \<leftarrow> eqs w eq;
                t \<leftarrow> cqs w tx;
                u \<leftarrow> cqs w rx;
                let p = \<lparr>p_raw = r, p_domain = domain, p_eq = eq, p_tx = tx, p_rx = rx,
                         p_max_msg = max_msg_size ea, p_ready = False, p_closing = False\<rparr>;
                let w = set_endpoint obj p w;
                let w = set_domain domain (d\<lparr>d_children := d_children d + 1\<rparr>) w;
                let w = set_eq eq (e\<lparr>e_users := e_users e + 1\<rparr>) w;
                let w = set_cq tx (t\<lparr>c_used := True, c_attached := True\<rparr>) w;
                let w = set_cq rx (u\<lparr>c_used := True, c_attached := True\<rparr>) w;
                let (ret, w) = bind_endpoint E r (e_raw e) (c_raw t) (c_raw u) w;
                if ret \<noteq> 0 then
                  (if fi_handle raw \<noteq> 0 then Some ((ret, obj), w)
                   else do {
                     (c, w) \<leftarrow> shim_endpoint_close E obj w;
                     Some ((ret, if c \<noteq> 0 then obj else 0), w)
                   })
                else Some ((0, obj), set_endpoint obj (p\<lparr>p_ready := True\<rparr>) w)
              }
            }
          }
        }
      })"

definition shim_mr_register ::
    "'p lib \<Rightarrow> addr \<Rightarrow> addr \<Rightarrow> size_t \<Rightarrow> u32 \<Rightarrow> bool \<Rightarrow> 'p world \<Rightarrow> 'p opened" where
  "shim_mr_register E domain buf capacity access out w =
     (if \<not> out then Some ((- errno E FI_EINVAL, 0), w)
      else if domain = 0 \<or> buf = 0 \<or> capacity = 0 \<or> access = 0
        \<or> access AND NOT (SHIM_ACCESS_SEND OR SHIM_ACCESS_RECV) \<noteq> 0
      then Some ((- errno E FI_EINVAL, 0), w)
      else do {
        let (obj, w) = calloc E w;
        if obj = 0 then Some ((- errno E FI_ENOMEM, 0), w)
        else do {
          let flags = (if access AND SHIM_ACCESS_SEND \<noteq> 0 then FI_SEND E else 0);
          let flags = (if access AND SHIM_ACCESS_RECV \<noteq> 0 then flags OR FI_RECV E else flags);
          d \<leftarrow> domains w domain;
          let ((ret, r), w) = call (fi_mr_reg E (d_raw d) buf capacity flags obj) w;
          if ret \<noteq> 0 then Some ((ret, 0), w)
          else Some ((0, obj),
            set_mr obj \<lparr>m_raw = r, m_domain = domain, m_buffer = buf, m_capacity = capacity,
                m_pending = 0, m_access = access\<rparr>
              (set_domain domain (d\<lparr>d_children := d_children d + 1\<rparr>) w))
        }
      })"

definition shim_op_create :: "'p lib \<Rightarrow> u64 \<Rightarrow> bool \<Rightarrow> 'p world \<Rightarrow> 'p opened" where
  "shim_op_create E i out w =
     (if \<not> out then Some ((- errno E FI_EINVAL, 0), w)
      else do {
        let (obj, w) = calloc E w;
        if obj = 0 then Some ((- errno E FI_ENOMEM, 0), w)
        else Some ((0, obj), set_op obj \<lparr>o_id = i, o_direction = 0, o_len = 0, o_cq = 0,
                o_mr = 0, o_next = 0, o_buf = 0\<rparr> w)
      })"

subsection \<open>Connection management\<close>

definition shim_connect :: "'p lib \<Rightarrow> addr \<Rightarrow> addr \<Rightarrow> 'p world \<Rightarrow> (int \<times> 'p world) option" where
  "shim_connect E ep info w =
     (if ep = 0 then Some (- errno E FI_EINVAL, w)
      else do {
        p \<leftarrow> endpoints w ep;
        if \<not> p_ready p \<or> p_closing p \<or> info = 0 then Some (- errno E FI_EINVAL, w)
        else do {
          i \<leftarrow> infos w info;
          raw \<leftarrow> i_raw i;
          if dest_addr raw = 0 then Some (- errno E FI_EINVAL, w)
          else Some (call (fi_connect E (p_raw p) (dest_addr raw)) w)
        }
      })"

definition shim_accept :: "'p lib \<Rightarrow> addr \<Rightarrow> 'p world \<Rightarrow> (int \<times> 'p world) option" where
  "shim_accept E ep w =
     (if ep = 0 then Some (- errno E FI_EINVAL, w)
      else do {
        p \<leftarrow> endpoints w ep;
        if \<not> p_ready p \<or> p_closing p then Some (- errno E FI_EINVAL, w)
        else Some (call (fi_accept E (p_raw p)) w)
      })"

definition shim_reject :: "'p lib \<Rightarrow> addr \<Rightarrow> addr \<Rightarrow> 'p world \<Rightarrow> (int \<times> 'p world) option" where
  "shim_reject E listener info w =
     (if listener = 0 then Some (- errno E FI_EINVAL, w)
      else do {
        l \<leftarrow> listeners w listener;
        if \<not> l_ready l \<or> info = 0 then Some (- errno E FI_EINVAL, w)
        else do {
          i \<leftarrow> infos w info;
          raw \<leftarrow> i_raw i;
          if fi_handle raw = 0 then Some (- errno E FI_EINVAL, w)
          else do {
            let (ret, w) = call (fi_reject E (l_raw l) (fi_handle raw)) w;
            Some (ret, w\<lparr>infos := (infos w)(info \<mapsto> \<lparr>i_raw = Some (raw\<lparr>fi_handle := 0\<rparr>)\<rparr>)\<rparr>)
          }
        }
      })"

end
