(* ===== verification/Shim_Io.thy ===== *)
theory Shim_Io
  imports Shim_Open
begin

text \<open>
  The data path of \<^verbatim>\<open>naive/fabric_shim.c\<close> (lines 491 to 591 and 634 to 679): posting
  sends and receives, and polling the event and completion queues.
\<close>

subsection \<open>Event queue\<close>

text \<open>
  \<^verbatim>\<open>snprintf("%s")\<close> into a zeroed array of \<open>SHIM_ERROR_TEXT_SIZE\<close> characters.
\<close>

definition c_text :: "string \<Rightarrow> string" where
  "c_text s = (let t = take (SHIM_ERROR_TEXT_SIZE - 1) s
     in t @ replicate (SHIM_ERROR_TEXT_SIZE - length t) (CHR 0x00))"

definition zero_event :: shim_connect_event where
  "zero_event = \<lparr>ev_type = 0, ev_source = 0, ev_info = 0, ev_err = 0, ev_prov_err = 0,
     ev_message = replicate SHIM_ERROR_TEXT_SIZE (CHR 0x00)\<rparr>"

definition source_of :: "addr option \<Rightarrow> addr" where
  "source_of s = (case s of None \<Rightarrow> 0 | Some c \<Rightarrow> c)"

text \<open>\<^verbatim>\<open>entry.info\<close> belongs to the caller from the moment the entry is read.\<close>

definition free_entry_info :: "eq_cm_entry \<Rightarrow> 'p world \<Rightarrow> 'p world" where
  "free_entry_info entry w = (if cm_info entry \<noteq> None then fi_freeinfo w else w)"

definition eq_read_error ::
    "'p lib \<Rightarrow> shim_eq \<Rightarrow> 'p world \<Rightarrow> (int \<times> shim_connect_event) \<times> 'p world" where
  "eq_read_error E e w =
     (let ((ret, error), w) = call (fi_eq_readerr E (e_raw e)) w
      in if ret = - errno E FI_EAGAIN \<or> ret = 0 then ((0, zero_event), w)
         else if ret < 0 then ((c_int ret, zero_event), w)
         else ((1, zero_event\<lparr>ev_type := SHIM_EVENT_ERROR, ev_source := source_of (qe_source error),
                ev_err := qe_err error, ev_prov_err := qe_prov_errno error,
                ev_message := c_text (case fi_eq_strerror E (e_raw e) (qe_prov_errno error) of
                   Some m \<Rightarrow> m | None \<Rightarrow> fi_strerror E (qe_err error))\<rparr>), w))"

definition shim_eq_poll ::
    "'p lib \<Rightarrow> addr \<Rightarrow> bool \<Rightarrow> 'p world \<Rightarrow> ((int \<times> shim_connect_event) \<times> 'p world) option" where
  "shim_eq_poll E eq out w =
     (if eq = 0 \<or> \<not> out then Some ((- errno E FI_EINVAL, zero_event), w)
      else do {
        e \<leftarrow> eqs w eq;
        let (request, w) = calloc E w;
        if request = 0 then Some ((- errno E FI_ENOMEM, zero_event), w)
        else do {
          let ((ret, event, entry), w) = call (fi_eq_read E (e_raw e)) w;
          if ret = - errno E FI_EAVAIL then Some (eq_read_error E e w)
          else if ret = - errno E FI_EAGAIN \<or> ret = 0 then Some ((0, zero_event), w)
          else if ret < 0 then Some ((c_int ret, zero_event), w)
          else if \<not> cm_size_ok entry then Some ((- errno E FI_EIO, zero_event), w)
          else do {
            let w = (if cm_info entry \<noteq> None then take_info w else w);
            let out = zero_event\<lparr>ev_source := source_of (cm_source entry)\<rparr>;
            (case event of
               FI_CONNREQ \<Rightarrow>
                 (case cm_info entry of
                    None \<Rightarrow> Some ((- errno E FI_EIO, out), w)
                  | Some info \<Rightarrow>
                      Some ((1, out\<lparr>ev_info := request, ev_type := SHIM_EVENT_CONNREQ\<rparr>),
                            w\<lparr>infos := (infos w)(request \<mapsto> \<lparr>i_raw = Some info\<rparr>)\<rparr>))
             | FI_CONNECTED \<Rightarrow>
                 Some ((1, out\<lparr>ev_type := SHIM_EVENT_CONNECTED\<rparr>), free_entry_info entry w)
             | FI_SHUTDOWN \<Rightarrow>
                 Some ((1, out\<lparr>ev_type := SHIM_EVENT_SHUTDOWN\<rparr>), free_entry_info entry w)
             | FI_EVENT_OTHER _ \<Rightarrow>
                 Some ((- errno E FI_ENOSYS, out), free_entry_info entry w))
          }
        }
      })"

subsection \<open>Posting\<close>

text \<open>
  What the provider puts on the wire for a send of \<open>n\<close> bytes at \<open>buf\<close>: the contents of
  the registered block at that offset, which must be live and long enough.
\<close>

definition read_region :: "shim_mr \<Rightarrow> addr \<Rightarrow> size_t \<Rightarrow> 'p world \<Rightarrow> bytes option" where
  "read_region m buf n w = do {
     bs \<leftarrow> mem w (m_buffer m);
     let off = unat (buf - m_buffer m);
     if off + unat n \<le> length bs then Some (take (unat n) (drop off bs)) else None
   }"

definition post_message :: "'p lib \<Rightarrow> addr \<Rightarrow> addr \<Rightarrow> addr \<Rightarrow> size_t \<Rightarrow> addr \<Rightarrow> bool
    \<Rightarrow> 'p world \<Rightarrow> (int \<times> 'p world) option" where
  "post_message E ep op mr n buf receive w =
     (if ep = 0 \<or> op = 0 \<or> mr = 0 \<or> buf = 0 then Some (- errno E FI_EINVAL, w)
      else do {
        p \<leftarrow> endpoints w ep;
        m \<leftarrow> mrs w mr;
        if \<not> p_ready p \<or> p_closing p \<or> m_domain m \<noteq> p_domain p
        then Some (- errno E FI_EINVAL, w)
        else do {
          x \<leftarrow> ops w op;
          if o_cq x \<noteq> 0 then Some (- errno E FI_EBUSY, w)
          else do {
            let access = (if receive then SHIM_ACCESS_RECV else SHIM_ACCESS_SEND);
            if m_access m AND access = 0 then Some (- errno E FI_EACCES, w)
            else do {
              let start = m_buffer m;
              if buf < start \<or> buf - start > m_capacity m
                \<or> n > m_capacity m - (buf - start) \<or> n > p_max_msg p
              then Some (- errno E FI_EINVAL, w)
              else do {
                let cq = (if receive then p_rx p else p_tx p);
                c \<leftarrow> cqs w cq;
                if c_count c \<ge> c_capacity c then Some (- errno E FI_EAGAIN, w)
                else do {
                  sent \<leftarrow> (if receive then Some [] else read_region m buf n w);
                  let (ret, w) = (if receive
                    then call (fi_recv E (p_raw p) buf n (fi_mr_desc E (m_raw m)) op) w
                    else call (fi_send E (p_raw p) sent (fi_mr_desc E (m_raw m)) op) w);
                  if ret \<noteq> 0 then Some (c_int ret, w)
                  else do {
                    let w = set_op op (x\<lparr>o_direction := (if receive then SHIM_COMPLETION_RECV
                                                         else SHIM_COMPLETION_SEND),
                       o_len := n, o_mr := mr, o_cq := cq, o_next := c_pending c, o_buf := buf\<rparr>) w;
                    let w = set_cq cq (c\<lparr>c_pending := op, c_count := c_count c + 1\<rparr>) w;
                    Some (0, set_mr mr (m\<lparr>m_pending := m_pending m + 1\<rparr>) w)
                  }
                }
              }
            }
          }
        }
      })"

definition shim_post_send :: "'p lib \<Rightarrow> addr \<Rightarrow> addr \<Rightarrow> addr \<Rightarrow> size_t \<Rightarrow> addr
    \<Rightarrow> 'p world \<Rightarrow> (int \<times> 'p world) option" where
  "shim_post_send E ep op mr n buf w = post_message E ep op mr n buf False w"

definition shim_post_recv :: "'p lib \<Rightarrow> addr \<Rightarrow> addr \<Rightarrow> addr \<Rightarrow> size_t \<Rightarrow> addr
    \<Rightarrow> 'p world \<Rightarrow> (int \<times> 'p world) option" where
  "shim_post_recv E ep op mr capacity buf w = post_message E ep op mr capacity buf True w"

subsection \<open>Completion queue\<close>

text \<open>
  The provider's write for a completed receive. It still borrows the buffer exactly when
  the operation's ctx is in flight and not retired; it writes at most the posted
  length, at the posted address, and the block must be live there.
\<close>

definition deliver :: "addr \<Rightarrow> bytes \<Rightarrow> 'p world \<Rightarrow> 'p world option" where
  "deliver ctx data w =
     (case ops w ctx of
        None \<Rightarrow> Some w
      | Some op \<Rightarrow>
          (if o_mr op = 0 \<or> o_direction op \<noteq> SHIM_COMPLETION_RECV then Some w
           else do {
             m \<leftarrow> mrs w (o_mr op);
             bs \<leftarrow> mem w (m_buffer m);
             let off = unat (o_buf op - m_buffer m);
             let d = take (unat (o_len op)) data;
             if off + length d \<le> length bs
             then Some (w\<lparr>mem := (mem w)(m_buffer m \<mapsto> take off bs @ d @ drop (off + length d) bs)\<rparr>)
             else None
           }))"

text \<open>
  Lines 579 to 580: walk the pending list for the returned ctx. The result is the
  address of the operation whose \<open>next\<close> field (or of the queue, for 0, whose head field)
  holds the link, and the link's value.
\<close>

partial_function (option) find_link ::
    "(addr \<rightharpoonup> shim_op) \<Rightarrow> addr \<Rightarrow> addr \<Rightarrow> addr \<Rightarrow> (addr \<times> addr) option" where
  "find_link h ctx prev p =
     (if p \<noteq> 0 \<and> p \<noteq> ctx
      then Option.bind (h p) (\<lambda>op. find_link h ctx p (o_next op))
      else Some (prev, p))"

definition unlink_op :: "addr \<Rightarrow> addr \<Rightarrow> addr \<Rightarrow> 'p world \<Rightarrow> 'p world option" where
  "unlink_op cq prev x w = do {
     c \<leftarrow> cqs w cq;
     op \<leftarrow> ops w x;
     if prev = 0 then Some (set_cq cq (c\<lparr>c_pending := o_next op, c_count := c_count c - 1\<rparr>) w)
     else do {
       o' \<leftarrow> ops w prev;
       Some (set_cq cq (c\<lparr>c_count := c_count c - 1\<rparr>)
              (set_op prev (o'\<lparr>o_next := o_next op\<rparr>) w))
     }
   }"

definition zero_completion :: shim_completion where
  "zero_completion = \<lparr>op_id = 0, flags = 0, len = 0, err = 0, prov_err = 0,
     message = replicate SHIM_ERROR_TEXT_SIZE (CHR 0x00)\<rparr>"

text \<open>
  Lines 556 to 577: one read of the provider's queue; \<open>Inl\<close> returns at once, \<open>Inr\<close>
  carries the ctx and what is already in \<^verbatim>\<open>*out\<close>.
\<close>

definition cq_read_entry :: "'p lib \<Rightarrow> shim_cq \<Rightarrow> 'p world
    \<Rightarrow> ((int + (addr \<times> shim_completion)) \<times> 'p world) option" where
  "cq_read_entry E c w =
     (let ((ret, entry), w) = call (fi_cq_read E (c_raw c)) w
      in if ret = - errno E FI_EAVAIL then
           (let ((ret, error), w) = call (fi_cq_readerr E (c_raw c)) w
            in if ret = - errno E FI_EAGAIN \<or> ret = 0 then Some (Inl 0, w)
               else if ret < 0 then Some (Inl (c_int ret), w)
               else Some (Inr (ce_context error,
                  zero_completion\<lparr>err := ce_err error, prov_err := ce_prov_errno error,
                    message := c_text (case fi_cq_strerror E (c_raw c) (ce_prov_errno error) of
                       Some m \<Rightarrow> m | None \<Rightarrow> fi_strerror E (ce_err error))\<rparr>), w))
         else if ret = - errno E FI_EAGAIN \<or> ret = 0 then Some (Inl 0, w)
         else if ret < 0 then Some (Inl (c_int ret), w)
         else do {
           w \<leftarrow> deliver (cm_context entry) (cm_data entry) w;
           Some (Inr (cm_context entry, zero_completion\<lparr>len := cm_len entry\<rparr>), w)
         })"

definition shim_cq_poll ::
    "'p lib \<Rightarrow> addr \<Rightarrow> bool \<Rightarrow> 'p world \<Rightarrow> ((int \<times> shim_completion) \<times> 'p world) option" where
  "shim_cq_poll E cq out w =
     (if cq = 0 \<or> \<not> out then Some ((- errno E FI_EINVAL, zero_completion), w)
      else do {
        c \<leftarrow> cqs w cq;
        if c_retired c then Some ((- errno E FI_EOPBADSTATE, zero_completion), w)
        else do {
          (r, w) \<leftarrow> cq_read_entry E c w;
          (case r of
             Inl ret \<Rightarrow> Some ((ret, zero_completion), w)
           | Inr (ctx, out) \<Rightarrow> do {
               (prev, x) \<leftarrow> find_link (ops w) ctx 0 (c_pending c);
               if x = 0 then Some ((- errno E FI_EIO, out), w)
               else do {
                 op \<leftarrow> ops w x;
                 w \<leftarrow> unlink_op cq prev x w;
                 let out = out\<lparr>op_id := o_id op, flags := o_direction op\<rparr>;
                 let out = (if err out \<noteq> 0 then out\<lparr>len := 0\<rparr>
                            else if o_direction op = SHIM_COMPLETION_SEND then out\<lparr>len := o_len op\<rparr>
                            else out);
                 w \<leftarrow> release_op x w;
                 Some ((1, out), w)
               }
             })
        }
      })"

end
