(* ===== verification/Transport.thy ===== *)
theory Transport
  imports Shim_Io
begin

text \<open>
  \<^verbatim>\<open>src/transport.rs\<close> without the connection: error conversion, the \<open>close!\<close> macro, and the
  owners of query results, fabrics, listeners and connection requests with their \<open>Drop\<close>
  implementations. A Rust method on \<open>&mut self\<close> takes and returns the object together with
  the world; \<open>None\<close> is undefined behaviour, a panic or an endless loop. A shared borrow of
  a parent is the parent's handle, which cannot change while it is borrowed.
\<close>

subsection \<open>Text\<close>

text \<open>
  \<^verbatim>\<open>String::from_utf8_lossy\<close> and \<^verbatim>\<open>CStr::to_string_lossy\<close>: a string is its UTF-8 bytes, and every
  maximal prefix of an ill-formed sequence becomes U+FFFD.
\<close>

definition byte_in :: "nat \<Rightarrow> nat \<Rightarrow> char \<Rightarrow> bool" where
  "byte_in lo hi c = (lo \<le> (of_char c :: nat) \<and> of_char c \<le> hi)"

definition replacement :: string where
  "replacement = [char_of (0xEF :: nat), char_of (0xBF :: nat), char_of (0xBD :: nat)]"

definition utf8_width :: "char \<Rightarrow> nat" where
  "utf8_width b = (if byte_in 0 0x7F b then 1 else if byte_in 0xC2 0xDF b then 2
     else if byte_in 0xE0 0xEF b then 3 else if byte_in 0xF0 0xF4 b then 4 else 0)"

definition utf8_second :: "char \<Rightarrow> char \<Rightarrow> bool" where
  "utf8_second b c =
     (let n = (of_char b :: nat)
      in if n = 0xE0 then byte_in 0xA0 0xBF c else if n = 0xED then byte_in 0x80 0x9F c
         else if n = 0xF0 then byte_in 0x90 0xBF c else if n = 0xF4 then byte_in 0x80 0x8F c
         else byte_in 0x80 0xBF c)"

text \<open>The continuation bytes that may follow the first byte, and whether they suffice.\<close>

definition utf8_tail :: "char \<Rightarrow> string \<Rightarrow> nat \<times> bool" where
  "utf8_tail b bs =
     (let w = utf8_width b; cont = byte_in 0x80 0xBF
      in if w = 0 then (0, False) else if w = 1 then (0, True)
         else case bs of
           [] \<Rightarrow> (0, False)
         | c # cs \<Rightarrow>
             if \<not> utf8_second b c then (0, False) else if w = 2 then (1, True)
             else case cs of
               [] \<Rightarrow> (1, False)
             | d # ds \<Rightarrow>
                 if \<not> cont d then (1, False) else if w = 3 then (2, True)
                 else case ds of
                   [] \<Rightarrow> (2, False)
                 | e # _ \<Rightarrow> if cont e then (3, True) else (2, False))"

function (sequential) from_utf8_lossy :: "string \<Rightarrow> string" where
  "from_utf8_lossy [] = []"
| "from_utf8_lossy (b # bs) =
     (let (n, ok) = utf8_tail b bs
      in (if ok then b # take n bs else replacement) @ from_utf8_lossy (drop n bs))"
  by pat_completeness auto

termination by (relation "measure length") auto

definition take_until_nul :: "string \<Rightarrow> string" where
  "take_until_nul s = takeWhile (\<lambda>c. c \<noteq> CHR 0x00) s"

definition error_text :: "string \<Rightarrow> string" where
  "error_text text = from_utf8_lossy (take_until_nul text)"

subsection \<open>Errors and closing\<close>

definition check :: "'p lib \<Rightarrow> int \<Rightarrow> string \<Rightarrow> unit result" where
  "check E code operation =
     (if code = 0 then Inr ()
      else Inl (operation @ '': '' @ from_utf8_lossy (take_until_nul (shim_error_string E code))
                @ '' ('' @ show_int code @ '')''))"

definition eprintln :: "string \<Rightarrow> 'p world \<Rightarrow> 'p world" where
  "eprintln s w = w\<lparr>console := console w @ [s]\<rparr>"

definition println :: "string \<Rightarrow> 'p world \<Rightarrow> 'p world" where
  "println s w = w\<lparr>console := console w @ [s]\<rparr>"

text \<open>
  \<open>close!(handle, function)\<close>: \<open>get\<close> and \<open>clear\<close> read and null the handle field of the
  object. A failed close returns early and leaves the handle as it was.
\<close>

definition close_handle :: "'p lib \<Rightarrow> string \<Rightarrow> (addr \<Rightarrow> 'p world \<Rightarrow> (int \<times> 'p world) option)
    \<Rightarrow> ('o \<Rightarrow> addr) \<Rightarrow> ('o \<Rightarrow> 'o) \<Rightarrow> ('o \<times> 'p world, unit) rust" where
  "close_handle E name f get clear s =
     (let (x, w) = s
      in if get x \<noteq> 0 then do {
           (code, w) \<leftarrow> f (get x) w;
           (case check E code name of
              Inl e \<Rightarrow> Some (Inl e, (x, w))
            | Inr _ \<Rightarrow> Some (Inr (), (clear x, w)))
         }
         else Some (Inr (), (x, w)))"

definition finish :: "unit result \<Rightarrow> unit result \<Rightarrow> unit result" where
  "finish r cleanup =
     (case (r, cleanup) of
        (Inl error, Inl c) \<Rightarrow> Inl (error @ ''; cleanup: '' @ c)
      | (Inl error, _) \<Rightarrow> Inl error
      | (_, Inl error) \<Rightarrow> Inl error
      | _ \<Rightarrow> Inr ())"

text \<open>\<open>Instant::now()\<close>.\<close>

definition now :: "'p lib \<Rightarrow> 'p world \<Rightarrow> nat \<times> 'p world" where
  "now E w = (clock E (ticks w), w\<lparr>ticks := ticks w + 1\<rparr>)"

subsection \<open>Query results\<close>

record info_owner =
  info_raw :: addr

definition has_nul :: "string \<Rightarrow> bool" where
  "has_nul s = (CHR 0x00 \<in> set s)"

definition info_drop :: "info_owner \<Rightarrow> 'p world \<Rightarrow> 'p world option" where
  "info_drop info w = shim_info_free (info_raw info) w"

definition info_query :: "'p lib \<Rightarrow> string \<Rightarrow> string \<Rightarrow> string option \<Rightarrow> bool \<Rightarrow> 'p world
    \<Rightarrow> (info_owner result \<times> 'p world) option" where
  "info_query E ip port domain is_source w =
     (if has_nul ip then Some (Inl ''IP contains NUL'', w)
      else if has_nul port then Some (Inl ''port contains NUL'', w)
      else if (case domain of None \<Rightarrow> False | Some d \<Rightarrow> has_nul d)
      then Some (Inl ''domain contains NUL'', w)
      else do {
        ((code, raw), w) \<leftarrow>
          shim_info_open E (Some ip) (Some port) domain (if is_source then 1 else 0) True w;
        let info = \<lparr>info_raw = raw\<rparr>;
        (case check E code ''shim_info_open'' of
           Inl e \<Rightarrow> do { w \<leftarrow> info_drop info w; Some (Inl e, w) }
         | Inr _ \<Rightarrow> Some (Inr info, w))
      })"

definition info_local :: "'p lib \<Rightarrow> string \<Rightarrow> string \<Rightarrow> string option \<Rightarrow> 'p world
    \<Rightarrow> (info_owner result \<times> 'p world) option" where
  "info_local E ip port domain w = info_query E ip port domain True w"

definition info_remote :: "'p lib \<Rightarrow> string \<Rightarrow> string \<Rightarrow> string option \<Rightarrow> 'p world
    \<Rightarrow> (info_owner result \<times> 'p world) option" where
  "info_remote E ip port domain w = info_query E ip port domain False w"

subsection \<open>Fabrics\<close>

record fabric_owner =
  fabric_raw :: addr

definition fabric_close :: "'p lib \<Rightarrow> (fabric_owner \<times> 'p world, unit) rust" where
  "fabric_close E = close_handle E ''shim_fabric_close'' (shim_fabric_close E) fabric_raw
     (fabric_raw_update (\<lambda>_. 0))"

definition fabric_drop :: "'p lib \<Rightarrow> fabric_owner \<Rightarrow> 'p world \<Rightarrow> 'p world option" where
  "fabric_drop E fabric w = do {
     (r, (_, w)) \<leftarrow> fabric_close E (fabric, w);
     (case r of
        Inl error \<Rightarrow> Some (eprintln (''fabric cleanup: '' @ error
                          @ ''; C handle retained until process exit'') w)
      | Inr _ \<Rightarrow> Some w)
   }"

definition fabric_open :: "'p lib \<Rightarrow> info_owner \<Rightarrow> 'p world
    \<Rightarrow> (fabric_owner result \<times> 'p world) option" where
  "fabric_open E info w = do {
     ((code, raw), w) \<leftarrow> shim_fabric_open E (info_raw info) True w;
     let fabric = \<lparr>fabric_raw = raw\<rparr>;
     (case check E code ''shim_fabric_open'' of
        Inl e \<Rightarrow> do { w \<leftarrow> fabric_drop E fabric w; Some (Inl e, w) }
      | Inr _ \<Rightarrow> Some (Inr fabric, w))
   }"

subsection \<open>Polling\<close>

definition poll_eq :: "'p lib \<Rightarrow> addr \<Rightarrow> 'p world
    \<Rightarrow> (shim_connect_event option result \<times> 'p world) option" where
  "poll_eq E eq w = do {
     ((ret, event), w) \<leftarrow> shim_eq_poll E eq True w;
     if ret = 0 then Some (Inr None, w)
     else (case (if ret < 0 then check E ret ''shim_eq_poll'' else Inr ()) of
         Inl e \<Rightarrow> Some (Inl e, w)
       | Inr _ \<Rightarrow>
           if ev_err event \<noteq> 0
           then Some (Inl (''EQ error '' @ show_int (ev_err event) @ '' (provider ''
                  @ show_int (ev_prov_err event) @ ''): '' @ error_text (ev_message event)), w)
           else Some (Inr (Some event), w))
   }"

definition poll_cq :: "'p lib \<Rightarrow> addr \<Rightarrow> 'p world
    \<Rightarrow> (shim_completion option result \<times> 'p world) option" where
  "poll_cq E cq w = do {
     ((ret, done'), w) \<leftarrow> shim_cq_poll E cq True w;
     if ret = 0 then Some (Inr None, w)
     else (case (if ret < 0 then check E ret ''shim_cq_poll'' else Inr ()) of
         Inl e \<Rightarrow> Some (Inl e, w)
       | Inr _ \<Rightarrow>
           if err done' \<noteq> 0
           then Some (Inl (''CQ op '' @ show_nat (unat (op_id done')) @ '' error '' @ show_int (err done')
                  @ '' (provider '' @ show_int (prov_err done') @ ''): ''
                  @ error_text (message done')), w)
           else Some (Inr (Some done'), w))
   }"

subsection \<open>Listeners and requests\<close>

record listener =
  ls_fabric :: addr
  ls_eq :: addr
  ls_raw :: addr

record request =
  rq_listener :: listener
  rq_info :: info_owner
  rq_handled :: bool

definition listener_close :: "'p lib \<Rightarrow> (listener \<times> 'p world, unit) rust" where
  "listener_close E =
     qmark (close_handle E ''shim_listener_close'' (shim_listener_close E) ls_raw
              (ls_raw_update (\<lambda>_. 0)))
       (\<lambda>_. close_handle E ''shim_eq_close'' (shim_eq_close E) ls_eq (ls_eq_update (\<lambda>_. 0)))"

definition listener_drop :: "'p lib \<Rightarrow> listener \<Rightarrow> 'p world \<Rightarrow> 'p world option" where
  "listener_drop E l w = do {
     (r, (_, w)) \<leftarrow> listener_close E (l, w);
     (case r of
        Inl error \<Rightarrow> Some (eprintln (''listener cleanup: '' @ error) w)
      | Inr _ \<Rightarrow> Some w)
   }"

definition listener_bind :: "'p lib \<Rightarrow> fabric_owner \<Rightarrow> info_owner \<Rightarrow> 'p world
    \<Rightarrow> (listener result \<times> 'p world) option" where
  "listener_bind E fabric info w = do {
     ((code, eq), w) \<leftarrow> shim_eq_open E (fabric_raw fabric) True w;
     let l = \<lparr>ls_fabric = fabric_raw fabric, ls_eq = eq, ls_raw = 0\<rparr>;
     (case check E code ''shim_eq_open'' of
        Inl e \<Rightarrow> do { w \<leftarrow> listener_drop E l w; Some (Inl e, w) }
      | Inr _ \<Rightarrow> do {
          ((code, raw), w) \<leftarrow>
            shim_listener_open E (fabric_raw fabric) (info_raw info) (ls_eq l) True w;
          let l = l\<lparr>ls_raw := raw\<rparr>;
          (case check E code ''shim_listener_open'' of
             Inl e \<Rightarrow> do { w \<leftarrow> listener_drop E l w; Some (Inl e, w) }
           | Inr _ \<Rightarrow> Some (Inr l, w))
        })
   }"

definition listener_poll :: "'p lib \<Rightarrow> listener \<Rightarrow> 'p world
    \<Rightarrow> (request option result \<times> 'p world) option" where
  "listener_poll E l w =
     (if ls_raw l = 0 then Some (Inl ''listener is closed'', w)
      else do {
        (r, w) \<leftarrow> poll_eq E (ls_eq l) w;
        (case r of
           Inl e \<Rightarrow> Some (Inl e, w)
         | Inr None \<Rightarrow> Some (Inr None, w)
         | Inr (Some event) \<Rightarrow>
             if ev_type event = SHIM_EVENT_CONNREQ \<and> ev_info event \<noteq> 0
             then Some (Inr (Some \<lparr>rq_listener = l, rq_info = \<lparr>info_raw = ev_info event\<rparr>,
                                   rq_handled = False\<rparr>), w)
             else Some (Inl (''unexpected listener event '' @ show_nat (unat (ev_type event))
                    @ '', error '' @ show_int (ev_err event)), w))
      })"

partial_function (option) wait_loop :: "'p lib \<Rightarrow> listener \<Rightarrow> nat \<Rightarrow> 'p world
    \<Rightarrow> (request result \<times> 'p world) option" where
  "wait_loop E l deadline w =
     (if fst (now E w) < deadline
      then Option.bind (listener_poll E l (snd (now E w))) (\<lambda>(r, w).
        case r of
          Inl e \<Rightarrow> Some (Inl e, w)
        | Inr (Some q) \<Rightarrow> Some (Inr q, w)
        | Inr None \<Rightarrow> wait_loop E l deadline w)
      else Some (Inl ''timeout waiting for a connection request'', snd (now E w)))"

definition wait_request :: "'p lib \<Rightarrow> listener \<Rightarrow> nat \<Rightarrow> 'p world
    \<Rightarrow> (request result \<times> 'p world) option" where
  "wait_request E l timeout w = (let (t, w) = now E w in wait_loop E l (t + timeout) w)"

definition request_reject :: "'p lib \<Rightarrow> (request \<times> 'p world, unit) rust" where
  "request_reject E s =
     (let (q, w) = s
      in if rq_handled q then Some (Inr (), (q, w))
         else do {
           let q = q\<lparr>rq_handled := True\<rparr>;
           (code, w) \<leftarrow> shim_reject E (ls_raw (rq_listener q)) (info_raw (rq_info q)) w;
           Some (check E code ''shim_reject'', (q, w))
         })"

definition request_drop :: "'p lib \<Rightarrow> request \<Rightarrow> 'p world \<Rightarrow> 'p world option" where
  "request_drop E q w = do {
     (r, (q, w)) \<leftarrow> request_reject E (q, w);
     let w = (case r of Inl error \<Rightarrow> eprintln (''request cleanup: '' @ error) w | Inr _ \<Rightarrow> w);
     info_drop (rq_info q) w
   }"

end
