(* ===== verification/Connection.thy ===== *)
theory Connection
  imports Transport
begin

text \<open>
  The connection of \<^verbatim>\<open>src/transport.rs\<close>: the two buffer slots, the prepared resources, the
  posting and polling methods and the close order. The two buffers live at the addresses
  the Rust allocator returns to \<open>Slot::empty\<close>, which are arguments of the constructors.
\<close>

definition BUFFER_SIZE :: nat where "BUFFER_SIZE = 64"
definition TX_ID :: u64 where "TX_ID = 1"
definition RX_ID :: u64 where "RX_ID = 2"

subsection \<open>Slots\<close>

record slot =
  sl_bytes :: "addr option"
  sl_mr :: addr
  sl_op :: addr
  sl_pending :: bool

definition slot_empty :: "addr \<Rightarrow> 'p world \<Rightarrow> slot \<times> 'p world" where
  "slot_empty a w = (\<lparr>sl_bytes = Some a, sl_mr = 0, sl_op = 0, sl_pending = False\<rparr>,
     w\<lparr>mem := (mem w)(a \<mapsto> replicate BUFFER_SIZE (CHR 0x00))\<rparr>)"

text \<open>\<open>self.bytes = None\<close> drops the box: its memory is freed.\<close>

definition free_bytes :: "addr option \<Rightarrow> 'p world \<Rightarrow> 'p world" where
  "free_bytes b w = (case b of None \<Rightarrow> w | Some a \<Rightarrow> w\<lparr>mem := (mem w)(a := None)\<rparr>)"

definition slot_close :: "'p lib \<Rightarrow> (slot \<times> 'p world, unit) rust" where
  "slot_close E =
     qmark (close_handle E ''shim_op_free'' (shim_op_free E) sl_op (sl_op_update (\<lambda>_. 0)))
       (\<lambda>_. qmark (close_handle E ''shim_mr_close'' (shim_mr_close E) sl_mr (sl_mr_update (\<lambda>_. 0)))
         (\<lambda>_ (s, w). Some (Inr (), (s\<lparr>sl_bytes := None, sl_pending := False\<rparr>,
                            free_bytes (sl_bytes s) w))))"

subsection \<open>The connection\<close>

record connection =
  cn_fabric :: addr
  cn_domain :: addr
  cn_eq :: addr
  cn_tx_cq :: addr
  cn_rx_cq :: addr
  cn_ep :: addr
  cn_tx :: slot
  cn_rx :: slot
  cn_cm_started :: bool
  cn_closing :: bool

datatype event = Connected | Received bytes | Sent | PeerClosed

definition show_event :: "event \<Rightarrow> string" where
  "show_event e = (case e of Connected \<Rightarrow> ''Connected''
     | Received m \<Rightarrow> ''Received('' @ show_bytes m @ '')'' | Sent \<Rightarrow> ''Sent''
     | PeerClosed \<Rightarrow> ''PeerClosed'')"

definition conn_empty :: "addr \<Rightarrow> addr \<Rightarrow> addr \<Rightarrow> 'p world \<Rightarrow> connection \<times> 'p world" where
  "conn_empty tx_buf rx_buf fabric w =
     (let (tx, w) = slot_empty tx_buf w; (rx, w) = slot_empty rx_buf w
      in (\<lparr>cn_fabric = fabric, cn_domain = 0, cn_eq = 0, cn_tx_cq = 0, cn_rx_cq = 0, cn_ep = 0,
           cn_tx = tx, cn_rx = rx, cn_cm_started = False, cn_closing = False\<rparr>, w))"

definition ensure_open :: "connection \<Rightarrow> unit result" where
  "ensure_open c = (if cn_ep c = 0 \<or> cn_closing c then Inl ''connection is closing or closed''
     else Inr ())"

definition receive_pending :: "connection \<Rightarrow> bool" where
  "receive_pending c = sl_pending (cn_rx c)"

definition post_recv :: "'p lib \<Rightarrow> (connection \<times> 'p world, bool) rust" where
  "post_recv E s =
     (let (c, w) = s
      in case ensure_open c of
           Inl e \<Rightarrow> Some (Inl e, s)
         | Inr _ \<Rightarrow>
             if sl_pending (cn_rx c) then Some (Inl ''receive slot is already in flight'', s)
             else do {
               buf \<leftarrow> sl_bytes (cn_rx c);
               bs \<leftarrow> mem w buf;
               (ret, w) \<leftarrow> shim_post_recv E (cn_ep c) (sl_op (cn_rx c)) (sl_mr (cn_rx c))
                            (of_nat (length bs)) buf w;
               if shim_error_is_again E ret \<noteq> 0 then Some (Inr False, (c, w))
               else (case check E ret ''shim_post_recv'' of
                   Inl e \<Rightarrow> Some (Inl e, (c, w))
                 | Inr _ \<Rightarrow> Some (Inr True, (c\<lparr>cn_rx := (cn_rx c)\<lparr>sl_pending := True\<rparr>\<rparr>, w)))
             })"

definition send :: "'p lib \<Rightarrow> bytes \<Rightarrow> (connection \<times> 'p world, bool) rust" where
  "send E msg s =
     (let (c, w) = s
      in case ensure_open c of
           Inl e \<Rightarrow> Some (Inl e, s)
         | Inr _ \<Rightarrow>
             if sl_pending (cn_tx c) then Some (Inl ''send slot is already in flight'', s)
             else do {
               buf \<leftarrow> sl_bytes (cn_tx c);
               bs \<leftarrow> mem w buf;
               if length msg > length bs
               then Some (Inl ''message exceeds send buffer capacity'', s)
               else do {
                 let w = w\<lparr>mem := (mem w)(buf \<mapsto> msg @ drop (length msg) bs)\<rparr>;
                 (ret, w) \<leftarrow> shim_post_send E (cn_ep c) (sl_op (cn_tx c)) (sl_mr (cn_tx c))
                              (of_nat (length msg)) buf w;
                 if shim_error_is_again E ret \<noteq> 0 then Some (Inr False, (c, w))
                 else (case check E ret ''shim_post_send'' of
                     Inl e \<Rightarrow> Some (Inl e, (c, w))
                   | Inr _ \<Rightarrow> Some (Inr True, (c\<lparr>cn_tx := (cn_tx c)\<lparr>sl_pending := True\<rparr>\<rparr>, w)))
               }
             })"

text \<open>The three parts of \<open>poll\<close>, each appending to the events found so far.\<close>

definition poll_tx :: "'p lib \<Rightarrow> (connection \<times> 'p world, event list) rust" where
  "poll_tx E s =
     (let (c, w) = s
      in do {
        (r, w) \<leftarrow> poll_cq E (cn_tx_cq c) w;
        (case r of
           Inl e \<Rightarrow> Some (Inl e, (c, w))
         | Inr None \<Rightarrow> Some (Inr [], (c, w))
         | Inr (Some d) \<Rightarrow>
             if \<not> sl_pending (cn_tx c) \<or> op_id d \<noteq> TX_ID \<or> flags d \<noteq> SHIM_COMPLETION_SEND
             then Some (Inl ''unexpected TX completion'', (c, w))
             else Some (Inr [Sent], (c\<lparr>cn_tx := (cn_tx c)\<lparr>sl_pending := False\<rparr>\<rparr>, w)))
      })"

definition poll_rx :: "'p lib \<Rightarrow> event list \<Rightarrow> (connection \<times> 'p world, event list) rust" where
  "poll_rx E events s =
     (let (c, w) = s
      in do {
        (r, w) \<leftarrow> poll_cq E (cn_rx_cq c) w;
        (case r of
           Inl e \<Rightarrow> Some (Inl e, (c, w))
         | Inr None \<Rightarrow> Some (Inr events, (c, w))
         | Inr (Some d) \<Rightarrow>
             if \<not> sl_pending (cn_rx c) \<or> op_id d \<noteq> RX_ID \<or> flags d \<noteq> SHIM_COMPLETION_RECV
             then Some (Inl ''unexpected RX completion'', (c, w))
             else do {
               let c = c\<lparr>cn_rx := (cn_rx c)\<lparr>sl_pending := False\<rparr>\<rparr>;
               buf \<leftarrow> sl_bytes (cn_rx c);
               bs \<leftarrow> mem w buf;
               if unat (len d) > length bs
               then Some (Inl ''RX length exceeds buffer capacity'', (c, w))
               else Some (Inr (events @ [Received (take (unat (len d)) bs)]), (c, w))
             })
      })"

definition poll_cm :: "'p lib \<Rightarrow> event list \<Rightarrow> (connection \<times> 'p world, event list) rust" where
  "poll_cm E events s =
     (let (c, w) = s
      in do {
        (r, w) \<leftarrow> poll_eq E (cn_eq c) w;
        (case r of
           Inl e \<Rightarrow> Some (Inl e, (c, w))
         | Inr None \<Rightarrow> Some (Inr events, (c, w))
         | Inr (Some ev) \<Rightarrow>
             if ev_type ev = SHIM_EVENT_CONNECTED then Some (Inr (events @ [Connected]), (c, w))
             else if ev_type ev = SHIM_EVENT_SHUTDOWN then Some (Inr (events @ [PeerClosed]), (c, w))
             else Some (Inl (''unexpected connection event '' @ show_nat (unat (ev_type ev))), (c, w)))
      })"

definition poll :: "'p lib \<Rightarrow> (connection \<times> 'p world, event list) rust" where
  "poll E s =
     (case ensure_open (fst s) of
        Inl e \<Rightarrow> Some (Inl e, s)
      | Inr _ \<Rightarrow> qmark (poll_tx E) (\<lambda>events. qmark (poll_rx E events) (poll_cm E)) s)"

subsection \<open>Close\<close>

text \<open>\<open>self.tx.close()?\<close> and \<open>self.rx.close()?\<close>.\<close>

definition on_tx :: "(slot \<times> 'p world, 'a) rust \<Rightarrow> (connection \<times> 'p world, 'a) rust" where
  "on_tx m s = (let (c, w) = s in do { (r, (x, w)) \<leftarrow> m (cn_tx c, w); Some (r, (c\<lparr>cn_tx := x\<rparr>, w)) })"

definition on_rx :: "(slot \<times> 'p world, 'a) rust \<Rightarrow> (connection \<times> 'p world, 'a) rust" where
  "on_rx m s = (let (c, w) = s in do { (r, (x, w)) \<leftarrow> m (cn_rx c, w); Some (r, (c\<lparr>cn_rx := x\<rparr>, w)) })"

definition begin_close :: "'p lib \<Rightarrow> (connection \<times> 'p world, unit) rust" where
  "begin_close E s =
     (let (c, w) = s; c = c\<lparr>cn_closing := True\<rparr>
      in if cn_cm_started c \<and> cn_ep c \<noteq> 0 then do {
           (_, w) \<leftarrow> shim_shutdown E (cn_ep c) w;
           Some (Inr (), (c\<lparr>cn_cm_started := False\<rparr>, w))
         }
         else Some (Inr (), (c, w)))"

definition conn_close :: "'p lib \<Rightarrow> (connection \<times> 'p world, unit) rust" where
  "conn_close E =
     qmark (begin_close E) (\<lambda>_.
     qmark (close_handle E ''shim_endpoint_close'' (shim_endpoint_close E) cn_ep
              (cn_ep_update (\<lambda>_. 0))) (\<lambda>_.
     qmark (close_handle E ''shim_cq_close'' (shim_cq_close E) cn_tx_cq
              (cn_tx_cq_update (\<lambda>_. 0))) (\<lambda>_.
     qmark (close_handle E ''shim_cq_close'' (shim_cq_close E) cn_rx_cq
              (cn_rx_cq_update (\<lambda>_. 0))) (\<lambda>_.
     qmark (on_tx (slot_close E)) (\<lambda>_.
     qmark (on_rx (slot_close E)) (\<lambda>_.
     qmark (close_handle E ''shim_eq_close'' (shim_eq_close E) cn_eq
              (cn_eq_update (\<lambda>_. 0))) (\<lambda>_.
     close_handle E ''shim_domain_close'' (shim_domain_close E) cn_domain
              (cn_domain_update (\<lambda>_. 0))))))))) "

text \<open>
  \<open>Drop\<close>: after a failed close the boxes are forgotten, so their memory stays allocated;
  after a successful one the slots hold no box any more.
\<close>

definition conn_drop :: "'p lib \<Rightarrow> connection \<Rightarrow> 'p world \<Rightarrow> 'p world option" where
  "conn_drop E c w = do {
     (r, (c, w)) \<leftarrow> conn_close E (c, w);
     (case r of
        Inl error \<Rightarrow> Some (eprintln (''connection cleanup: '' @ error
                          @ ''; retain buffers until process exit'') w)
      | Inr _ \<Rightarrow> Some (free_bytes (sl_bytes (cn_rx c)) (free_bytes (sl_bytes (cn_tx c)) w)))
   }"

subsection \<open>Setup\<close>

text \<open>
  An FFI call that writes a handle through its output argument, followed by \<open>check(..)?\<close>:
  the handle is stored before the code is looked at.
\<close>

definition open_handle :: "'p lib \<Rightarrow> string \<Rightarrow> ('o \<Rightarrow> 'p world \<Rightarrow> ((int \<times> addr) \<times> 'p world) option)
    \<Rightarrow> (addr \<Rightarrow> 'o \<Rightarrow> 'o) \<Rightarrow> ('o \<times> 'p world, unit) rust" where
  "open_handle E name f store s = do {
     let (x, w) = s;
     ((code, a), w) \<leftarrow> f x w;
     Some (check E code name, (store a x, w))
   }"

text \<open>One round of the loop over the two slots.\<close>

definition setup_slot :: "'p lib \<Rightarrow> addr \<Rightarrow> u32 \<Rightarrow> u64 \<Rightarrow> (slot \<times> 'p world, unit) rust" where
  "setup_slot E domain access i =
     qmark (open_handle E ''shim_mr_register''
              (\<lambda>x w. do {
                 buf \<leftarrow> sl_bytes x;
                 bs \<leftarrow> mem w buf;
                 shim_mr_register E domain buf (of_nat (length bs)) access True w
               }) (\<lambda>a. sl_mr_update (\<lambda>_. a)))
       (\<lambda>_. open_handle E ''shim_op_create'' (\<lambda>x w. shim_op_create E i True w)
              (\<lambda>a. sl_op_update (\<lambda>_. a)))"

text \<open>The submission loop at the end of \<open>initialize\<close>.\<close>

partial_function (option) post_loop :: "'p lib \<Rightarrow> nat \<Rightarrow> (connection \<times> 'p world, unit) rust" where
  "post_loop E deadline s =
     Option.bind (post_recv E s) (\<lambda>(r, (c, w)).
       case r of
         Inl e \<Rightarrow> Some (Inl e, (c, w))
       | Inr posted \<Rightarrow>
           if posted then Some (Inr (), (c, w))
           else if fst (now E w) \<ge> deadline
           then Some (Inl ''receive submission timeout'', (c, snd (now E w)))
           else Option.bind (poll E (c, snd (now E w))) (\<lambda>(r, s).
             case r of Inl e \<Rightarrow> Some (Inl e, s) | Inr _ \<Rightarrow> post_loop E deadline s))"

definition initialize :: "'p lib \<Rightarrow> info_owner \<Rightarrow> nat \<Rightarrow> (connection \<times> 'p world, unit) rust" where
  "initialize E info timeout =
     qmark (open_handle E ''shim_domain_open''
              (\<lambda>c. shim_domain_open E (cn_fabric c) (info_raw info) True)
              (\<lambda>a. cn_domain_update (\<lambda>_. a))) (\<lambda>_.
     qmark (open_handle E ''shim_eq_open'' (\<lambda>c. shim_eq_open E (cn_fabric c) True)
              (\<lambda>a. cn_eq_update (\<lambda>_. a))) (\<lambda>_.
     qmark (open_handle E ''TX CQ open'' (\<lambda>c. shim_cq_open E (cn_domain c) 16 True)
              (\<lambda>a. cn_tx_cq_update (\<lambda>_. a))) (\<lambda>_.
     qmark (open_handle E ''RX CQ open'' (\<lambda>c. shim_cq_open E (cn_domain c) 16 True)
              (\<lambda>a. cn_rx_cq_update (\<lambda>_. a))) (\<lambda>_.
     qmark (open_handle E ''shim_endpoint_open''
              (\<lambda>c. shim_endpoint_open E (cn_domain c) (info_raw info) (cn_eq c) (cn_tx_cq c)
                     (cn_rx_cq c) True)
              (\<lambda>a. cn_ep_update (\<lambda>_. a))) (\<lambda>_.
     qmark (\<lambda>(c, w). on_tx (setup_slot E (cn_domain c) SHIM_ACCESS_SEND TX_ID) (c, w)) (\<lambda>_.
     qmark (\<lambda>(c, w). on_rx (setup_slot E (cn_domain c) SHIM_ACCESS_RECV RX_ID) (c, w)) (\<lambda>_
     (c, w). let (t, w) = now E w in post_loop E (t + timeout) (c, w))))))))"

text \<open>
  \<open>Connection::from_request\<close> and \<open>Connection::connect\<close>: a connection that fails to set up
  is dropped; a request is rejected before the endpoint that holds its identifier closes.
\<close>

definition from_request :: "'p lib \<Rightarrow> addr \<Rightarrow> addr \<Rightarrow> nat \<Rightarrow> (request \<times> 'p world, connection) rust" where
  "from_request E tx_buf rx_buf timeout s =
     (let (q, w) = s
      in if rq_handled q then Some (Inl ''connection request is already handled'', s)
         else do {
           let (c, w) = conn_empty tx_buf rx_buf (ls_fabric (rq_listener q)) w;
           (setup, (c, w)) \<leftarrow> initialize E (rq_info q) timeout (c, w);
           (setup, (c, w)) \<leftarrow> (case setup of
               Inl e \<Rightarrow> Some (Inl e, (c, w))
             | Inr _ \<Rightarrow> do {
                 (code, w) \<leftarrow> shim_accept E (cn_ep c) w;
                 Some (check E code ''shim_accept'', (c, w))
               });
           (case setup of
              Inr _ \<Rightarrow> Some (Inr (c\<lparr>cn_cm_started := True\<rparr>), (q\<lparr>rq_handled := True\<rparr>, w))
            | Inl error \<Rightarrow> do {
                (r, (q, w)) \<leftarrow> request_reject E (q, w);
                w \<leftarrow> conn_drop E c w;
                Some (Inl (case r of Inr _ \<Rightarrow> error
                       | Inl rejection \<Rightarrow> error @ ''; rejection: '' @ rejection), (q, w))
              })
         })"

definition connect :: "'p lib \<Rightarrow> addr \<Rightarrow> addr \<Rightarrow> fabric_owner \<Rightarrow> info_owner \<Rightarrow> nat \<Rightarrow> 'p world
    \<Rightarrow> (connection result \<times> 'p world) option" where
  "connect E tx_buf rx_buf fabric info timeout w = do {
     let (c, w) = conn_empty tx_buf rx_buf (fabric_raw fabric) w;
     (r, (c, w)) \<leftarrow> initialize E info timeout (c, w);
     (r, w) \<leftarrow> (case r of
         Inl e \<Rightarrow> Some (Inl e, w)
       | Inr _ \<Rightarrow> do {
           (code, w) \<leftarrow> shim_connect E (cn_ep c) (info_raw info) w;
           Some (check E code ''shim_connect'', w)
         });
     (case r of
        Inr _ \<Rightarrow> Some (Inr (c\<lparr>cn_cm_started := True\<rparr>), w)
      | Inl e \<Rightarrow> do { w \<leftarrow> conn_drop E c w; Some (Inl e, w) })
   }"

end
