(* ===== verification/Fabric.thy ===== *)
theory Fabric
  imports Shim_Info
begin

text \<open>
  \<^verbatim>\<open>src/fabric.rs\<close>: the runtime version of libfabric, split into its two halves, and the
  command-line helpers both binaries share (\<^verbatim>\<open>main\<close> of \<^verbatim>\<open>clients.rs\<close> and \<^verbatim>\<open>server.rs\<close>).
\<close>

definition runtime_fabric_version :: "'p lib \<Rightarrow> u32 \<times> u32" where
  "runtime_fabric_version E =
     (let version = shim_fabric_version E in (drop_bit 16 version, version AND 0xFFFF))"

text \<open>No version bit is lost: the two halves fit 16 bits and determine the word.\<close>

lemma version_halves:
  assumes "runtime_fabric_version E = (major, minor)"
  shows "push_bit 16 major OR minor = fi_version E" and "major < 2 ^ 16" and "minor < 2 ^ 16"
proof -
  let ?v = "fi_version E"
  have m: "major = drop_bit 16 ?v" "minor = ?v AND 0xFFFF"
    using assms by (simp_all add: runtime_fabric_version_def shim_fabric_version_def Let_def)
  have mask: "(0xFFFF :: u32) = mask 16" by (simp add: mask_eq_exp_minus_1)
  have "minor = take_bit 16 ?v" unfolding m mask by (simp add: take_bit_eq_mask)
  then show "push_bit 16 major OR minor = ?v"
    unfolding m(1) by (auto simp: bit_eq_iff bit_simps)
  show "minor < 2 ^ 16"
    using \<open>minor = take_bit 16 ?v\<close> take_bit_nat_less_exp [of 16 "unat ?v"]
    by (simp add: word_less_nat_alt unsigned_take_bit_eq)
  show "major < 2 ^ 16"
    unfolding m(1) word_less_nat_alt
    using unsigned_less [where w = ?v and ?'a = nat]
    by (simp add: unat_div div_less_iff_less_mult drop_bit_eq_div)
qed

subsection \<open>Command line\<close>

definition is_digit :: "char \<Rightarrow> bool" where
  "is_digit c = (48 \<le> (of_char c :: nat) \<and> (of_char c :: nat) \<le> 57)"

text \<open>\<^verbatim>\<open>str::parse::<u64>\<close>: an optional plus sign and decimal digits whose value fits.\<close>

definition parse_u64 :: "string \<Rightarrow> nat option" where
  "parse_u64 s =
     (let ds = (case s of c # cs \<Rightarrow> if c = CHR ''+'' then cs else s | [] \<Rightarrow> s)
      in if ds \<noteq> [] \<and> list_all is_digit ds \<and> read_nat 0 ds < 2 ^ 64
         then Some (read_nat 0 ds) else None)"

definition arg :: "string list \<Rightarrow> nat \<Rightarrow> string option" where
  "arg args n = (if n < length args then Some (args ! n) else None)"

text \<open>The checks at the head of \<open>main\<close>: the number of arguments and the timeout in seconds.\<close>

definition parse_timeout :: "string \<Rightarrow> string list \<Rightarrow> nat result" where
  "parse_timeout usage args =
     (if args = [] \<or> length args > 4 then Inl usage
      else (case (case arg args 3 of None \<Rightarrow> Some 30 | Some s \<Rightarrow> parse_u64 s) of
          None \<Rightarrow> Inl ''invalid timeout''
        | Some seconds \<Rightarrow>
            if \<not> (1 \<le> seconds \<and> seconds \<le> 3600)
            then Inl ''timeout must be between 1 and 3600 seconds''
            else Inr seconds))"

definition version_line :: "'p lib \<Rightarrow> string" where
  "version_line E = (let (major, minor) = runtime_fabric_version E
     in ''libfabric runtime version: '' @ show_nat (unat major) @ ''.'' @ show_nat (unat minor))"

definition from_secs :: "nat \<Rightarrow> nat" where
  "from_secs s = s * 10 ^ 9"

end
