(* ===== verification/Client.thy ===== *)
theory Client
  imports Connection Fabric
begin

text \<open>
  \<^verbatim>\<open>src/bin/clients.rs\<close>: the application state of the client, its event loop over the
  \<open>ClientIo\<close> trait (two functions over any state that carries a world), the trait's
  implementation by \<open>Connection\<close>, and the program around it. The loop is written over the
  trait's functions, so that it can be driven by the connection or by a test double.
\<close>

datatype message = Hello | Ack

definition message_bytes :: "message \<Rightarrow> bytes" where
  "message_bytes m = (case m of Hello \<Rightarrow> ''hello'' | Ack \<Rightarrow> ''ack'')"

record exchange =
  connected :: bool
  hello_posted :: bool
  hello_completed :: bool
  world_received :: bool
  ack_posted :: bool
  ack_completed :: bool
  peer_closed :: bool

definition exchange_default :: exchange where
  "exchange_default = \<lparr>connected = False, hello_posted = False, hello_completed = False,
     world_received = False, ack_posted = False, ack_completed = False, peer_closed = False\<rparr>"

definition on_event :: "event \<Rightarrow> exchange \<Rightarrow> unit result \<times> exchange" where
  "on_event e x =
     (case e of
        Connected \<Rightarrow> (Inr (), x\<lparr>connected := True\<rparr>)
      | Received m \<Rightarrow>
          if \<not> hello_posted x \<or> world_received x \<or> m \<noteq> ''world''
          then (Inl (''unexpected reply: '' @ show_bytes m @ ''; expected one world message''), x)
          else (Inr (), x\<lparr>world_received := True\<rparr>)
      | Sent \<Rightarrow>
          if ack_posted x \<and> \<not> ack_completed x then (Inr (), x\<lparr>ack_completed := True\<rparr>)
          else if hello_posted x \<and> \<not> hello_completed x then (Inr (), x\<lparr>hello_completed := True\<rparr>)
          else (Inl ''unexpected or duplicate send completion'', x)
      | PeerClosed \<Rightarrow> (Inr (), x\<lparr>peer_closed := True\<rparr>))"

definition next_message :: "exchange \<Rightarrow> message option" where
  "next_message x =
     (if \<not> connected x \<or> peer_closed x then None
      else if \<not> hello_posted x then Some Hello
      else if hello_completed x \<and> world_received x \<and> \<not> ack_posted x then Some Ack
      else None)"

definition posted :: "message \<Rightarrow> exchange \<Rightarrow> exchange" where
  "posted m x = (case m of Hello \<Rightarrow> x\<lparr>hello_posted := True\<rparr> | Ack \<Rightarrow> x\<lparr>ack_posted := True\<rparr>)"

definition complete :: "exchange \<Rightarrow> bool" where
  "complete x = (world_received x \<and> hello_completed x \<and> ack_completed x)"

text \<open>\<open>#[derive(Debug)]\<close> of the state.\<close>

definition show_exchange :: "exchange \<Rightarrow> string" where
  "show_exchange x = ''Exchange { connected: '' @ show_bool (connected x)
     @ '', hello_posted: '' @ show_bool (hello_posted x)
     @ '', hello_completed: '' @ show_bool (hello_completed x)
     @ '', world_received: '' @ show_bool (world_received x)
     @ '', ack_posted: '' @ show_bool (ack_posted x)
     @ '', ack_completed: '' @ show_bool (ack_completed x)
     @ '', peer_closed: '' @ show_bool (peer_closed x) @ '' }''"

subsection \<open>The event loop\<close>

text \<open>The \<open>for\<close> loop over the polled events; an error leaves the function.\<close>

fun handle_events :: "event list \<Rightarrow> exchange \<times> 'p world \<Rightarrow> unit result \<times> (exchange \<times> 'p world)" where
  "handle_events [] (x, w) = (Inr (), (x, w))"
| "handle_events (e # es) (x, w) =
     (let w = println (''event: '' @ show_event e) w; (r, x) = on_event e x
      in case r of Inl m \<Rightarrow> (Inl m, (x, w)) | Inr _ \<Rightarrow> handle_events es (x, w))"

text \<open>
  What follows the events in one round: \<open>Inr True\<close> means that the exchange is complete,
  \<open>Inr False\<close> that the loop goes on.
\<close>

definition after_events :: "(bytes \<Rightarrow> ('io \<times> 'p world, bool) rust) \<Rightarrow> exchange \<Rightarrow> 'io \<times> 'p world
    \<Rightarrow> (bool result \<times> exchange \<times> 'io \<times> 'p world) option" where
  "after_events io_send x s =
     (if complete x then Some (Inr True, x, s)
      else case next_message x of
          None \<Rightarrow> Some (Inr False, x, s)
        | Some m \<Rightarrow> do {
            (r, s) \<leftarrow> io_send (message_bytes m) s;
            Some (case r of Inl e \<Rightarrow> (Inl e, x, s)
                  | Inr ok \<Rightarrow> (Inr False, if ok then posted m x else x, s))
          })"

definition round :: "('io \<times> 'p world, event list) rust \<Rightarrow> (bytes \<Rightarrow> ('io \<times> 'p world, bool) rust)
    \<Rightarrow> exchange \<Rightarrow> 'io \<times> 'p world \<Rightarrow> (bool result \<times> exchange \<times> 'io \<times> 'p world) option" where
  "round io_poll io_send x s = do {
     (r, (io, w)) \<leftarrow> io_poll s;
     (case r of
        Inl e \<Rightarrow> Some (Inl e, x, io, w)
      | Inr events \<Rightarrow>
          let (r, (x, w)) = handle_events events (x, w)
          in case r of
               Inl e \<Rightarrow> Some (Inl e, x, io, w)
             | Inr _ \<Rightarrow> after_events io_send x (io, w))
   }"

partial_function (option) exchange_loop :: "'p lib \<Rightarrow> ('io \<times> 'p world, event list) rust
    \<Rightarrow> (bytes \<Rightarrow> ('io \<times> 'p world, bool) rust) \<Rightarrow> nat \<Rightarrow> exchange \<Rightarrow> ('io \<times> 'p world, unit) rust" where
  "exchange_loop E io_poll io_send deadline x s =
     (if fst (now E (snd s)) < deadline
      then Option.bind (round io_poll io_send x (fst s, snd (now E (snd s)))) (\<lambda>(r, x, s).
        case r of
          Inl e \<Rightarrow> Some (Inl e, s)
        | Inr fin \<Rightarrow>
            if fin then Some (Inr (), s) else exchange_loop E io_poll io_send deadline x s)
      else Some (Inl (''client exchange timeout: '' @ show_exchange x),
                 (fst s, snd (now E (snd s)))))"

definition run_exchange :: "'p lib \<Rightarrow> ('io \<times> 'p world, event list) rust
    \<Rightarrow> (bytes \<Rightarrow> ('io \<times> 'p world, bool) rust) \<Rightarrow> nat \<Rightarrow> ('io \<times> 'p world, unit) rust" where
  "run_exchange E io_poll io_send timeout s =
     (let (t, w) = now E (snd s)
      in exchange_loop E io_poll io_send (t + timeout) exchange_default (fst s, w))"

subsection \<open>The program\<close>

definition client_run :: "'p lib \<Rightarrow> addr \<Rightarrow> addr \<Rightarrow> string \<Rightarrow> string \<Rightarrow> string option \<Rightarrow> nat
    \<Rightarrow> 'p world \<Rightarrow> (unit result \<times> 'p world) option" where
  "client_run E tx_buf rx_buf ip port domain timeout w = do {
     (info, w) \<leftarrow> info_remote E ip port domain w;
     (case info of
        Inl e \<Rightarrow> Some (Inl e, w)
      | Inr info \<Rightarrow> do {
          (fabric, w) \<leftarrow> fabric_open E info w;
          (case fabric of
             Inl e \<Rightarrow> do { w \<leftarrow> info_drop info w; Some (Inl e, w) }
           | Inr fabric \<Rightarrow> do {
               (conn, w) \<leftarrow> connect E tx_buf rx_buf fabric info timeout w;
               (r, w) \<leftarrow> (case conn of
                   Inl e \<Rightarrow> Some (Inl e, w)
                 | Inr conn \<Rightarrow> do {
                     (r, (conn, w)) \<leftarrow> run_exchange E (poll E) (send E) timeout (conn, w);
                     (cleanup, (conn, w)) \<leftarrow> conn_close E (conn, w);
                     w \<leftarrow> conn_drop E conn w;
                     Some (finish r cleanup, w)
                   });
               (cleanup, (fabric, w)) \<leftarrow> fabric_close E (fabric, w);
               w \<leftarrow> fabric_drop E fabric w;
               w \<leftarrow> info_drop info w;
               Some (finish r cleanup, w)
             })
        })
   }"

definition client_main :: "'p lib \<Rightarrow> addr \<Rightarrow> addr \<Rightarrow> string list \<Rightarrow> 'p world
    \<Rightarrow> (unit result \<times> 'p world) option" where
  "client_main E tx_buf rx_buf args w =
     (case parse_timeout ''usage: clients <server-rxe-ip> [port=7471] [local-domain] [timeout-seconds=30]''
             args of
        Inl e \<Rightarrow> Some (Inl e, w)
      | Inr seconds \<Rightarrow> do {
          let w = println (version_line E) w;
          (r, w) \<leftarrow> client_run E tx_buf rx_buf (args ! 0)
            (case arg args 1 of None \<Rightarrow> ''7471'' | Some p \<Rightarrow> p) (arg args 2) (from_secs seconds) w;
          Some (case r of
             Inl e \<Rightarrow> (Inl e, w)
           | Inr _ \<Rightarrow> (Inr (), println ''hello sent, world verified, ack sent; resources closed'' w))
        })"

end
