(* ===== verification/Server.thy ===== *)
theory Server
  imports Connection Fabric
begin

text \<open>
  \<^verbatim>\<open>src/bin/server.rs\<close>: the phases of the server's exchange, its event loop over one accepted
  connection, and the program that owns the listener, the request and the connection.
\<close>

datatype phase = P_Hello | P_Reply | P_Ack | P_Done

definition phase_rank :: "phase \<Rightarrow> nat" where
  "phase_rank p = (case p of P_Hello \<Rightarrow> 0 | P_Reply \<Rightarrow> 1 | P_Ack \<Rightarrow> 2 | P_Done \<Rightarrow> 3)"

text \<open>The order in which an exchange goes through its phases.\<close>

instantiation phase :: linorder
begin

definition less_eq_phase :: "phase \<Rightarrow> phase \<Rightarrow> bool" where
  "less_eq_phase a b = (phase_rank a \<le> phase_rank b)"

definition less_phase :: "phase \<Rightarrow> phase \<Rightarrow> bool" where
  "less_phase a b = (phase_rank a < phase_rank b)"

instance
  by standard (auto simp: less_eq_phase_def less_phase_def phase_rank_def split: phase.splits)

end

definition show_phase :: "phase \<Rightarrow> string" where
  "show_phase p = (case p of P_Hello \<Rightarrow> ''Hello'' | P_Reply \<Rightarrow> ''Reply'' | P_Ack \<Rightarrow> ''Ack''
     | P_Done \<Rightarrow> ''Done'')"

record exchange =
  phase :: phase
  connected :: bool
  sent :: bool
  peer_closed :: bool

definition exchange_new :: exchange where
  "exchange_new = \<lparr>phase = P_Hello, connected = False, sent = False, peer_closed = False\<rparr>"

definition on_event :: "event \<Rightarrow> exchange \<Rightarrow> unit result \<times> exchange" where
  "on_event e x =
     (case e of
        Connected \<Rightarrow> (Inr (), x\<lparr>connected := True\<rparr>)
      | Sent \<Rightarrow> (Inr (), x\<lparr>sent := True\<rparr>)
      | PeerClosed \<Rightarrow> (Inr (), x\<lparr>peer_closed := True\<rparr>)
      | Received m \<Rightarrow>
          if phase x = P_Hello \<and> m = ''hello'' then (Inr (), x\<lparr>phase := P_Reply\<rparr>)
          else if phase x = P_Ack \<and> m = ''ack'' then (Inr (), x\<lparr>phase := P_Done\<rparr>)
          else (Inl (''unexpected message in '' @ show_phase (phase x) @ '': '' @ show_bytes m), x))"

definition complete :: "exchange \<Rightarrow> bool" where
  "complete x = (phase x = P_Done \<and> sent x)"

fun handle_events :: "event list \<Rightarrow> exchange \<times> 'p world \<Rightarrow> unit result \<times> (exchange \<times> 'p world)" where
  "handle_events [] (x, w) = (Inr (), (x, w))"
| "handle_events (e # es) (x, w) =
     (let w = println (''event: '' @ show_event e) w; (r, x) = on_event e x
      in case r of Inl m \<Rightarrow> (Inl m, (x, w)) | Inr _ \<Rightarrow> handle_events es (x, w))"

text \<open>
  One reply attempt: the receive for the acknowledgement is posted before the reply is
  sent, and either may have to be retried in a later round.
\<close>

definition try_reply :: "'p lib \<Rightarrow> exchange \<Rightarrow> connection \<times> 'p world
    \<Rightarrow> (unit result \<times> exchange \<times> connection \<times> 'p world) option" where
  "try_reply E x s = do {
     (ready, s) \<leftarrow> (if receive_pending (fst s) then Some (Inr True, s) else post_recv E s);
     (case ready of
        Inl e \<Rightarrow> Some (Inl e, x, s)
      | Inr ready \<Rightarrow>
          if \<not> ready then Some (Inr (), x, s)
          else do {
            (r, s) \<leftarrow> send E ''world'' s;
            Some (case r of
               Inl e \<Rightarrow> (Inl e, x, s)
             | Inr ok \<Rightarrow> (Inr (), if ok then x\<lparr>phase := P_Ack\<rparr> else x, s))
          })
   }"

definition after_events :: "'p lib \<Rightarrow> exchange \<Rightarrow> connection \<times> 'p world
    \<Rightarrow> (bool result \<times> exchange \<times> connection \<times> 'p world) option" where
  "after_events E x s =
     (if complete x then Some (Inr True, x, s)
      else if connected x \<and> \<not> peer_closed x \<and> phase x = P_Reply then do {
        (r, x, s) \<leftarrow> try_reply E x s;
        Some (case r of Inl e \<Rightarrow> (Inl e, x, s) | Inr _ \<Rightarrow> (Inr False, x, s))
      }
      else Some (Inr False, x, s))"

definition round :: "'p lib \<Rightarrow> exchange \<Rightarrow> connection \<times> 'p world
    \<Rightarrow> (bool result \<times> exchange \<times> connection \<times> 'p world) option" where
  "round E x s = do {
     (r, (c, w)) \<leftarrow> poll E s;
     (case r of
        Inl e \<Rightarrow> Some (Inl e, x, c, w)
      | Inr events \<Rightarrow>
          let (r, (x, w)) = handle_events events (x, w)
          in case r of
               Inl e \<Rightarrow> Some (Inl e, x, c, w)
             | Inr _ \<Rightarrow> after_events E x (c, w))
   }"

partial_function (option) serve_loop :: "'p lib \<Rightarrow> nat \<Rightarrow> exchange
    \<Rightarrow> (connection \<times> 'p world, unit) rust" where
  "serve_loop E deadline x s =
     (if fst (now E (snd s)) < deadline
      then Option.bind (round E x (fst s, snd (now E (snd s)))) (\<lambda>(r, x, s).
        case r of
          Inl e \<Rightarrow> Some (Inl e, s)
        | Inr fin \<Rightarrow>
            if fin then Some (Inr (), s) else serve_loop E deadline x s)
      else Some (Inl (''exchange timeout in '' @ show_phase (phase x) @ ''; peer_closed=''
                      @ show_bool (peer_closed x)), (fst s, snd (now E (snd s)))))"

definition serve :: "'p lib \<Rightarrow> nat \<Rightarrow> (connection \<times> 'p world, unit) rust" where
  "serve E timeout s =
     (let (t, w) = now E (snd s) in serve_loop E (t + timeout) exchange_new (fst s, w))"

subsection \<open>The program\<close>

text \<open>The inner closure of \<open>run\<close>: one request, one connection.\<close>

definition serve_request :: "'p lib \<Rightarrow> addr \<Rightarrow> addr \<Rightarrow> listener \<Rightarrow> nat \<Rightarrow> 'p world
    \<Rightarrow> (unit result \<times> 'p world) option" where
  "serve_request E tx_buf rx_buf l timeout w = do {
     (q, w) \<leftarrow> wait_request E l timeout w;
     (case q of
        Inl e \<Rightarrow> Some (Inl e, w)
      | Inr q \<Rightarrow> do {
          (conn, (q, w)) \<leftarrow> from_request E tx_buf rx_buf timeout (q, w);
          w \<leftarrow> request_drop E q w;
          (case conn of
             Inl e \<Rightarrow> Some (Inl e, w)
           | Inr conn \<Rightarrow> do {
               (r, (conn, w)) \<leftarrow> serve E timeout (conn, w);
               (cleanup, (conn, w)) \<leftarrow> conn_close E (conn, w);
               w \<leftarrow> conn_drop E conn w;
               Some (finish r cleanup, w)
             })
        })
   }"

definition server_run :: "'p lib \<Rightarrow> addr \<Rightarrow> addr \<Rightarrow> string \<Rightarrow> string \<Rightarrow> string option \<Rightarrow> nat
    \<Rightarrow> 'p world \<Rightarrow> (unit result \<times> 'p world) option" where
  "server_run E tx_buf rx_buf ip port domain timeout w = do {
     (info, w) \<leftarrow> info_local E ip port domain w;
     (case info of
        Inl e \<Rightarrow> Some (Inl e, w)
      | Inr info \<Rightarrow> do {
          (fabric, w) \<leftarrow> fabric_open E info w;
          (case fabric of
             Inl e \<Rightarrow> do { w \<leftarrow> info_drop info w; Some (Inl e, w) }
           | Inr fabric \<Rightarrow> do {
               (l, w) \<leftarrow> listener_bind E fabric info w;
               (r, w) \<leftarrow> (case l of
                   Inl e \<Rightarrow> Some (Inl e, w)
                 | Inr l \<Rightarrow> do {
                     let w = println (''listening on '' @ ip @ '':'' @ port @ ''; waiting up to ''
                               @ show_nat (timeout div 10 ^ 9) @ '' seconds'') w;
                     (r, w) \<leftarrow> serve_request E tx_buf rx_buf l timeout w;
                     (cleanup, (l, w)) \<leftarrow> listener_close E (l, w);
                     w \<leftarrow> listener_drop E l w;
                     Some (finish r cleanup, w)
                   });
               (cleanup, (fabric, w)) \<leftarrow> fabric_close E (fabric, w);
               w \<leftarrow> fabric_drop E fabric w;
               w \<leftarrow> info_drop info w;
               Some (finish r cleanup, w)
             })
        })
   }"

definition server_main :: "'p lib \<Rightarrow> addr \<Rightarrow> addr \<Rightarrow> string list \<Rightarrow> 'p world
    \<Rightarrow> (unit result \<times> 'p world) option" where
  "server_main E tx_buf rx_buf args w =
     (case parse_timeout ''usage: server <local-rxe-ip> [port=7471] [local-domain] [timeout-seconds=30]''
             args of
        Inl e \<Rightarrow> Some (Inl e, w)
      | Inr seconds \<Rightarrow> do {
          let w = println (version_line E) w;
          (r, w) \<leftarrow> server_run E tx_buf rx_buf (args ! 0)
            (case arg args 1 of None \<Rightarrow> ''7471'' | Some p \<Rightarrow> p) (arg args 2) (from_secs seconds) w;
          Some (case r of
             Inl e \<Rightarrow> (Inl e, w)
           | Inr _ \<Rightarrow> (Inr (), println ''hello/world/ack completed; resources closed'' w))
        })"

end
