(* ===== verification/Shim_Refine_Open.thy ===== *)
theory Shim_Refine_Open
  imports Shim_Open Shim_Refine_Close
begin

text \<open>
  Refinement of the open half of the shim: \<open>open_step\<close> is the abstract step of the plain
  opens (a fresh block, one provider call, one ledger entry or none), and the two
  composite opens either add a ready object, or leave a cleanup-only handle, or roll back.
\<close>

lemma same_heap_prov [simp]: "same_heap w (w\<lparr>prov := p\<rparr>)"
  unfolding same_heap_def by blast

definition open_step :: "'p lib \<Rightarrow> (addr \<Rightarrow> 'p \<Rightarrow> (int \<times> addr) \<times> 'p)
    \<Rightarrow> (addr \<Rightarrow> addr \<Rightarrow> 'p world \<Rightarrow> 'p world) \<Rightarrow> 'p world \<Rightarrow> (int \<times> addr) \<times> 'p world" where
  "open_step E new add w =
     (let (obj, w) = calloc E w
      in if obj = 0 then ((- errno E FI_ENOMEM, 0), w)
         else (let ((ret, r), w) = call (new obj) w
               in if ret \<noteq> 0 then ((ret, 0), w) else ((0, obj), add obj r w)))"

definition opened :: "(addr \<Rightarrow> addr \<Rightarrow> 'p world \<Rightarrow> 'p world) \<Rightarrow> 'p world
    \<Rightarrow> (int \<times> addr) \<times> 'p world \<Rightarrow> bool" where
  "opened add w = (\<lambda>((r, a), w'). (r \<noteq> 0 \<and> a = 0 \<and> same_heap w w') \<or>
     (r = 0 \<and> a \<noteq> 0 \<and> \<not> allocated w a \<and> (\<exists>raw p. w' = add a raw (w\<lparr>prov := p\<rparr>))))"

lemma calloc_cases:
  obtains (none) p where "calloc E w = (0, w\<lparr>prov := p\<rparr>)"
    | (block) a p where "calloc E w = (a, w\<lparr>prov := p\<rparr>)" "a \<noteq> 0" "\<not> allocated w a"
proof (cases "fst (calloc E w) = 0")
  case True
  then have "calloc E w = (0, w\<lparr>prov := snd (c_calloc E (prov w))\<rparr>)"
    by (auto simp: calloc_def split: prod.splits)
  then show ?thesis by (rule none)
next
  case False
  then have "calloc E w = (fst (calloc E w), w\<lparr>prov := snd (c_calloc E (prov w))\<rparr>)"
    and "\<not> allocated w (fst (calloc E w))"
    by (auto simp: calloc_def split: prod.splits if_splits)
  with False show ?thesis by (intro block)
qed

lemma open_step_opened:
  assumes "errno_ok E"
  shows "opened add w (open_step E new add w)"
proof (cases rule: calloc_cases [of E w])
  case (none p)
  then show ?thesis using assms by (auto simp: open_step_def opened_def same_heap_def)
next
  case (block a p)
  then show ?thesis
    by (auto simp: open_step_def opened_def same_heap_def call_def split: prod.splits)
qed

lemma opened_cases:
  assumes "opened add w ((r, a), w')"
  obtains (failed) p where "r \<noteq> 0" "a = 0" "w' = w\<lparr>prov := p\<rparr>"
    | (made) raw p where "r = 0" "a \<noteq> 0" "\<not> allocated w a" "w' = add a raw (w\<lparr>prov := p\<rparr>)"
  using assms unfolding opened_def same_heap_def by auto

subsection \<open>Plain opens\<close>

lemma shim_fabric_open_eq:
  assumes "inv w" and "infos w i = Some x" and "i_raw x = Some raw"
  shows "shim_fabric_open E i True w = Some (open_step E (fi_fabric E (fabric_attr raw))
    (\<lambda>a r. add_fabric a \<lparr>f_raw = r, f_children = 0\<rparr>) w)"
proof -
  have "i \<noteq> 0" using assms inv_nullD(1) [OF assms(1)] by auto
  then show ?thesis using assms(2,3)
    by (simp add: shim_fabric_open_def open_step_def add_fabric_def split: prod.splits)
qed

lemma shim_domain_open_eq:
  assumes "inv w" and "fabrics w f = Some y" and "infos w i = Some x"
  shows "shim_domain_open E f i True w = Some (open_step E (fi_domain E (f_raw y) (i_raw x))
    (\<lambda>a r. add_domain a \<lparr>d_raw = r, d_fabric = f, d_children = 0\<rparr>) w)"
proof -
  have "f \<noteq> 0" "i \<noteq> 0" using assms inv_nullD(1,2) [OF assms(1)] by auto
  then show ?thesis using assms(2,3)
    by (cases rule: calloc_cases [of E w])
      (simp_all add: shim_domain_open_def open_step_def add_domain_def call_def bump_Some
        split: prod.splits)
qed

lemma shim_eq_open_eq:
  assumes "inv w" and "fabrics w f = Some y"
  shows "shim_eq_open E f True w = Some (open_step E (fi_eq_open E (f_raw y))
    (\<lambda>a r. add_eq a \<lparr>e_raw = r, e_fabric = f, e_users = 0\<rparr>) w)"
proof -
  have "f \<noteq> 0" using assms inv_nullD(2) [OF assms(1)] by auto
  then show ?thesis using assms(2)
    by (cases rule: calloc_cases [of E w])
      (simp_all add: shim_eq_open_def open_step_def add_eq_def call_def bump_Some
        split: prod.splits)
qed

lemma shim_cq_open_eq:
  assumes "inv w" and "domains w d = Some y" and "n \<noteq> 0"
  shows "shim_cq_open E d n True w = Some (open_step E (fi_cq_open E (d_raw y) n)
    (\<lambda>a r. add_cq a \<lparr>c_raw = r, c_domain = d, c_pending = 0, c_capacity = n, c_count = 0,
       c_used = False, c_attached = False, c_retired = False\<rparr>) w)"
proof -
  have "d \<noteq> 0" using assms inv_nullD(3) [OF assms(1)] by auto
  then show ?thesis using assms(2,3)
    by (cases rule: calloc_cases [of E w])
      (simp_all add: shim_cq_open_def open_step_def add_cq_def call_def bump_Some
        split: prod.splits)
qed

definition mr_flags :: "'p lib \<Rightarrow> u32 \<Rightarrow> u64" where
  "mr_flags E access = (if access AND SHIM_ACCESS_SEND \<noteq> 0 then FI_SEND E else 0)
     OR (if access AND SHIM_ACCESS_RECV \<noteq> 0 then FI_RECV E else 0)"

lemma shim_mr_register_eq:
  assumes "inv w" and "domains w d = Some y" and "buf \<noteq> 0" and "n \<noteq> 0"
    and "access = SHIM_ACCESS_SEND \<or> access = SHIM_ACCESS_RECV
      \<or> access = SHIM_ACCESS_SEND OR SHIM_ACCESS_RECV"
  shows "shim_mr_register E d buf n access True w =
    Some (open_step E (fi_mr_reg E (d_raw y) buf n (mr_flags E access))
      (\<lambda>a r. add_mr a \<lparr>m_raw = r, m_domain = d, m_buffer = buf, m_capacity = n,
         m_pending = 0, m_access = access\<rparr>) w)"
proof -
  have d: "d \<noteq> 0" using assms inv_nullD(3) [OF assms(1)] by auto
  have a: "access \<noteq> 0" "access AND NOT (SHIM_ACCESS_SEND OR SHIM_ACCESS_RECV) = 0"
    using assms(5) by (auto simp: SHIM_ACCESS_SEND_def SHIM_ACCESS_RECV_def)
  let ?send = "if access AND SHIM_ACCESS_SEND \<noteq> 0 then FI_SEND E else 0"
  have f: "(if access AND SHIM_ACCESS_RECV \<noteq> 0 then ?send OR FI_RECV E else ?send)
      = mr_flags E access"
    by (simp add: mr_flags_def)
  have ok: "\<not> (d = 0 \<or> buf = 0 \<or> n = 0 \<or> access = 0
      \<or> access AND NOT (SHIM_ACCESS_SEND OR SHIM_ACCESS_RECV) \<noteq> 0)"
    using assms(3,4) d a by blast
  show ?thesis
  proof (cases rule: calloc_cases [of E w])
    case (none p)
    then show ?thesis
      by (simp only: shim_mr_register_def open_step_def ok if_False simp_thms Let_def
          prod.case if_True)
  next
    case (block b p)
    obtain ret r p1 where new: "fi_mr_reg E (d_raw y) buf n (mr_flags E access) b p = ((ret, r), p1)"
      by (metis prod.exhaust)
    show ?thesis
      unfolding shim_mr_register_def open_step_def Let_def f
      using assms(2) block(1,2) new
      by (simp only: ok if_False simp_thms prod.case) (simp add: call_def add_mr_def bump_Some)
  qed
qed

lemma shim_op_create_cases:
  obtains (failed) p where "shim_op_create E n True w = Some ((- errno E FI_ENOMEM, 0), w\<lparr>prov := p\<rparr>)"
    | (made) a p where "a \<noteq> 0" "\<not> allocated w a"
      "shim_op_create E n True w = Some ((0, a), add_op a \<lparr>o_id = n, o_direction = 0, o_len = 0,
         o_cq = 0, o_mr = 0, o_next = 0, o_buf = 0\<rparr> (w\<lparr>prov := p\<rparr>))"
proof (cases rule: calloc_cases [of E w])
  case (none p)
  then show ?thesis by (intro failed [of p]) (simp add: shim_op_create_def)
next
  case (block a p)
  then show ?thesis by (intro made [of a p]) (simp_all add: shim_op_create_def add_op_def)
qed

subsection \<open>Listeners\<close>

lemma bump_undo:
  assumes "\<And>x. g (f x) = x"
  shows "bump g a (bump f a m) = m"
  by (rule ext) (simp add: bump_apply assms option.map_comp comp_def option.map_ident)

lemma del_add_listener:
  assumes "listeners w a = None"
  shows "del_listener a l (add_listener a l w) = w"
  using assms by (cases w) (simp add: del_listener_def add_listener_def bump_undo fun_upd_idem)

definition listener_opened :: "addr \<Rightarrow> addr \<Rightarrow> 'p world \<Rightarrow> (int \<times> addr) \<times> 'p world \<Rightarrow> bool" where
  "listener_opened f e w = (\<lambda>((r, a), w').
     (r \<noteq> 0 \<and> a = 0 \<and> same_heap w w') \<or>
     (a \<noteq> 0 \<and> \<not> allocated w a \<and> (\<exists>raw p. w' =
        add_listener a \<lparr>l_raw = raw, l_fabric = f, l_eq = e, l_ready = (r = 0)\<rparr> (w\<lparr>prov := p\<rparr>))))"

lemma listener_rollback:
  assumes "inv w" and "fabrics w (l_fabric l) \<noteq> None" and "eqs w (l_eq l) \<noteq> None"
    and "a \<noteq> 0" and "\<not> allocated w a"
  shows "shim_listener_close E a ((add_listener a l w)\<lparr>prov := p\<rparr>) =
    Some (let (c, p') = fi_close E (l_raw l) p
          in (c, if c = 0 then w\<lparr>prov := p'\<rparr> else (add_listener a l w)\<lparr>prov := p'\<rparr>))"
proof -
  have i: "inv ((add_listener a l w)\<lparr>prov := p\<rparr>)"
    using inv_add_listener [OF assms(1,4,5,2,3)] by simp
  have l: "listeners ((add_listener a l w)\<lparr>prov := p\<rparr>) a = Some l"
    by (simp add: add_listener_def)
  have n: "listeners w a = None" using fresh_maps [OF assms(5)] by simp
  have d: "del_listener a l ((add_listener a l w)\<lparr>prov := p'\<rparr>) = w\<lparr>prov := p'\<rparr>" for p'
    using del_add_listener [of "w\<lparr>prov := p'\<rparr>" a l] n
    by (simp add: del_listener_def add_listener_def)
  show ?thesis
    unfolding shim_listener_close_eq [OF i l]
    by (simp add: close_step_def call_def d split: prod.splits)
qed

lemma shim_listener_open_spec:
  assumes "inv w" and "errno_ok E" and "fabrics w f = Some y" and "infos w i \<noteq> None"
    and "eqs w e = Some z"
  shows "runs (shim_listener_open E f i e True w) (listener_opened f e w)"
proof -
  have nz: "f \<noteq> 0" "i \<noteq> 0" "e \<noteq> 0" using assms inv_nullD(1,2,4) [OF assms(1)] by auto
  obtain x where x: "infos w i = Some x" using assms(4) by auto
  show ?thesis
  proof (cases rule: calloc_cases [of E w])
    case (none p)
    then show ?thesis using assms(2,5) nz
      by (auto simp: shim_listener_open_def listener_opened_def)
  next
    case (block a p)
    show ?thesis
    proof (cases "e_fabric z = f")
      case False
      then show ?thesis using assms(2,5) nz
        by (auto simp: shim_listener_open_def listener_opened_def)
    next
      case True
      obtain ret r p1 where new: "fi_passive_ep E (f_raw y) (i_raw x) a p = ((ret, r), p1)"
        by (metis prod.exhaust)
      let ?l = "\<lparr>l_raw = r, l_fabric = f, l_eq = e, l_ready = False\<rparr>"
      let ?w = "add_listener a ?l w"
      obtain b p2 where b: "(if fst (fi_pep_bind E r (e_raw z) p1) = 0
          then fi_listen E r (snd (fi_pep_bind E r (e_raw z) p1))
          else fi_pep_bind E r (e_raw z) p1) = (b, p2)" by (metis prod.exhaust)
      have roll: "shim_listener_close E a (?w\<lparr>prov := p2\<rparr>) =
          Some (let (c, p') = fi_close E r p2
                in (c, if c = 0 then w\<lparr>prov := p'\<rparr> else ?w\<lparr>prov := p'\<rparr>))"
        using listener_rollback [OF assms(1), of ?l a E p2] assms(3,5) block(2,3) by simp
      have "shim_listener_open E f i e True w =
        (if ret \<noteq> 0 then Some ((ret, 0), w\<lparr>prov := p1\<rparr>)
         else if b \<noteq> 0 then Option.bind (shim_listener_close E a (?w\<lparr>prov := p2\<rparr>))
             (\<lambda>(c, w). Some ((b, if c \<noteq> 0 then a else 0), w))
         else Some ((0, a), add_listener a (?l\<lparr>l_ready := True\<rparr>) (w\<lparr>prov := p2\<rparr>)))"
        using nz assms(3,5) x block(1,2) True new b
        by (simp add: shim_listener_open_def call_def add_listener_def bump_Some Let_def
            split: prod.splits if_splits) auto
      then show ?thesis
        using block(2,3) roll
        by (auto simp: listener_opened_def ledger_prov Let_def split: prod.splits)
    qed
  qed
qed


subsection \<open>Endpoints\<close>

abbreviation cq_spoil :: "shim_cq \<Rightarrow> shim_cq" where
  "cq_spoil c \<equiv> c\<lparr>c_used := True, c_attached := False, c_retired := True\<rparr>"

text \<open>
  A rolled-back endpoint leaves the heap as it was, except that its two completion queues
  are retired and cannot be used by another endpoint.
\<close>

definition spoil_cqs :: "addr \<Rightarrow> addr \<Rightarrow> 'p world \<Rightarrow> 'p world" where
  "spoil_cqs t u w = w\<lparr>cqs := bump cq_spoil u (bump cq_spoil t (cqs w))\<rparr>"

lemma retire_ops_id:
  assumes "\<And>x op. h x = Some op \<Longrightarrow> o_cq op = q \<Longrightarrow> o_mr op = 0"
  shows "retire_ops q h = h"
proof (rule ext)
  fix x
  show "retire_ops q h x = h x"
    using assms [of x] by (cases "h x") (auto simp: retire_ops_def mapm_apply)
qed

lemma bump_bump: "bump g a (bump f a m) = bump (\<lambda>x. g (f x)) a m"
  by (rule ext) (simp add: bump_apply option.map_comp comp_def)

lemma bump_ident [simp]: "bump (\<lambda>x. x) a m = m"
  by (rule ext) (simp add: bump_apply option.map_ident)

lemma bump_swap: "a \<noteq> b \<Longrightarrow> bump g a (bump f b m) = bump f b (bump g a m)"
  by (rule ext) (simp add: bump_apply)

lemma del_add_endpoint:
  assumes "inv w" and "endpoints w a = None"
    and "cqs w (p_tx p) = Some t" and "cqs w (p_rx p) = Some r" and "p_tx p \<noteq> p_rx p"
    and "\<not> c_used t" and "\<not> c_used r"
  shows "del_endpoint a p (add_endpoint a p w) = spoil_cqs (p_tx p) (p_rx p) w"
proof -
  have unused: "\<not> c_attached t" "\<not> c_attached r"
    using cq_flagsD [OF assms(1,3)] cq_flagsD [OF assms(1,4)] assms(6,7)
    by (auto simp: cq_flags_ok_def)
  have idle: "o_mr op = 0" if "ops w x = Some op" "o_cq op = p_tx p \<or> o_cq op = p_rx p" for x op
    using cq_wfD [OF assms(1,3)] cq_wfD [OF assms(1,4)] unused that by (auto simp: cq_wf_def)
  have r: "retire_ops (p_tx p) (ops w) = ops w" "retire_ops (p_rx p) (ops w) = ops w"
    using idle by (auto intro!: retire_ops_id)
  have m: "recount (ops w) (mrs w) = mrs w"
    by (rule recount_id) (use assms(1) in \<open>simp add: inv_def inv_counts_def\<close>)
  have "(endpoints w)(a := None) = endpoints w" using assms(2) by (simp add: fun_upd_idem)
  then show ?thesis
    using assms(5) r m
    by (simp add: del_endpoint_def add_endpoint_def spoil_cqs_def Let_def bump_undo bump_bump
        bump_swap [of "p_tx p" "p_rx p"])
qed

definition endpoint_opened :: "addr \<Rightarrow> addr \<Rightarrow> addr \<Rightarrow> addr \<Rightarrow> 'p world
    \<Rightarrow> (int \<times> addr) \<times> 'p world \<Rightarrow> bool" where
  "endpoint_opened d e t u w = (\<lambda>((r, a), w').
     (r \<noteq> 0 \<and> a = 0 \<and> (\<exists>p. w' = w\<lparr>prov := p\<rparr> \<or> w' = (spoil_cqs t u w)\<lparr>prov := p\<rparr>)) \<or>
     (a \<noteq> 0 \<and> \<not> allocated w a \<and> (\<exists>raw n cl p. (r = 0 \<longrightarrow> \<not> cl) \<and> w' =
        add_endpoint a \<lparr>p_raw = raw, p_domain = d, p_eq = e, p_tx = t, p_rx = u, p_max_msg = n,
          p_ready = (r = 0), p_closing = cl\<rparr> (w\<lparr>prov := p\<rparr>))))"

lemma endpoint_opened_intros:
  "r \<noteq> 0 \<Longrightarrow> endpoint_opened d e t u w ((r, 0), w\<lparr>prov := p\<rparr>)"
  "r \<noteq> 0 \<Longrightarrow> endpoint_opened d e t u w ((r, 0), (spoil_cqs t u w)\<lparr>prov := p\<rparr>)"
  "a \<noteq> 0 \<Longrightarrow> \<not> allocated w a \<Longrightarrow> (r = 0 \<longrightarrow> \<not> cl) \<Longrightarrow> rd = (r = 0) \<Longrightarrow>
   endpoint_opened d e t u w ((r, a), (add_endpoint a \<lparr>p_raw = raw, p_domain = d, p_eq = e,
     p_tx = t, p_rx = u, p_max_msg = n, p_ready = rd, p_closing = cl\<rparr> w)\<lparr>prov := p\<rparr>)"
  by (auto simp: endpoint_opened_def ledger_prov)

lemma endpoint_rollback:
  fixes w :: "'p world"
  assumes "inv w" and "domains w (p_domain p) \<noteq> None" and "eqs w (p_eq p) \<noteq> None"
    and "cqs w (p_tx p) = Some t" and "cqs w (p_rx p) = Some r" and "p_tx p \<noteq> p_rx p"
    and "\<not> c_used t" and "\<not> c_used r" and "a \<noteq> 0" and "\<not> allocated w a"
  shows "shim_endpoint_close E a ((add_endpoint a p w)\<lparr>prov := s\<rparr>) =
    Some (let (c, s') = fi_close E (p_raw p) s
          in (c, if c = 0 then (spoil_cqs (p_tx p) (p_rx p) w)\<lparr>prov := s'\<rparr>
                 else (add_endpoint a (p\<lparr>p_closing := True\<rparr>) w)\<lparr>prov := s'\<rparr>))"
proof -
  have i: "inv ((add_endpoint a p w)\<lparr>prov := s\<rparr>)"
    using inv_add_endpoint [OF assms(1,9,10,2,3,4,5,6,7,8)] by simp
  have l: "endpoints ((add_endpoint a p w)\<lparr>prov := s\<rparr>) a = Some p"
    by (simp add: add_endpoint_def)
  have n: "endpoints w a = None" using fresh_maps [OF assms(10)] by simp
  have cl: "(add_endpoint a p w)\<lparr>prov := s, endpoints := (endpoints (add_endpoint a p w))
      (a \<mapsto> p\<lparr>p_closing := True\<rparr>)\<rparr> = (add_endpoint a (p\<lparr>p_closing := True\<rparr>) w)\<lparr>prov := s\<rparr>" for s
    by (simp add: add_endpoint_def)
  have d0: "del_endpoint a p (add_endpoint a (p\<lparr>p_closing := True\<rparr>) w) =
      del_endpoint a p (add_endpoint a p w)"
    by (simp add: del_endpoint_def add_endpoint_def Let_def)
  show ?thesis
    unfolding shim_endpoint_close_eq [OF i l]
    by (simp add: close_step_def call_def cl ledger_prov d0 n
        del_add_endpoint [OF assms(1) n assms(4,5,6,7,8)] split: prod.splits)
qed

lemma bind_endpoint_same:
  obtains b p where "bind_endpoint E r x y z w = (b, w\<lparr>prov := p\<rparr>)"
proof
  have "snd (bind_endpoint E r x y z w) = w\<lparr>prov := prov (snd (bind_endpoint E r x y z w))\<rparr>"
    by (auto simp: bind_endpoint_def call_def split: prod.split)
  then show "bind_endpoint E r x y z w = (fst (bind_endpoint E r x y z w),
      w\<lparr>prov := prov (snd (bind_endpoint E r x y z w))\<rparr>)"
    by (metis prod.collapse)
qed

lemma inv_spoil:
  assumes "inv w" and "cqs w t = Some ct" and "cqs w u = Some cu" and "t \<noteq> u"
    and "\<not> c_used ct" and "\<not> c_used cu"
    and "domains w d \<noteq> None" and "eqs w e \<noteq> None" and "a \<noteq> 0" and "\<not> allocated w a"
  shows "inv (spoil_cqs t u w)"
proof -
  let ?p = "\<lparr>p_raw = 0, p_domain = d, p_eq = e, p_tx = t, p_rx = u, p_max_msg = 0,
    p_ready = False, p_closing = False\<rparr>"
  have n: "endpoints w a = None" using fresh_maps [OF assms(10)] by simp
  have i: "inv (add_endpoint a ?p w)"
    using inv_add_endpoint [OF assms(1,9,10), of ?p ct cu] assms(2-8) by simp
  have l: "endpoints (add_endpoint a ?p w) a = Some ?p" by (simp add: add_endpoint_def)
  from inv_del_endpoint [OF i l] del_add_endpoint [OF assms(1) n, of ?p ct cu] assms(2-6)
  show ?thesis by simp
qed

text \<open>The function after its argument checks.\<close>

definition endpoint_create :: "'p lib \<Rightarrow> addr \<Rightarrow> addr \<Rightarrow> addr \<Rightarrow> addr \<Rightarrow> fi_info \<Rightarrow> fi_ep_attr \<Rightarrow> 'p world \<Rightarrow> 'p opened" where
  "endpoint_create E d e t u raw ea w =
     (let (obj, w) = calloc E w
      in if obj = 0 then Some ((- errno E FI_ENOMEM, 0), w)
         else do {
           d' \<leftarrow> domains w d;
           let ((ret, r), w) = call (fi_endpoint E (d_raw d') raw obj) w;
           if ret \<noteq> 0 then Some ((ret, 0), w)
           else do {
             e' \<leftarrow> eqs w e;
             t' \<leftarrow> cqs w t;
             u' \<leftarrow> cqs w u;
             let p = \<lparr>p_raw = r, p_domain = d, p_eq = e, p_tx = t, p_rx = u,
                      p_max_msg = max_msg_size ea, p_ready = False, p_closing = False\<rparr>;
             let w = set_endpoint obj p w;
             let w = set_domain d (domain_inc d') w;
             let w = set_eq e (eq_inc e') w;
             let w = set_cq t (cq_attach t') w;
             let w = set_cq u (cq_attach u') w;
             let (ret, w) = bind_endpoint E r (e_raw e') (c_raw t') (c_raw u') w;
             if ret \<noteq> 0 then
               (if fi_handle raw \<noteq> 0 then Some ((ret, obj), w)
                else do {
                  (c, w) \<leftarrow> shim_endpoint_close E obj w;
                  Some ((ret, if c \<noteq> 0 then obj else 0), w)
                })
             else Some ((0, obj), set_endpoint obj (p\<lparr>p_ready := True\<rparr>) w)
           }
         })"

lemma shim_endpoint_open_checked:
  assumes "domains w d = Some y" and "infos w i = Some x" and "eqs w e = Some z"
    and "cqs w t = Some ct" and "cqs w u = Some cu" and "0 \<notin> {d, i, e, t, u}"
    and "i_raw x = Some raw" and "ep_attr raw = Some ea" and "tx_op_flags raw = Some txf" and "rx_op_flags raw = Some rxf"
  shows "shim_endpoint_open E d i e t u True w =
    (if t = u \<or> c_domain ct \<noteq> d \<or> c_domain cu \<noteq> d \<or> e_fabric z \<noteq> d_fabric y \<or> c_used ct \<or> c_used cu
     then Some ((- errno E FI_EINVAL, 0), w)
     else if fi_mode raw AND NOT (FI_CONTEXT E OR FI_LOCAL_MR E) \<noteq> 0 \<or> txf \<noteq> 0 \<or> rxf \<noteq> 0
     then Some ((- errno E FI_ENOSYS, 0), w)
     else endpoint_create E d e t u raw ea w)"
proof -
  have args: "endpoint_args_bad d i e t u w = Some
      (t = u \<or> c_domain ct \<noteq> d \<or> c_domain cu \<noteq> d \<or> e_fabric z \<noteq> d_fabric y \<or> c_used ct \<or> c_used cu)"
    using assms(1,3-6) by (auto simp: endpoint_args_bad_def)
  show ?thesis
    by (simp only: shim_endpoint_open_def endpoint_create_def args Option.bind.simps if_True if_False simp_thms
        assms(2,7-10))
qed

lemma endpoint_create_spec:
  assumes "inv w" and "errno_ok E" and "domains w d = Some y" and "eqs w e = Some z"
    and "cqs w t = Some ct" and "cqs w u = Some cu" and "t \<noteq> u" and "\<not> c_used ct" and "\<not> c_used cu"
  shows "runs (endpoint_create E d e t u raw ea w) (\<lambda>x. endpoint_opened d e t u w x \<and> inv (snd x))"
proof (cases rule: calloc_cases [of E w])
  case (none p)
  then show ?thesis using assms(1,2) by (auto simp: endpoint_create_def endpoint_opened_def)
next
  case (block a p)
  obtain ret r p1 where new: "fi_endpoint E (d_raw y) raw a p = ((ret, r), p1)"
    by (metis prod.exhaust)
  let ?p = "\<lparr>p_raw = r, p_domain = d, p_eq = e, p_tx = t, p_rx = u,
    p_max_msg = max_msg_size ea, p_ready = False, p_closing = False\<rparr>"
  let ?w = "add_endpoint a ?p w"
  have w1: "w\<lparr>prov := p1, endpoints := (endpoints w)(a \<mapsto> ?p),
      domains := (domains w)(d \<mapsto> domain_inc y), eqs := (eqs w)(e \<mapsto> eq_inc z),
      cqs := (cqs w)(t \<mapsto> cq_attach ct, u \<mapsto> cq_attach cu)\<rparr> = ?w\<lparr>prov := p1\<rparr>"
    using assms(3-) by (cases w) (auto simp: add_endpoint_def bump_def)
  obtain b p2 where b: "bind_endpoint E r (e_raw z) (c_raw ct) (c_raw cu) (?w\<lparr>prov := p1\<rparr>) =
      (b, ?w\<lparr>prov := p2\<rparr>)"
    by (rule bind_endpoint_same [of E r "e_raw z" "c_raw ct" "c_raw cu" "?w\<lparr>prov := p1\<rparr>"]) simp
  have roll: "shim_endpoint_close E a (?w\<lparr>prov := p2\<rparr>) =
      Some (let (c, s') = fi_close E r p2
        in (c, if c = 0 then (spoil_cqs t u w)\<lparr>prov := s'\<rparr>
             else (add_endpoint a (?p\<lparr>p_closing := True\<rparr>) w)\<lparr>prov := s'\<rparr>))"
    using endpoint_rollback [OF assms(1), of ?p ct cu a E p2] assms(3-) block(2,3)
    by (simp split: prod.splits)
  have "endpoint_create E d e t u raw ea w =
    (if ret \<noteq> 0 then Some ((ret, 0), w\<lparr>prov := p1\<rparr>)
     else if b \<noteq> 0 then
       (if fi_handle raw \<noteq> 0 then Some ((b, a), ?w\<lparr>prov := p2\<rparr>)
        else Option.bind (shim_endpoint_close E a (?w\<lparr>prov := p2\<rparr>))
         (\<lambda>(c, w). Some ((b, if c \<noteq> 0 then a else 0), w)))
     else Some ((0, a), (add_endpoint a (?p\<lparr>p_ready := True\<rparr>) w)\<lparr>prov := p2\<rparr>))"
    unfolding endpoint_create_def using block(1,2) assms(3-) new w1 b
    by (auto simp: call_def Let_def add_endpoint_def)
  moreover have "inv (spoil_cqs t u w)"
    using assms(3-) block(2,3) by (intro inv_spoil [OF assms(1,5,6)]) auto
  moreover have "inv (add_endpoint a (?p\<lparr>p_ready := rd, p_closing := cl\<rparr>) w)" for rd cl
    using assms(3-) block(2,3) by (intro inv_add_endpoint [OF assms(1), of _ _ ct cu]) auto
  ultimately show ?thesis
    using assms(1) block(2,3) roll
    by (auto simp: Let_def intro!: endpoint_opened_intros split: prod.splits)
qed

lemma shim_endpoint_open_spec:
  assumes "inv w" and "errno_ok E" and "domains w d = Some y" and "infos w i \<noteq> None"
    and "eqs w e = Some z" and "cqs w t = Some ct" and "cqs w u = Some cu"
  shows "runs (shim_endpoint_open E d i e t u True w)
    (\<lambda>x. endpoint_opened d e t u w x \<and> inv (snd x))"
proof -
  have nz: "0 \<notin> {d, i, e, t, u}"
    using assms inv_nullD(1,3,4,5) [OF assms(1)] by auto
  obtain x where x: "infos w i = Some x" using assms(4) by auto
  obtain raw where raw: "i_raw x = Some raw" and wf: "info_wf raw"
    using assms(1) x by (auto simp: inv_def infos_wf_def)
  from wf obtain ea txf rxf where at: "ep_attr raw = Some ea" "tx_op_flags raw = Some txf"
    "rx_op_flags raw = Some rxf" by (auto simp: info_wf_def)
  have "endpoint_opened d e t u w ((r, 0), w)" if "r \<noteq> 0" for r
    using that by (auto simp: endpoint_opened_def intro: exI [of _ "prov w"])
  then show ?thesis
    using endpoint_create_spec [OF assms(1-3,5-7), of raw ea] assms(1,2)
    by (auto simp: shim_endpoint_open_checked [OF assms(3) x assms(5-7) nz raw at])
qed

subsection \<open>The invariant\<close>

lemma opened_inv:
  assumes "opened add w ((r, a), w')" and "inv w"
    and "\<And>a raw p. a \<noteq> 0 \<Longrightarrow> \<not> allocated w a \<Longrightarrow> inv (add a raw (w\<lparr>prov := p\<rparr>))"
  shows "inv w'"
  using assms(1) by (cases rule: opened_cases) (use assms(2,3) in auto)

end
