(* ===== verification/Shim_Refine_Io.thy ===== *)
theory Shim_Refine_Io
  imports Shim_Io Shim_Refine_Open
begin

text \<open>
  The data path of the shim against the ledger: polling an event queue adds at most one
  information record, posting starts exactly one operation or changes nothing, and polling
  a completion queue finishes exactly one operation of that queue, or none, next to the
  provider's own write into a buffer that is still lent to it.
\<close>

subsection \<open>Error text\<close>

lemma c_text_length: "length (c_text s) = SHIM_ERROR_TEXT_SIZE"
  by (simp add: c_text_def Let_def SHIM_ERROR_TEXT_SIZE_def min_def)

lemma c_text_terminated: "CHR 0x00 \<in> set (c_text s)"
  by (auto simp: c_text_def Let_def SHIM_ERROR_TEXT_SIZE_def min_def)

subsection \<open>Event queue\<close>

definition eq_polled :: "'p world \<Rightarrow> (int \<times> shim_connect_event) \<times> 'p world \<Rightarrow> bool" where
  "eq_polled w = (\<lambda>((r, ev), w').
     (ev_info ev = 0 \<and> ev_type ev \<noteq> SHIM_EVENT_CONNREQ \<and> same_heap w w') \<or>
     (r = 1 \<and> ev_type ev = SHIM_EVENT_CONNREQ \<and> ev_err ev = 0 \<and> ev_info ev \<noteq> 0 \<and>
      \<not> allocated w (ev_info ev) \<and> (\<exists>raw p. info_wf raw \<and>
        w' = add_info (ev_info ev) raw (take_info (w\<lparr>prov := p\<rparr>)))))"

lemma take_free_info: "fi_freeinfo (take_info w) = w"
  by (simp add: fi_freeinfo_def take_info_def)

lemma eq_read_error_polled: "eq_polled w (eq_read_error E e w)"
  by (auto simp: eq_read_error_def eq_polled_def call_def zero_event_def SHIM_EVENT_ERROR_def
      SHIM_EVENT_CONNREQ_def split: prod.splits)

lemma eq_polled_prov: "eq_polled (w\<lparr>prov := p\<rparr>) x \<Longrightarrow> eq_polled w x"
  by (auto simp: eq_polled_def same_heap_def)

text \<open>The switch over an entry that was read: \<open>a\<close> is the handle allocated in advance for a request.\<close>

lemma eq_entry_polled:
  assumes "a \<noteq> 0" and "\<not> allocated w a" and "\<And>i. cm_info entry = Some i \<Longrightarrow> info_wf i"
  shows "runs (let w = (if cm_info entry \<noteq> None then take_info (w\<lparr>prov := p\<rparr>) else w\<lparr>prov := p\<rparr>);
      out = zero_event\<lparr>ev_source := s\<rparr> in
    case ev of
      FI_CONNREQ \<Rightarrow>
        (case cm_info entry of
           None \<Rightarrow> Some ((- errno E FI_EIO, out), w)
         | Some info \<Rightarrow> Some ((1, out\<lparr>ev_info := a, ev_type := SHIM_EVENT_CONNREQ\<rparr>),
             w\<lparr>infos := (infos w)(a \<mapsto> \<lparr>i_raw = Some info\<rparr>)\<rparr>))
    | FI_CONNECTED \<Rightarrow> Some ((1, out\<lparr>ev_type := SHIM_EVENT_CONNECTED\<rparr>), free_entry_info entry w)
    | FI_SHUTDOWN \<Rightarrow> Some ((1, out\<lparr>ev_type := SHIM_EVENT_SHUTDOWN\<rparr>), free_entry_info entry w)
    | FI_EVENT_OTHER _ \<Rightarrow> Some ((- errno E FI_ENOSYS, out), free_entry_info entry w)) (eq_polled w)"
proof -
  let ?w = "w\<lparr>prov := p\<rparr>" and ?ev = "zero_event\<lparr>ev_source := s\<rparr>"
  have "cm_info entry \<noteq> None \<Longrightarrow> free_entry_info entry (take_info ?w) = ?w"
    "cm_info entry = None \<Longrightarrow> free_entry_info entry ?w = ?w"
    by (simp_all add: free_entry_info_def take_free_info)
  moreover have "eq_polled w ((1, ?ev\<lparr>ev_info := a, ev_type := SHIM_EVENT_CONNREQ\<rparr>),
      take_info ?w\<lparr>infos := (infos (take_info ?w))(a \<mapsto> \<lparr>i_raw = Some i\<rparr>)\<rparr>)"
    if "cm_info entry = Some i" for i
    using assms(3) [OF that] assms(1,2)
    by (auto simp: eq_polled_def zero_event_def add_info_def)
  moreover have "eq_polled w ((r, ?ev\<lparr>ev_type := t\<rparr>), ?w)" if "t \<noteq> SHIM_EVENT_CONNREQ" for r t
    using that by (simp add: eq_polled_def zero_event_def)
  moreover have "eq_polled w ((r, ?ev), ?w)" for r
    by (simp add: eq_polled_def zero_event_def SHIM_EVENT_CONNREQ_def)
  moreover have "SHIM_EVENT_CONNECTED \<noteq> SHIM_EVENT_CONNREQ" "SHIM_EVENT_SHUTDOWN \<noteq> SHIM_EVENT_CONNREQ"
    by (simp_all add: SHIM_EVENT_CONNREQ_def SHIM_EVENT_CONNECTED_def SHIM_EVENT_SHUTDOWN_def)
  ultimately show ?thesis
    by (cases ev) (simp_all add: Let_def split: option.split)
qed

lemma shim_eq_poll_spec:
  assumes "inv w" and "errno_ok E" and "infos_ok E" and "eqs w e = Some z"
  shows "runs (shim_eq_poll E e True w) (eq_polled w)"
proof -
  have nz: "e \<noteq> 0" using assms inv_nullD(4) [OF assms(1)] by auto
  have idle: "eq_polled w ((r, zero_event), w\<lparr>prov := p\<rparr>)" for r p
    by (simp add: eq_polled_def zero_event_def SHIM_EVENT_CONNREQ_def)
  show ?thesis
  proof (cases rule: calloc_cases [of E w])
    case (none p)
    then show ?thesis using nz assms(4) idle by (simp add: shim_eq_poll_def)
  next
    case (block a p)
    obtain ret ev entry p1 where rd: "fi_eq_read E (e_raw z) p = ((ret, ev, entry), p1)"
      by (metis prod.exhaust)
    have err: "eq_polled w (eq_read_error E z (w\<lparr>prov := p1\<rparr>))"
      by (rule eq_polled_prov [OF eq_read_error_polled])
    have wf: "cm_info entry = Some i \<Longrightarrow> info_wf i" for i using infos_okD(3) [OF assms(3) rd] .
    show ?thesis
      unfolding shim_eq_poll_def call_def using nz assms(4) block(1,2) rd err idle
        eq_entry_polled [of a w entry p1 "source_of (cm_source entry)" E ev, OF block(2,3) wf]
      by (simp split del: if_split cong del: if_weak_cong) (simp add: Let_def)
  qed
qed

subsection \<open>Posting\<close>

definition posted_op :: "shim_op \<Rightarrow> bool \<Rightarrow> size_t \<Rightarrow> addr \<Rightarrow> addr \<Rightarrow> addr \<Rightarrow> addr \<Rightarrow> shim_op" where
  "posted_op x receive n mr cq next buf =
     x\<lparr>o_direction := (if receive then SHIM_COMPLETION_RECV else SHIM_COMPLETION_SEND),
       o_len := n, o_mr := mr, o_cq := cq, o_next := next, o_buf := buf\<rparr>"

lemma region_fits:
  fixes d n cap :: size_t
  assumes "\<not> d > cap" and "\<not> n > cap - d"
  shows "unat d + unat n \<le> unat cap"
proof -
  have "d \<le> cap" and "n \<le> cap - d" using assms by simp_all
  then have "unat n \<le> unat cap - unat d"
    by (metis unat_sub word_le_nat_alt)
  moreover have "unat d \<le> unat cap" using \<open>d \<le> cap\<close> by (simp add: word_le_nat_alt)
  ultimately show ?thesis by simp
qed

lemma read_region_ok:
  assumes "inv w" and "mrs w mr = Some m" and "unat (buf - m_buffer m) + unat n \<le> unat (m_capacity m)"
  shows "\<exists>bs. read_region m buf n w = Some bs \<and> length bs = unat n"
proof -
  from assms(1,2) obtain bs where "mem w (m_buffer m) = Some bs" "unat (m_capacity m) \<le> length bs"
    by (auto simp: inv_def mrs_backed_def mr_backed_def)
  with assms(3) show ?thesis by (simp add: read_region_def Let_def)
qed

definition post_checks :: "'p lib \<Rightarrow> shim_endpoint \<Rightarrow> shim_op \<Rightarrow> shim_mr \<Rightarrow> shim_cq \<Rightarrow> size_t \<Rightarrow> addr
    \<Rightarrow> bool \<Rightarrow> int" where
  "post_checks E p x m c n buf receive =
     (if buf = 0 \<or> \<not> p_ready p \<or> p_closing p \<or> m_domain m \<noteq> p_domain p then - errno E FI_EINVAL
      else if o_cq x \<noteq> 0 then - errno E FI_EBUSY
      else if m_access m AND (if receive then SHIM_ACCESS_RECV else SHIM_ACCESS_SEND) = 0
      then - errno E FI_EACCES
      else if buf < m_buffer m \<or> buf - m_buffer m > m_capacity m
        \<or> n > m_capacity m - (buf - m_buffer m) \<or> n > p_max_msg p then - errno E FI_EINVAL
      else if c_count c \<ge> c_capacity c then - errno E FI_EAGAIN
      else 0)"

text \<open>
  What a post does, on every branch: a failed check returns its code with the world
  untouched, a refusal of the provider changes the provider only, and otherwise exactly
  one operation is started on the endpoint's queue.
\<close>

lemma post_message_eq:
  assumes "inv w" and "errno_ok E" and "endpoints w ep = Some p" and "mrs w mr = Some m"
    and "ops w op = Some x" and "cqs w (if receive then p_rx p else p_tx p) = Some c"
  shows "\<exists>ret s. post_message E ep op mr n buf receive w = Some
    (if post_checks E p x m c n buf receive \<noteq> 0 then (post_checks E p x m c n buf receive, w)
     else if ret \<noteq> 0 then (c_int ret, w\<lparr>prov := s\<rparr>)
     else (0, start_op op (posted_op x receive n mr (if receive then p_rx p else p_tx p)
                (c_pending c) buf) (w\<lparr>prov := s\<rparr>)))"
proof (cases "post_checks E p x m c n buf receive = 0")
  case False
  have nz: "ep \<noteq> 0" "mr \<noteq> 0" "op \<noteq> 0" using assms inv_nullD(7-9) [OF assms(1)] by auto
  show ?thesis
  proof (cases "buf = 0")
    case True
    then show ?thesis by (simp add: post_message_def post_checks_def assms(2))
  next
    case b: False
    from False have e: "post_checks E p x m c n buf receive \<noteq> 0" .
    show ?thesis
      using e b nz assms(3-6)
      by (simp add: post_message_def Let_def) (auto simp: post_checks_def)
  qed
next
  case True
  have nz: "ep \<noteq> 0" "mr \<noteq> 0" "op \<noteq> 0" using assms inv_nullD(7-9) [OF assms(1)] by auto
  have ok: "buf \<noteq> 0" "p_ready p" "\<not> p_closing p" "m_domain m = p_domain p" "o_cq x = 0"
    "m_access m AND (if receive then SHIM_ACCESS_RECV else SHIM_ACCESS_SEND) \<noteq> 0"
    and room: "\<not> (buf < m_buffer m \<or> buf - m_buffer m > m_capacity m
        \<or> n > m_capacity m - (buf - m_buffer m) \<or> n > p_max_msg p)"
    and slot: "\<not> c_count c \<ge> c_capacity c"
    using True assms(2) unfolding post_checks_def by (auto split: if_splits)
  have "unat (buf - m_buffer m) + unat n \<le> unat (m_capacity m)"
    using room by (intro region_fits) auto
  then obtain bs where bs: "read_region m buf n w = Some bs"
    using read_region_ok [OF assms(1,4)] by blast
  let ?f = "if receive then fi_recv E (p_raw p) buf n (fi_mr_desc E (m_raw m)) op
    else fi_send E (p_raw p) bs (fi_mr_desc E (m_raw m)) op"
  obtain ret s where call: "?f (prov w) = (ret, s)" by (metis prod.exhaust)
  have "post_message E ep op mr n buf receive w = Some
    (if ret \<noteq> 0 then (c_int ret, w\<lparr>prov := s\<rparr>)
     else (0, start_op op (posted_op x receive n mr (if receive then p_rx p else p_tx p)
                (c_pending c) buf) (w\<lparr>prov := s\<rparr>)))"
    using nz assms(3-6) ok room slot bs call
    by (cases receive; cases w)
      (simp_all add: post_message_def Let_def call_def start_op_def posted_op_def bump_Some)
  with True show ?thesis by auto
qed

lemma post_checks_ok:
  assumes "post_checks E p x m c n buf receive = 0" and "errno_ok E"
  shows "p_ready p" and "\<not> p_closing p" and "o_cq x = 0" and "c_count c < c_capacity c"
    and "m_domain m = p_domain p" and "buf \<noteq> 0"
    and "in_region (posted_op x receive n mr cq next buf) m"
proof -
  show "p_ready p" and "\<not> p_closing p" and "o_cq x = 0" and "c_count c < c_capacity c"
    and "m_domain m = p_domain p" and "buf \<noteq> 0"
    using assms unfolding post_checks_def by (auto split: if_splits)
  have "\<not> buf - m_buffer m > m_capacity m" "\<not> n > m_capacity m - (buf - m_buffer m)"
    using assms unfolding post_checks_def by (auto split: if_splits)
  then show "in_region (posted_op x receive n mr cq next buf) m"
    unfolding in_region_def posted_op_def by (simp add: region_fits)
qed

lemma inv_posted:
  assumes "inv w" and "errno_ok E" and "endpoints w ep = Some p" and "mrs w mr = Some m"
    and "ops w op = Some x" and "cqs w (if receive then p_rx p else p_tx p) = Some c"
    and "post_checks E p x m c n buf receive = 0"
  shows "inv (start_op op (posted_op x receive n mr (if receive then p_rx p else p_tx p)
                (c_pending c) buf) (w\<lparr>prov := s\<rparr>))"
proof (rule inv_start_op)
  note ok = post_checks_ok [OF assms(7,2)]
  have "user_of (endpoints w) (if receive then p_rx p else p_tx p) ep"
    using assms(3) by (simp add: user_of_def uses_cq_def)
  then show "c_attached c"
    using cq_flagsD [OF assms(1,6)] by (auto simp: cq_flags_ok_def)
  show "in_region (posted_op x receive n mr (if receive then p_rx p else p_tx p)
      (c_pending c) buf) m" by (rule ok)
  show "c_count c < c_capacity c" by (rule ok)
  show "o_cq x = 0" by (rule ok)
qed (use assms in \<open>simp_all add: posted_op_def\<close>)

subsection \<open>Completion queue\<close>

lemma find_link_absent:
  assumes "chain h p xs" and "ctx \<notin> set xs"
  shows "find_link h ctx prev p = Some (if xs = [] then prev else last xs, 0)"
  using assms
proof (induction xs arbitrary: p prev)
  case Nil
  then show ?case by (subst find_link.simps) simp
next
  case (Cons x xs)
  then obtain op where "p = x" "x \<noteq> 0" "h x = Some op" "chain h (o_next op) xs"
    by (auto split: option.splits)
  with Cons show ?case by (subst find_link.simps) auto
qed

lemma find_link_present:
  assumes "chain h p (as @ ctx # bs)" and "ctx \<notin> set as"
  shows "find_link h ctx prev p = Some (if as = [] then prev else last as, ctx)"
  using assms
proof (induction as arbitrary: p prev)
  case Nil
  then show ?case by (subst find_link.simps) (auto split: option.splits)
next
  case (Cons x xs)
  then obtain op where "p = x" "x \<noteq> 0" "h x = Some op" "chain h (o_next op) (xs @ ctx # bs)"
    by (auto split: option.splits)
  with Cons show ?case by (subst find_link.simps) auto
qed

text \<open>Unlinking and releasing the operation is one \<open>finish_op\<close>.\<close>

lemma unlink_release:
  assumes "inv w" and "cqs w (o_cq op) = Some c" and "ops w x = Some op" and "x \<noteq> prev"
    and "prev = 0 \<or> ops w prev \<noteq> None"
  shows "Option.bind (unlink_op (o_cq op) prev x w) (release_op x) = Some (finish_op prev x op w)"
proof -
  have null: "ops w 0 = None" "mrs w 0 = None" using assms(1) by (rule inv_nullD)+
  have mr: "o_mr op \<noteq> 0 \<longrightarrow> mrs w (o_mr op) \<noteq> None" using op_mr_live [OF assms(1,3)] by auto
  show ?thesis
  proof (cases "prev = 0")
    case True
    then show ?thesis
      using assms(2-4) null mr
      by (cases w) (auto simp: unlink_op_def release_op_def finish_op_def unborrow_eq bump_Some
          bump_absent)
  next
    case False
    then obtain o' where "ops w prev = Some o'" using assms(5) by auto
    then show ?thesis
      using False assms(2-4) null mr
      by (cases w) (auto simp: unlink_op_def release_op_def finish_op_def unborrow_eq bump_Some)
  qed
qed

text \<open>
  The provider's write: at most one live block changes, it keeps its size, it backs the
  region of a receive in flight, and only the posted window of it changes.
\<close>

definition wrote :: "'p world \<Rightarrow> 'p world \<Rightarrow> bool" where
  "wrote w w' \<longleftrightarrow> same_heap w w' \<or>
     (\<exists>x op m bs bs' p. ops w x = Some op \<and> o_mr op \<noteq> 0 \<and> o_direction op = SHIM_COMPLETION_RECV \<and>
        mrs w (o_mr op) = Some m \<and> mem w (m_buffer m) = Some bs \<and> length bs' = length bs \<and>
        (let off = unat (o_buf op - m_buffer m); lim = off + unat (o_len op)
         in take off bs' = take off bs \<and> drop lim bs' = drop lim bs) \<and>
        w' = w\<lparr>mem := (mem w)(m_buffer m \<mapsto> bs'), prov := p\<rparr>)"

lemma wrote_prov [simp, intro]: "wrote w (w\<lparr>prov := p\<rparr>)"
  by (simp add: wrote_def)

lemma wrote_same:
  assumes "wrote w w'"
  shows "infos w' = infos w" "fabrics w' = fabrics w" "domains w' = domains w" "eqs w' = eqs w"
    "cqs w' = cqs w" "listeners w' = listeners w" "endpoints w' = endpoints w" "mrs w' = mrs w"
    "ops w' = ops w" "ticks w' = ticks w" "fi_lists w' = fi_lists w" "console w' = console w"
  using assms by (auto simp: wrote_def same_heap_def)

lemma wrote_inv:
  assumes "wrote w w'" and "inv w"
  shows "inv w'"
  using assms(1) unfolding wrote_def
proof (elim disjE exE conjE)
  fix x op m bs bs' p
  assume "mem w (m_buffer m) = Some bs" "length bs' = length bs"
    and w': "w' = w\<lparr>mem := (mem w)(m_buffer m \<mapsto> bs'), prov := p\<rparr>"
  then have "inv (w\<lparr>mem := (mem w)(m_buffer m \<mapsto> bs')\<rparr>\<lparr>prov := p\<rparr>)"
    using inv_mem [OF assms(2)] by simp
  then show "inv w'" by (simp add: w')
qed (use assms(2) in \<open>auto simp: same_heap_def\<close>)

lemma wrote_mem:
  assumes "wrote w w'"
  shows "dom (mem w') = dom (mem w)" and "map_option length (mem w' a) = map_option length (mem w a)"
  using assms by (auto simp: wrote_def same_heap_def split: if_splits)

text \<open>In a well-formed world the write never touches freed memory.\<close>

lemma deliver_ok:
  assumes "inv w"
  shows "\<exists>w'. deliver ctx data w = Some w' \<and> wrote w w'"
proof (cases "\<exists>op. ops w ctx = Some op \<and> o_mr op \<noteq> 0 \<and> o_direction op = SHIM_COMPLETION_RECV")
  case False
  have "wrote w w" by (simp add: wrote_def)
  with False show ?thesis by (auto simp: deliver_def split: option.splits)
next
  case True
  then obtain op where op: "ops w ctx = Some op" "o_mr op \<noteq> 0"
    "o_direction op = SHIM_COMPLETION_RECV" by blast
  from op_mr_live [OF assms op(1,2)] obtain m where m: "mrs w (o_mr op) = Some m"
    and fit: "unat (o_buf op - m_buffer m) + unat (o_len op) \<le> unat (m_capacity m)"
    by (auto simp: in_region_def)
  from assms m obtain bs where bs: "mem w (m_buffer m) = Some bs" "unat (m_capacity m) \<le> length bs"
    by (auto simp: inv_def mrs_backed_def mr_backed_def)
  define off d where "off = unat (o_buf op - m_buffer m)" and "d = take (unat (o_len op)) data"
  let ?bs = "take off bs @ d @ drop (off + length d) bs"
  have len: "off + unat (o_len op) \<le> length bs" "length d \<le> unat (o_len op)"
    using fit bs(2) by (simp_all add: off_def d_def)
  have w: "deliver ctx data w = Some (w\<lparr>mem := (mem w)(m_buffer m \<mapsto> ?bs)\<rparr>)"
    using op m bs(1) len by (simp add: deliver_def Let_def off_def [symmetric] d_def [symmetric])
  have "drop (off + unat (o_len op)) ?bs = drop (off + unat (o_len op)) bs"
    using len by (simp add: add.commute)
  then have "wrote w (w\<lparr>mem := (mem w)(m_buffer m \<mapsto> ?bs)\<rparr>)"
    unfolding wrote_def
    using op m bs(1) len
    by (intro disjI2 exI [of _ ctx] exI [of _ op] exI [of _ m] exI [of _ bs] exI [of _ ?bs]
        exI [of _ "prov w"]) (simp add: off_def [symmetric])
  with w show ?thesis by blast
qed

lemma wrote_trans_prov: "wrote (w\<lparr>prov := p\<rparr>) w' \<Longrightarrow> wrote w w'"
  by (auto simp: wrote_def same_heap_def Let_def)

lemma cq_read_entry_spec:
  assumes "inv w"
  shows "runs (cq_read_entry E c w) (\<lambda>(r, w'). wrote w w' \<and>
    (case r of Inl _ \<Rightarrow> True | Inr y \<Rightarrow> op_id (snd y) = 0))"
proof -
  have d: "runs (deliver x y (w\<lparr>prov := p\<rparr>)) (wrote w)" for x y p
    using deliver_ok [of "w\<lparr>prov := p\<rparr>" x y] assms wrote_trans_prov by (auto simp: runs_Ex)
  obtain ret entry p1 where rd: "fi_cq_read E (c_raw c) (prov w) = ((ret, entry), p1)"
    by (metis prod.exhaust)
  obtain ret' error p2 where er: "fi_cq_readerr E (c_raw c) p1 = ((ret', error), p2)"
    by (metis prod.exhaust)
  show ?thesis
    using d unfolding cq_read_entry_def call_def Let_def rd by (simp add: er zero_completion_def)
qed

definition cq_polled :: "addr \<Rightarrow> shim_cq \<Rightarrow> 'p world \<Rightarrow> (int \<times> shim_completion) \<times> 'p world \<Rightarrow> bool" where
  "cq_polled q c w = (\<lambda>((r, out), w'). (wrote w w' \<and> op_id out = 0) \<or>
     (r = 1 \<and> (\<exists>w1 prev x op as bs. wrote w w1 \<and> ops w x = Some op \<and> o_cq op = q \<and>
        chain (ops w) (c_pending c) (as @ x # bs) \<and> prev = (if as = [] then 0 else last as) \<and>
        w' = finish_op prev x op w1 \<and> op_id out = o_id op \<and> flags out = o_direction op \<and>
        (err out \<noteq> 0 \<longrightarrow> len out = 0) \<and>
        (err out = 0 \<and> o_direction op = SHIM_COMPLETION_SEND \<longrightarrow> len out = o_len op))))"

text \<open>A context that is in flight on this queue is found, unlinked and released.\<close>

lemma pending_hit:
  assumes "inv w" and "cqs w q = Some c" and "chain (ops w) (c_pending c) xs" and "ctx \<in> set xs"
  obtains prev op as bs where "ops w ctx = Some op" "o_cq op = q" "ctx \<noteq> 0"
    "chain (ops w) (c_pending c) (as @ ctx # bs)" "prev = (if as = [] then 0 else last as)"
    "find_link (ops w) ctx 0 (c_pending c) = Some (prev, ctx)"
    "Option.bind (unlink_op q prev ctx w) (release_op ctx) = Some (finish_op prev ctx op w)"
    "inv (finish_op prev ctx op w)"
proof -
  obtain ys where ys: "chain (ops w) (c_pending c) ys" "distinct ys"
    and mem: "\<And>x. x \<in> set ys \<longleftrightarrow> (\<exists>op. ops w x = Some op \<and> o_cq op = q)"
    using cq_wfD [OF assms(1,2)] by (rule cq_wfE) (rule that, assumption+)
  have xs: "ys = xs" using chain_det [OF ys(1) assms(3)] .
  then obtain as bs where split: "xs = as @ ctx # bs" using assms(4) by (meson split_list)
  from mem [of ctx] assms(4) obtain op where op: "ops w ctx = Some op" "o_cq op = q" by (auto simp: xs)
  have cz: "ctx \<noteq> 0" using op inv_nullD(9) [OF assms(1)] by auto
  define prev where "prev = (if as = [] then 0 else last as)"
  have link: "find_link (ops w) ctx 0 (c_pending c) = Some (prev, ctx)"
    using find_link_present [of "ops w" "c_pending c" as ctx bs 0] ys xs split by (simp add: prev_def)
  have "prev \<noteq> ctx" using ys(2) xs cz by (auto simp: split prev_def)
  moreover have "prev = 0 \<or> ops w prev \<noteq> None" using mem [of prev] by (auto simp: xs split prev_def)
  ultimately have fin: "Option.bind (unlink_op q prev ctx w) (release_op ctx) = Some (finish_op prev ctx op w)"
    using unlink_release [OF assms(1), of op c ctx prev] op assms(2) by simp
  have "inv (finish_op prev ctx op w)"
    by (rule inv_finish_op [OF assms(1), of _ _ c as bs]) (use op assms(2,3) in \<open>simp_all add: split prev_def\<close>)
  with that [OF op cz _ prev_def link fin] show thesis using assms(3) split by simp
qed

lemma shim_cq_poll_read:
  assumes "inv w1" and "wrote w w1" and "cqs w q = Some c" and "\<not> c_retired c" and "q \<noteq> 0"
    and "cq_read_entry E c w = Some (Inr (ctx, out), w1)" and "op_id out = 0"
  shows "runs (shim_cq_poll E q True w) (\<lambda>x. cq_polled q c w x \<and> inv (snd x))"
proof -
  note same = wrote_same [OF assms(2)]
  have c1: "cqs w1 q = Some c" using assms(3) by (simp add: same)
  obtain xs where xs: "chain (ops w1) (c_pending c) xs"
    using cq_wfD [OF assms(1) c1] by (rule cq_wfE)
  show ?thesis
  proof (cases "ctx \<in> set xs")
    case absent: False
    have "find_link (ops w1) ctx 0 (c_pending c) = Some (if xs = [] then 0 else last xs, 0)"
      using find_link_absent [OF xs absent] by simp
    then show ?thesis using assms by (simp add: shim_cq_poll_def cq_polled_def)
  next
    case True
    obtain prev op as bs where op: "ops w1 ctx = Some op" "o_cq op = q" "ctx \<noteq> 0"
      and ch: "chain (ops w1) (c_pending c) (as @ ctx # bs)" "prev = (if as = [] then 0 else last as)"
      and link: "find_link (ops w1) ctx 0 (c_pending c) = Some (prev, ctx)"
      and fin: "Option.bind (unlink_op q prev ctx w1) (release_op ctx) = Some (finish_op prev ctx op w1)"
      and ifin: "inv (finish_op prev ctx op w1)"
      using pending_hit [OF assms(1) c1 xs True] by metis
    have fin': "Option.bind (unlink_op q prev ctx w1) (\<lambda>w. Option.bind (release_op ctx w) f) =
        f (finish_op prev ctx op w1)" for f :: "'a world \<Rightarrow> ((int \<times> shim_completion) \<times> 'a world) option"
      using fin by (simp flip: Option.bind_assoc)
    let ?out = "out\<lparr>op_id := o_id op, flags := o_direction op\<rparr>"
    let ?out' = "if err ?out \<noteq> 0 then ?out\<lparr>len := 0\<rparr>
      else if o_direction op = SHIM_COMPLETION_SEND then ?out\<lparr>len := o_len op\<rparr> else ?out"
    have eq: "shim_cq_poll E q True w = Some ((1, ?out'), finish_op prev ctx op w1)"
      using assms link op by (simp add: shim_cq_poll_def fin' Let_def)
    have "op_id ?out' = o_id op" "flags ?out' = o_direction op" "err ?out' \<noteq> 0 \<longrightarrow> len ?out' = 0"
      "err ?out' = 0 \<and> o_direction op = SHIM_COMPLETION_SEND \<longrightarrow> len ?out' = o_len op"
      by simp_all
    then have "cq_polled q c w ((1, ?out'), finish_op prev ctx op w1)"
      using assms(2) op(1,2) ch unfolding cq_polled_def same by blast
    with eq show ?thesis using ifin by simp
  qed
qed

lemma shim_cq_poll_spec:
  assumes "inv w" and "cqs w q = Some c"
  shows "runs (shim_cq_poll E q True w) (\<lambda>x. cq_polled q c w x \<and> inv (snd x))"
proof -
  have nz: "q \<noteq> 0" using assms inv_nullD(5) [OF assms(1)] by auto
  show ?thesis
  proof (cases "c_retired c")
    case True
    have "wrote w w" by (simp add: wrote_def)
    with True show ?thesis using nz assms
      by (simp add: shim_cq_poll_def cq_polled_def zero_completion_def)
  next
    case False
    obtain r w1 where rd: "cq_read_entry E c w = Some (r, w1)" and w1: "wrote w w1"
      and id: "case r of Inl _ \<Rightarrow> True | Inr y \<Rightarrow> op_id (snd y) = 0"
      using cq_read_entry_spec [OF assms(1), of E c] by (auto simp: runs_Ex)
    have i1: "inv w1" using w1 assms(1) by (rule wrote_inv)
    show ?thesis
    proof (cases r)
      case (Inl ret)
      then show ?thesis using nz False assms(2) rd w1 i1
        by (simp add: shim_cq_poll_def cq_polled_def zero_completion_def)
    next
      case (Inr y)
      with shim_cq_poll_read [OF i1 w1 assms(2) False nz] rd id show ?thesis by (cases y) simp
    qed
  qed
qed

end
