(* ===== verification/Shim_Refine_Info.thy ===== *)
theory Shim_Refine_Info
  imports Shim_Refine_Open
begin

text \<open>
  The configuration query against the ledger: on every branch the hints and the result
  list are freed again, a failure leaves no object behind, and success adds one
  information record, a copy of the first acceptable candidate.
\<close>

subsection \<open>Candidate selection\<close>

lemma select_info_first:
  "select_info E d s ps = Some p \<longleftrightarrow>
     (\<exists>as bs. ps = as @ p # bs \<and> info_selectable E d s p \<and> (\<forall>q\<in>set as. \<not> info_selectable E d s q))"
proof (induction ps)
  case (Cons q ps)
  show ?case
  proof (cases "info_selectable E d s q")
    case True
    have "p = q \<longleftrightarrow> (\<exists>as bs. q # ps = as @ p # bs \<and> info_selectable E d s p
        \<and> (\<forall>q\<in>set as. \<not> info_selectable E d s q))" (is "_ = ?r")
    proof
      assume "p = q"
      with True show ?r by (intro exI [of _ "[]"] exI [of _ ps]) simp
    next
      assume ?r
      then obtain as bs where "q # ps = as @ p # bs" "\<forall>q\<in>set as. \<not> info_selectable E d s q"
        by blast
      with True show "p = q" by (cases as) auto
    qed
    with True show ?thesis by auto
  next
    case False
    then show ?thesis
      unfolding select_info.simps using Cons.IH
      by (auto simp: Cons_eq_append_conv intro: exI [of _ "q # _"]) (metis append_Cons set_ConsD)
  qed
qed simp

lemma select_info_none: "select_info E d s ps = None \<longleftrightarrow> (\<forall>p\<in>set ps. \<not> info_selectable E d s p)"
  by (induction ps) auto

lemma select_info_selectable: "select_info E d s ps = Some p \<Longrightarrow> info_selectable E d s p"
  by (auto simp: select_info_first)

lemma info_selectable_wf: "info_selectable E d s p \<Longrightarrow> info_wf p"
  by (auto simp: info_selectable_def info_wf_def split: option.splits if_splits)

subsection \<open>The query\<close>

definition query_result :: "'p world \<Rightarrow> (int \<times> addr) \<times> 'p world \<Rightarrow> bool" where
  "query_result w = (\<lambda>((r, a), w').
     (r \<noteq> 0 \<and> a = 0 \<and> (\<exists>p ms. w' = w\<lparr>prov := p, console := console w @ ms\<rparr>)) \<or>
     (r = 0 \<and> a \<noteq> 0 \<and> \<not> allocated w a \<and> (\<exists>raw p. info_wf raw \<and>
        w' = take_info (add_info a raw (w\<lparr>prov := p\<rparr>)))))"

lemma query_resultI:
  "r \<noteq> 0 \<Longrightarrow> query_result w ((r, 0), w\<lparr>prov := p, console := console w @ ms\<rparr>)"
  "r \<noteq> 0 \<Longrightarrow> query_result w ((r, 0), w\<lparr>prov := p\<rparr>)"
  "r \<noteq> 0 \<Longrightarrow> query_result w ((r, 0), w\<lparr>console := console w @ ms\<rparr>)"
  "r \<noteq> 0 \<Longrightarrow> query_result w ((r, 0), w)"
proof -
  have "w\<lparr>prov := p\<rparr> = w\<lparr>prov := p, console := console w @ []\<rparr>"
    and "w\<lparr>console := console w @ ms\<rparr> = w\<lparr>prov := prov w, console := console w @ ms\<rparr>"
    and "w = w\<lparr>prov := prov w, console := console w @ []\<rparr>" for p ms
    by simp_all
  then show "r \<noteq> 0 \<Longrightarrow> query_result w ((r, 0), w\<lparr>prov := p\<rparr>)"
    and "r \<noteq> 0 \<Longrightarrow> query_result w ((r, 0), w\<lparr>console := console w @ ms\<rparr>)"
    and "r \<noteq> 0 \<Longrightarrow> query_result w ((r, 0), w)"
    unfolding query_result_def by blast+
  show "r \<noteq> 0 \<Longrightarrow> query_result w ((r, 0), w\<lparr>prov := p, console := console w @ ms\<rparr>)"
    unfolding query_result_def by blast
qed

lemma free_query_take:
  "free_query results (if results \<noteq> [] then take_info (w\<lparr>fi_lists := n + 1\<rparr>) else w\<lparr>fi_lists := n + 1\<rparr>)
     = w\<lparr>fi_lists := n\<rparr>"
  by (simp add: free_query_def fi_freeinfo_def take_info_def)

lemma wrap_selected_cases:
  assumes "errno_ok E" and "infos_ok E" and "\<forall>p. sel = Some p \<longrightarrow> info_wf p"
  obtains (failed) r p where "r \<noteq> 0" "wrap_selected E sel w = ((r, 0), w\<lparr>prov := p\<rparr>)"
    | (made) a raw p where "a \<noteq> 0" "\<not> allocated w a" "info_wf raw"
      "wrap_selected E sel w = ((0, a), take_info (add_info a raw (w\<lparr>prov := p\<rparr>)))"
proof (cases sel)
  case None
  have "w = w\<lparr>prov := prov w\<rparr>" by simp
  with None failed [of "- errno E FI_ENODATA" "prov w"] assms(1) show ?thesis
    by (simp add: wrap_selected_def)
next
  case (Some i)
  show ?thesis
  proof (cases rule: calloc_cases [of E w])
    case (none p)
    with Some failed [of "- errno E FI_ENOMEM" p] assms(1) show ?thesis
      by (simp add: wrap_selected_def)
  next
    case (block a p)
    obtain dup p1 where dup: "fi_dupinfo E i p = (dup, p1)" by (metis prod.exhaust)
    show ?thesis
    proof (cases dup)
      case None
      with Some block dup failed [of "- errno E FI_ENOMEM" p1] assms(1) show ?thesis
        by (simp add: wrap_selected_def call_def)
    next
      case (Some raw)
      have "info_wf raw" using infos_okD(2) [OF assms(2)] dup Some assms(3) \<open>sel = Some i\<close> by blast
      with \<open>sel = Some i\<close> Some block dup made [of a raw p1] show ?thesis
        by (simp add: wrap_selected_def call_def add_info_def)
    qed
  qed
qed

lemma query_hints_spec:
  assumes "errno_ok E" and "infos_ok E" and "w' = w\<lparr>prov := p, fi_lists := fi_lists w + 1\<rparr>"
  shows "runs (query_hints E node service d s h w') (query_result w)"
proof -
  obtain ret results p1 where q: "fi_getinfo E node service (if s \<noteq> 0 then FI_SOURCE E else 0) h p
      = ((ret, results), p1)" by (metis prod.exhaust)
  let ?w1 = "if results \<noteq> [] then take_info (w'\<lparr>prov := p1\<rparr>) else w'\<lparr>prov := p1\<rparr>"
  have pw: "prov w' = p" by (simp add: assms(3))
  let ?sel = "select_info E d s results"
  have unfold: "query_hints E node service d s h w' =
    (if ret \<noteq> 0 then Some ((ret, 0), free_query results
       (eprint (''fi_getinfo: '' @ fi_strerror E (- ret) @ '' ('' @ show_int ret @ '')'') ?w1))
     else (let (r, w) = wrap_selected E ?sel ?w1 in Some (r, free_query results w)))"
    unfolding query_hints_def Let_def call_def using q
    by (simp add: pw split del: if_split cong del: if_weak_cong)
  have fr: "free_query results (?w1\<lparr>prov := x\<rparr>) = w\<lparr>prov := x\<rparr>"
    and fe: "free_query results (eprint m ?w1) = w\<lparr>prov := p1, console := console w @ [m]\<rparr>"
    and ft: "free_query results (take_info (add_info a raw (?w1\<lparr>prov := x\<rparr>))) =
      take_info (add_info a raw (w\<lparr>prov := x\<rparr>))"
    and al: "allocated ?w1 a = allocated w a" for x m a raw
    by (simp_all add: assms(3) free_query_def fi_freeinfo_def take_info_def eprint_def
        add_info_def allocated_def)
  show ?thesis
  proof (cases "ret = 0")
    case False
    then show ?thesis unfolding unfold by (simp add: fe query_resultI)
  next
    case True
    have wf: "\<forall>p. ?sel = Some p \<longrightarrow> info_wf p"
      by (blast dest: select_info_selectable info_selectable_wf)
    show ?thesis
    proof (cases rule: wrap_selected_cases [where w = ?w1 and sel = ?sel, OF assms(1,2) wf])
      case (1 r x)
      then show ?thesis unfolding unfold using True by (simp add: fr query_resultI)
    next
      case (2 a raw x)
      then show ?thesis unfolding unfold using True al
        by (simp add: ft query_result_def) blast
    qed
  qed
qed

lemma shim_info_open_spec:
  assumes "errno_ok E" and "infos_ok E"
  shows "runs (shim_info_open E node service d s True w) (query_result w)"
proof (cases "node = None \<or> node = Some '''' \<or> service = None \<or> service = Some '''' \<or>
    (s \<noteq> 0 \<and> s \<noteq> 1) \<or> d = Some ''''")
  case True
  then show ?thesis
    using assms(1) by (auto simp: shim_info_open_def eprint_def intro!: query_resultI)
next
  case args: False
  obtain h0 p0 where alloc: "fi_allocinfo E (prov w) = (h0, p0)" by (metis prod.exhaust)
  show ?thesis
  proof (cases h0)
    case None
    with args alloc assms(1) show ?thesis
      by (auto simp: shim_info_open_def call_def intro!: query_resultI)
  next
    case (Some i)
    from infos_okD(1) [OF assms(2)] alloc Some have "info_wf i" by blast
    then obtain fa da ea where at: "fabric_attr i = Some fa" "domain_attr i = Some da"
      "ep_attr i = Some ea" by (auto simp: info_wf_def)
    obtain ok1 p1 where m1: "c_malloc E p0 = (ok1, p1)" by (metis prod.exhaust)
    obtain ok2 p2 where m2: "c_malloc E p1 = (ok2, p2)" by (metis prod.exhaust)
    let ?w = "\<lambda>p. w\<lparr>prov := p, fi_lists := Suc (fi_lists w)\<rparr>"
    have q: "runs (query_hints E n service d s h (?w p)) (query_result w)" for n h p
      by (rule query_hints_spec [OF assms]) simp
    have t: "take_info (w\<lparr>prov := p\<rparr>) = ?w p" and f: "fi_freeinfo (?w p) = w\<lparr>prov := p\<rparr>"
      and c: "copy_string E x (?w p) = (if fst (c_malloc E p) then Some x else None,
        ?w (snd (c_malloc E p)))" for p x
      by (simp_all add: take_info_def fi_freeinfo_def copy_string_def malloc_def split: prod.split)
    show ?thesis
      using args alloc Some at m1 m2 q assms(1)
      by (auto simp: shim_info_open_def call_def t c f fill_hints_def set_prov_name_def
          set_dom_name_def query_resultI split: option.split)
  qed
qed

lemma query_result_inv:
  assumes "query_result w ((r, a), w')" and "inv w"
  shows "inv w'"
  using assms inv_add_info [of "w\<lparr>prov := p\<rparr>" a for p]
  by (auto simp: query_result_def take_info_def)

lemma shim_info_free_eq:
  assumes "inv w" and "infos w a = Some i"
  shows "shim_info_free a w = Some (fi_freeinfo (del_info a w))"
proof -
  have "a \<noteq> 0" using assms inv_nullD(1) [OF assms(1)] by auto
  moreover have "i_raw i \<noteq> None" using assms by (auto simp: inv_def infos_wf_def)
  ultimately show ?thesis
    using assms(2) by (simp add: shim_info_free_def fi_freeinfo_def del_info_def)
qed

lemma inv_freeinfo [simp]: "inv (fi_freeinfo w) = inv w"
  and inv_takeinfo [simp]: "inv (take_info w) = inv w"
  by (simp_all add: fi_freeinfo_def take_info_def)

end
