(* ===== verification/Shim_Refine_Cm.thy ===== *)
theory Shim_Refine_Cm
  imports Shim_Refine_Open
begin

text \<open>
  Connection management against the ledger: connecting and accepting change the provider
  only, rejecting consumes the request handle of one information record, and a shutdown
  marks one endpoint as closing.
\<close>

lemma info_rawD:
  assumes "inv w" and "infos w i = Some x"
  obtains raw where "i_raw x = Some raw" and "info_wf raw"
  using assms by (auto simp: inv_def infos_wf_def)

lemma call_prov: "call f w = (fst (f (prov w)), w\<lparr>prov := snd (f (prov w))\<rparr>)"
  by (simp add: call_def split: prod.split)

lemma shim_connect_spec:
  assumes "inv w" and "endpoints w ep = Some p" and "infos w i \<noteq> None"
  shows "runs (shim_connect E ep i w) (\<lambda>(r, w'). same_heap w w')"
proof -
  obtain x where x: "infos w i = Some x" using assms(3) by auto
  obtain raw where "i_raw x = Some raw" by (rule info_rawD [OF assms(1) x])
  with x show ?thesis using assms(2) by (simp add: shim_connect_def call_prov)
qed

lemma shim_accept_spec:
  assumes "endpoints w ep = Some p"
  shows "runs (shim_accept E ep w) (\<lambda>(r, w'). same_heap w w')"
  using assms by (simp add: shim_accept_def call_prov)

text \<open>The request handle is gone after the call, whatever the provider answered.\<close>

lemma shim_reject_spec:
  assumes "inv w" and "listeners w l = Some y" and "infos w i = Some x"
  shows "runs (shim_reject E l i w) (\<lambda>(r, w').
    (r = - errno E FI_EINVAL \<and> w' = w) \<or>
    (\<exists>raw p. i_raw x = Some raw \<and> info_wf raw \<and> fi_handle raw \<noteq> 0 \<and>
      w' = add_info i (raw\<lparr>fi_handle := 0\<rparr>) (w\<lparr>prov := p\<rparr>)))"
proof -
  obtain raw where raw: "i_raw x = Some raw" "info_wf raw" by (rule info_rawD [OF assms(1,3)])
  have "i \<noteq> 0" using assms inv_nullD(1) [OF assms(1)] by auto
  with raw show ?thesis using assms(2,3)
    by (auto simp: shim_reject_def call_prov add_info_def)
qed

lemma info_wf_handle [simp]: "info_wf (raw\<lparr>fi_handle := h\<rparr>) = info_wf raw"
  by (simp add: info_wf_def)

lemma shim_shutdown_spec:
  assumes "inv w" and "endpoints w ep = Some p"
  shows "runs (shim_shutdown E ep w) (\<lambda>(r, w'). w' = w \<or>
    (\<exists>s. w' = w\<lparr>endpoints := (endpoints w)(ep \<mapsto> p\<lparr>p_closing := True\<rparr>), prov := s\<rparr>))"
  using assms(2) by (auto simp: shim_shutdown_def call_prov)

end
