(* ===== verification/Conn_Inv.thy ===== *)
theory Conn_Inv
  imports Client Server Shim_Refine_Io Shim_Refine_Info Shim_Refine_Cm
begin

text \<open>
  The invariant of a connection relative to the world it was created in: everything it
  added to the heap is named by its handles, everything else is as it was, and its handles,
  buffers and in-flight operations fit together. Each ledger step the shim can perform
  for the connection keeps it.
\<close>

subsection \<open>Owned entries of a heap\<close>

text \<open>
  \<open>own A m m0\<close>: the non-null addresses of \<open>A\<close> are live in \<open>m\<close> and were free in \<open>m0\<close>, and
  the two heaps agree everywhere else.
\<close>

definition own :: "addr set \<Rightarrow> (addr \<rightharpoonup> 'o) \<Rightarrow> (addr \<rightharpoonup> 'o) \<Rightarrow> bool" where
  "own A m m0 \<longleftrightarrow> (\<forall>a. if a \<in> A \<and> a \<noteq> 0 then m0 a = None \<and> m a \<noteq> None else m a = m0 a)"

lemma own_null [simp]: "own {0} m m"
  by (simp add: own_def)

lemma own_all_null: "own A m m0 \<Longrightarrow> (\<And>a. a \<in> A \<Longrightarrow> a = 0) \<Longrightarrow> m = m0"
  by (rule ext) (auto simp: own_def split: if_splits)

lemma own_live: "own A m m0 \<Longrightarrow> a \<in> A \<Longrightarrow> a \<noteq> 0 \<Longrightarrow> \<exists>x. m a = Some x"
  by (auto simp: own_def split: if_splits)

lemma own_was_free: "own A m m0 \<Longrightarrow> a \<in> A \<Longrightarrow> a \<noteq> 0 \<Longrightarrow> m0 a = None"
  by (auto simp: own_def split: if_splits)

lemma own_other: "own A m m0 \<Longrightarrow> a \<notin> A \<or> a = 0 \<Longrightarrow> m a = m0 a"
  by (auto simp: own_def split: if_splits)

lemma own_keeps: "own A m m0 \<Longrightarrow> m0 a = Some x \<Longrightarrow> m a = Some x"
  by (auto simp: own_def split: if_splits) (metis option.distinct(1))

lemma own_new:
  assumes "own (insert 0 A) m m0" and "m a = None" and "a \<noteq> 0"
  shows "own (insert a A) (m(a \<mapsto> x)) m0"
  unfolding own_def
proof
  fix b
  have "if b \<in> insert 0 A \<and> b \<noteq> 0 then m0 b = None \<and> m b \<noteq> None else m b = m0 b"
    using assms(1) unfolding own_def by (rule spec)
  with assms(2,3) show "if b \<in> insert a A \<and> b \<noteq> 0 then m0 b = None \<and> (m(a \<mapsto> x)) b \<noteq> None
      else (m(a \<mapsto> x)) b = m0 b"
    by (auto split: if_splits)
qed

lemma own_del:
  assumes "own (insert a A) m m0" and "a \<noteq> 0" and "a \<notin> A"
  shows "own (insert 0 A) (m(a := None)) m0"
  unfolding own_def
proof
  fix b
  have "if b \<in> insert a A \<and> b \<noteq> 0 then m0 b = None \<and> m b \<noteq> None else m b = m0 b"
    using assms(1) unfolding own_def by (rule spec)
  with assms(2,3) show "if b \<in> insert 0 A \<and> b \<noteq> 0 then m0 b = None \<and> (m(a := None)) b \<noteq> None
      else (m(a := None)) b = m0 b"
    by (auto split: if_splits)
qed

lemma own_change:
  assumes "own A m m0" and "\<And>a. a \<notin> A \<or> a = 0 \<Longrightarrow> m' a = m a" and "\<And>a. m' a = None \<longleftrightarrow> m a = None"
  shows "own A m' m0"
  using assms unfolding own_def by metis

lemma own_upd:
  assumes "own A m m0" and "a \<in> A" and "a \<noteq> 0"
  shows "own A (m(a \<mapsto> x)) m0"
  by (rule own_change [OF assms(1)]) (use own_live [OF assms] assms(2,3) in auto)

lemma own_bump:
  assumes "own A m m0" and "a \<in> A" and "m 0 = None"
  shows "own A (bump f a m) m0"
  by (rule own_change [OF assms(1)]) (use assms(2,3) in \<open>auto simp: bump_apply\<close>)

subsection \<open>The invariant\<close>

text \<open>
  A libfabric provider reports connection requests on the event queue of a passive
  endpoint only (\<^verbatim>\<open>fi_cm(3)\<close>); a process without listeners sees none.
\<close>

definition no_requests :: "'p lib \<Rightarrow> bool" where
  "no_requests E \<longleftrightarrow> (\<forall>q p r v e p'. fi_eq_read E q p = ((r, v, e), p') \<longrightarrow> v \<noteq> FI_CONNREQ)"

definition box :: "slot \<Rightarrow> addr" where
  "box s = (case sl_bytes s of None \<Rightarrow> 0 | Some a \<Rightarrow> a)"

definition lens :: "(addr \<rightharpoonup> bytes) \<Rightarrow> addr \<rightharpoonup> nat" where
  "lens m a = map_option length (m a)"

definition conn_frame :: "'p lib \<Rightarrow> 'p world \<Rightarrow> 'p world \<Rightarrow> connection \<Rightarrow> bool" where
  "conn_frame E w0 w c \<longleftrightarrow>
     infos w0 \<subseteq>\<^sub>m infos w \<and>
     (no_requests E \<longrightarrow> infos w = infos w0 \<and> fi_lists w = fi_lists w0) \<and>
     listeners w = listeners w0 \<and>
     (\<forall>a. map_option f_raw (fabrics w a) = map_option f_raw (fabrics w0 a)) \<and>
     fabrics w0 (cn_fabric c) \<noteq> None \<and>
     own {cn_domain c} (domains w) (domains w0) \<and>
     own {cn_eq c} (eqs w) (eqs w0) \<and>
     own {cn_tx_cq c, cn_rx_cq c} (cqs w) (cqs w0) \<and>
     own {cn_ep c} (endpoints w) (endpoints w0) \<and>
     own {sl_mr (cn_tx c), sl_mr (cn_rx c)} (mrs w) (mrs w0) \<and>
     own {sl_op (cn_tx c), sl_op (cn_rx c)} (ops w) (ops w0) \<and>
     own {box (cn_tx c), box (cn_rx c)} (lens (mem w)) (lens (mem w0))"

text \<open>The handles of the two slots and queues never coincide.\<close>

definition conn_apart :: "connection \<Rightarrow> bool" where
  "conn_apart c \<longleftrightarrow>
     (cn_tx_cq c = cn_rx_cq c \<longrightarrow> cn_tx_cq c = 0) \<and>
     (sl_mr (cn_tx c) = sl_mr (cn_rx c) \<longrightarrow> sl_mr (cn_tx c) = 0) \<and>
     (sl_op (cn_tx c) = sl_op (cn_rx c) \<longrightarrow> sl_op (cn_tx c) = 0) \<and>
     (box (cn_tx c) = box (cn_rx c) \<longrightarrow> box (cn_tx c) = 0)"

text \<open>
  A slot: its region covers its buffer, its operation is idle or in flight on the slot's
  queue, and an operation in flight is marked pending.
\<close>

definition slot_ok :: "(addr \<rightharpoonup> shim_mr) \<Rightarrow> (addr \<rightharpoonup> shim_op) \<Rightarrow> (addr \<rightharpoonup> bytes)
    \<Rightarrow> addr \<Rightarrow> addr \<Rightarrow> slot \<Rightarrow> bool" where
  "slot_ok mr os mm domain cq s \<longleftrightarrow>
     (\<forall>m. mr (sl_mr s) = Some m \<longrightarrow> m_domain m = domain \<and> sl_bytes s = Some (m_buffer m)) \<and>
     (\<forall>x. os (sl_op s) = Some x \<longrightarrow> (o_cq x = 0 \<or> o_cq x = cq \<and> sl_pending s) \<and>
        (o_mr x = 0 \<or> o_mr x = sl_mr s)) \<and>
     (\<forall>a. sl_bytes s = Some a \<longrightarrow> a \<noteq> 0 \<and> lens mm a = Some BUFFER_SIZE)"

definition conn_links :: "'p world \<Rightarrow> connection \<Rightarrow> bool" where
  "conn_links w c \<longleftrightarrow>
     (\<forall>p. endpoints w (cn_ep c) = Some p \<longrightarrow> p_tx p = cn_tx_cq c \<and> p_rx p = cn_rx_cq c \<and>
        p_eq p = cn_eq c \<and> p_domain p = cn_domain c) \<and>
     (\<forall>k. cqs w (cn_tx_cq c) = Some k \<longrightarrow> c_domain k = cn_domain c) \<and>
     (\<forall>k. cqs w (cn_rx_cq c) = Some k \<longrightarrow> c_domain k = cn_domain c) \<and>
     (\<forall>e. eqs w (cn_eq c) = Some e \<longrightarrow> e_fabric e = cn_fabric c) \<and>
     (\<forall>d. domains w (cn_domain c) = Some d \<longrightarrow> d_fabric d = cn_fabric c) \<and>
     slot_ok (mrs w) (ops w) (mem w) (cn_domain c) (cn_tx_cq c) (cn_tx c) \<and>
     slot_ok (mrs w) (ops w) (mem w) (cn_domain c) (cn_rx_cq c) (cn_rx c) \<and>
     (sl_bytes (cn_tx c) = None \<or> sl_bytes (cn_rx c) = None \<longrightarrow> cn_closing c)"

definition conn_ok :: "'p lib \<Rightarrow> 'p world \<Rightarrow> 'p world \<Rightarrow> connection \<Rightarrow> bool" where
  "conn_ok E w0 w c \<longleftrightarrow> inv w0 \<and> inv w \<and> conn_frame E w0 w c \<and> conn_apart c \<and> conn_links w c"

lemmas conn_structure = conn_ok_def conn_frame_def conn_apart_def conn_links_def

lemma conn_ok_provider [simp]:
  "conn_ok E w0 (w\<lparr>prov := p\<rparr>) c = conn_ok E w0 w c"
  "conn_ok E w0 (w\<lparr>ticks := n\<rparr>) c = conn_ok E w0 w c"
  "conn_ok E w0 (w\<lparr>console := t\<rparr>) c = conn_ok E w0 w c"
  by (simp_all add: conn_structure)

lemma conn_ok_same_heap: "same_heap w w' \<Longrightarrow> conn_ok E w0 w c \<Longrightarrow> conn_ok E w0 w' c"
  by (auto simp: same_heap_def)

lemma conn_ok_flags [simp]:
  "conn_ok E w0 w (c\<lparr>cn_cm_started := b\<rparr>) = conn_ok E w0 w c"
  by (simp add: conn_structure)

lemma conn_ok_closing: "conn_ok E w0 w c \<Longrightarrow> conn_ok E w0 w (c\<lparr>cn_closing := True\<rparr>)"
  by (simp add: conn_structure)

lemma conn_ok_inv: "conn_ok E w0 w c \<Longrightarrow> inv w" "conn_ok E w0 w c \<Longrightarrow> inv w0"
  by (simp_all add: conn_ok_def)

lemma conn_own:
  assumes "conn_ok E w0 w c"
  shows "own {cn_domain c} (domains w) (domains w0)"
    and "own {cn_eq c} (eqs w) (eqs w0)"
    and "own {cn_tx_cq c, cn_rx_cq c} (cqs w) (cqs w0)"
    and "own {cn_ep c} (endpoints w) (endpoints w0)"
    and "own {sl_mr (cn_tx c), sl_mr (cn_rx c)} (mrs w) (mrs w0)"
    and "own {sl_op (cn_tx c), sl_op (cn_rx c)} (ops w) (ops w0)"
    and "own {box (cn_tx c), box (cn_rx c)} (lens (mem w)) (lens (mem w0))"
  using assms by (simp_all add: conn_structure)

lemma conn_live:
  assumes "conn_ok E w0 w c"
  shows "cn_domain c \<noteq> 0 \<Longrightarrow> \<exists>x. domains w (cn_domain c) = Some x"
    and "cn_eq c \<noteq> 0 \<Longrightarrow> \<exists>x. eqs w (cn_eq c) = Some x"
    and "cn_tx_cq c \<noteq> 0 \<Longrightarrow> \<exists>x. cqs w (cn_tx_cq c) = Some x"
    and "cn_rx_cq c \<noteq> 0 \<Longrightarrow> \<exists>x. cqs w (cn_rx_cq c) = Some x"
    and "cn_ep c \<noteq> 0 \<Longrightarrow> \<exists>x. endpoints w (cn_ep c) = Some x"
    and "sl_mr (cn_tx c) \<noteq> 0 \<Longrightarrow> \<exists>x. mrs w (sl_mr (cn_tx c)) = Some x"
    and "sl_mr (cn_rx c) \<noteq> 0 \<Longrightarrow> \<exists>x. mrs w (sl_mr (cn_rx c)) = Some x"
    and "sl_op (cn_tx c) \<noteq> 0 \<Longrightarrow> \<exists>x. ops w (sl_op (cn_tx c)) = Some x"
    and "sl_op (cn_rx c) \<noteq> 0 \<Longrightarrow> \<exists>x. ops w (sl_op (cn_rx c)) = Some x"
  using conn_own [OF assms] by (blast intro: own_live)+

text \<open>The parent fabric is alive throughout.\<close>

lemma conn_fabric:
  assumes "conn_ok E w0 w c"
  obtains f where "fabrics w (cn_fabric c) = Some f"
proof -
  from assms have "map_option f_raw (fabrics w (cn_fabric c)) \<noteq> None"
    by (auto simp: conn_structure)
  with that show thesis by auto
qed

lemma conn_empty_ok:
  assumes "inv w" and "fabrics w f \<noteq> None" and "tb \<noteq> 0" "rb \<noteq> 0" "tb \<noteq> rb"
    and "mem w tb = None" "mem w rb = None" and "conn_empty tb rb f w = (c, w')"
  shows "conn_ok E w w' c" and "ticks w' = ticks w"
proof -
  have w': "w' = w\<lparr>mem := (mem w)(tb \<mapsto> replicate BUFFER_SIZE (CHR 0x00),
      rb \<mapsto> replicate BUFFER_SIZE (CHR 0x00))\<rparr>"
    and c: "c = \<lparr>cn_fabric = f, cn_domain = 0, cn_eq = 0, cn_tx_cq = 0, cn_rx_cq = 0, cn_ep = 0,
      cn_tx = \<lparr>sl_bytes = Some tb, sl_mr = 0, sl_op = 0, sl_pending = False\<rparr>,
      cn_rx = \<lparr>sl_bytes = Some rb, sl_mr = 0, sl_op = 0, sl_pending = False\<rparr>,
      cn_cm_started = False, cn_closing = False\<rparr>"
    using assms(8) by (simp_all add: conn_empty_def slot_empty_def)
  have "mrs_backed (mrs w) (mem w')"
    unfolding mrs_backed_def mr_backed_def
  proof (intro allI impI)
    fix a r assume "mrs w a = Some r"
    with assms(1) obtain bs where "mem w (m_buffer r) = Some bs" "unat (m_capacity r) \<le> length bs"
      by (auto simp: inv_def mrs_backed_def mr_backed_def)
    with assms(6,7) show "\<exists>bs. mem w' (m_buffer r) = Some bs \<and> unat (m_capacity r) \<le> length bs"
      by (auto simp: w')
  qed
  then have i: "inv w'"
    using assms(1,3,4) by (simp add: inv_def inv_structure w')
  have "own {tb, rb} (lens (mem w')) (lens (mem w))"
    using assms(3-7) by (auto simp: own_def lens_def w')
  with assms i show "conn_ok E w w' c"
    by (auto simp: conn_structure slot_ok_def w' c inv_nullD [OF assms(1)] box_def lens_def)
  show "ticks w' = ticks w" by (simp add: w')
qed

subsection \<open>Opening steps\<close>

lemma bump_proj: "(\<And>x. k (f x) = k x) \<Longrightarrow> map_option k (bump f a m b) = map_option k (m b)"
  by (simp add: bump_apply option.map_comp comp_def)

lemmas own_new1 = own_new [where A = "{}", simplified]

lemma own_new2:
  "own {0, b} m m0 \<Longrightarrow> m a = None \<Longrightarrow> a \<noteq> 0 \<Longrightarrow> own {a, b} (m(a \<mapsto> x)) m0"
  "own {b, 0} m m0 \<Longrightarrow> m a = None \<Longrightarrow> a \<noteq> 0 \<Longrightarrow> own {b, a} (m(a \<mapsto> x)) m0"
  using own_new [of "{b}" m m0 a x] by (simp_all add: insert_commute)

text \<open>A connection none of whose C handles is open yet.\<close>

definition unopened :: "connection \<Rightarrow> bool" where
  "unopened c \<longleftrightarrow> cn_eq c = 0 \<and> cn_tx_cq c = 0 \<and> cn_rx_cq c = 0 \<and> cn_ep c = 0 \<and>
     sl_mr (cn_tx c) = 0 \<and> sl_mr (cn_rx c) = 0 \<and> sl_op (cn_tx c) = 0 \<and> sl_op (cn_rx c) = 0"

lemma conn_add_domain:
  assumes "conn_ok E w0 w c" and "unopened c" and "cn_domain c = 0" and "a \<noteq> 0" "\<not> allocated w a"
  shows "conn_ok E w0 (add_domain a \<lparr>d_raw = r, d_fabric = cn_fabric c, d_children = 0\<rparr> w)
    (c\<lparr>cn_domain := a\<rparr>)"
proof -
  note fresh = fresh_maps [OF assms(5)] and null = inv_nullD [OF conn_ok_inv(1) [OF assms(1)]]
  obtain f where "fabrics w (cn_fabric c) = Some f" by (rule conn_fabric [OF assms(1)])
  then have "inv (add_domain a \<lparr>d_raw = r, d_fabric = cn_fabric c, d_children = 0\<rparr> w)"
    using conn_ok_inv(1) [OF assms(1)] assms(4,5) by (intro inv_add_domain) simp_all
  with assms fresh null show ?thesis
    by (simp add: conn_structure add_domain_def bump_proj own_new1 unopened_def slot_ok_def)
qed

lemma conn_add_eq:
  assumes "conn_ok E w0 w c" and "cn_eq c = 0" and "cn_ep c = 0" and "a \<noteq> 0" "\<not> allocated w a"
  shows "conn_ok E w0 (add_eq a \<lparr>e_raw = r, e_fabric = cn_fabric c, e_users = 0\<rparr> w)
    (c\<lparr>cn_eq := a\<rparr>)"
proof -
  note fresh = fresh_maps [OF assms(5)] and null = inv_nullD [OF conn_ok_inv(1) [OF assms(1)]]
  obtain f where "fabrics w (cn_fabric c) = Some f" by (rule conn_fabric [OF assms(1)])
  then have "inv (add_eq a \<lparr>e_raw = r, e_fabric = cn_fabric c, e_users = 0\<rparr> w)"
    using conn_ok_inv(1) [OF assms(1)] assms(4,5) by (intro inv_add_eq) simp_all
  with assms fresh null show ?thesis
    by (simp add: conn_structure add_eq_def bump_proj own_new1)
qed

abbreviation new_cq :: "addr \<Rightarrow> addr \<Rightarrow> shim_cq" where
  "new_cq d r \<equiv> \<lparr>c_raw = r, c_domain = d, c_pending = 0, c_capacity = 16, c_count = 0,
     c_used = False, c_attached = False, c_retired = False\<rparr>"

text \<open>Counting a child keeps what the links say of its parent.\<close>

lemma bump_links:
  "(\<And>x. k (f x) = k x) \<Longrightarrow> \<forall>d. m b = Some d \<longrightarrow> k d = y \<Longrightarrow> \<forall>d. bump f a m b = Some d \<longrightarrow> k d = y"
  by (auto simp: bump_apply)

lemma conn_add_tx_cq:
  assumes "conn_ok E w0 w c" and "cn_tx_cq c = 0" and "cn_ep c = 0" and "sl_op (cn_tx c) = 0"
    and "cn_domain c \<noteq> 0" and "a \<noteq> 0" "\<not> allocated w a"
  shows "conn_ok E w0 (add_cq a (new_cq (cn_domain c) r) w) (c\<lparr>cn_tx_cq := a\<rparr>)"
proof -
  note fresh = fresh_maps [OF assms(7)] and null = inv_nullD [OF conn_ok_inv(1) [OF assms(1)]]
  have dom: "domains w (cn_domain c) \<noteq> None" and od: "own {cn_domain c} (domains w) (domains w0)"
    using conn_live(1) [OF assms(1,5)] conn_own(1) [OF assms(1)] by auto
  have "inv (add_cq a (new_cq (cn_domain c) r) w)"
    using conn_ok_inv(1) [OF assms(1)] assms(6,7) dom by (intro inv_add_cq) simp_all
  moreover have "cn_rx_cq c \<noteq> a"
    using conn_live(4) [OF assms(1)] assms(6) fresh by auto
  moreover have "own {cn_domain c} (bump domain_inc (cn_domain c) (domains w)) (domains w0)"
    using od null by (simp add: own_bump)
  moreover have "\<forall>d. bump domain_inc (cn_domain c) (domains w) (cn_domain c) = Some d \<longrightarrow>
      d_fabric d = cn_fabric c"
    using assms(1) by (intro bump_links) (simp_all add: conn_structure)
  moreover have "slot_ok (mrs w) (ops w) (mem w) (cn_domain c) a (cn_tx c)"
    using assms(1,4) null by (auto simp: conn_structure slot_ok_def)
  ultimately show ?thesis
    using assms fresh null
    by (simp add: conn_structure add_cq_def own_new2)
qed

lemma conn_add_rx_cq:
  assumes "conn_ok E w0 w c" and "cn_rx_cq c = 0" and "cn_ep c = 0" and "sl_op (cn_rx c) = 0"
    and "cn_domain c \<noteq> 0" and "a \<noteq> 0" "\<not> allocated w a"
  shows "conn_ok E w0 (add_cq a (new_cq (cn_domain c) r) w) (c\<lparr>cn_rx_cq := a\<rparr>)"
proof -
  note fresh = fresh_maps [OF assms(7)] and null = inv_nullD [OF conn_ok_inv(1) [OF assms(1)]]
  have dom: "domains w (cn_domain c) \<noteq> None" and od: "own {cn_domain c} (domains w) (domains w0)"
    using conn_live(1) [OF assms(1,5)] conn_own(1) [OF assms(1)] by auto
  have "inv (add_cq a (new_cq (cn_domain c) r) w)"
    using conn_ok_inv(1) [OF assms(1)] assms(6,7) dom by (intro inv_add_cq) simp_all
  moreover have "cn_tx_cq c \<noteq> a"
    using conn_live(3) [OF assms(1)] assms(6) fresh by auto
  moreover have "own {cn_domain c} (bump domain_inc (cn_domain c) (domains w)) (domains w0)"
    using od null by (simp add: own_bump)
  moreover have "\<forall>d. bump domain_inc (cn_domain c) (domains w) (cn_domain c) = Some d \<longrightarrow>
      d_fabric d = cn_fabric c"
    using assms(1) by (intro bump_links) (simp_all add: conn_structure)
  moreover have "slot_ok (mrs w) (ops w) (mem w) (cn_domain c) a (cn_rx c)"
    using assms(1,4) null by (auto simp: conn_structure slot_ok_def)
  ultimately show ?thesis
    using assms fresh null
    by (simp add: conn_structure add_cq_def own_new2)
qed

text \<open>Attaching or retiring the two queues keeps what the connection says of them.\<close>

lemma conn_cqs_change:
  assumes "conn_ok E w0 w c" and "\<And>k. c_domain (f k) = c_domain k"
  defines "m \<equiv> bump f (cn_rx_cq c) (bump f (cn_tx_cq c) (cqs w))"
  shows "own {cn_tx_cq c, cn_rx_cq c} m (cqs w0)"
    and "\<forall>k. m (cn_tx_cq c) = Some k \<longrightarrow> c_domain k = cn_domain c"
    and "\<forall>k. m (cn_rx_cq c) = Some k \<longrightarrow> c_domain k = cn_domain c"
proof -
  have n: "cqs w 0 = None" using conn_ok_inv(1) [OF assms(1)] by (rule inv_nullD)
  show "own {cn_tx_cq c, cn_rx_cq c} m (cqs w0)"
    unfolding m_def using conn_own(3) [OF assms(1)] n by (intro own_bump) simp_all
  show "\<forall>k. m (cn_tx_cq c) = Some k \<longrightarrow> c_domain k = cn_domain c"
    and "\<forall>k. m (cn_rx_cq c) = Some k \<longrightarrow> c_domain k = cn_domain c"
    unfolding m_def using assms(1,2) by (intro bump_links; simp add: conn_structure)+
qed

lemma conn_add_endpoint:
  assumes "conn_ok E w0 w c" and "cn_ep c = 0" and "a \<noteq> 0" "\<not> allocated w a"
    and "inv (add_endpoint a p w)" and "p_domain p = cn_domain c" "p_eq p = cn_eq c"
    "p_tx p = cn_tx_cq c" "p_rx p = cn_rx_cq c"
  shows "conn_ok E w0 (add_endpoint a p w) (c\<lparr>cn_ep := a\<rparr>)"
proof -
  note fresh = fresh_maps [OF assms(4)] and null = inv_nullD [OF conn_ok_inv(1) [OF assms(1)]]
  note cq = conn_cqs_change [OF assms(1), of cq_attach, simplified]
  have "own {cn_domain c} (bump domain_inc (cn_domain c) (domains w)) (domains w0)"
    and "own {cn_eq c} (bump eq_inc (cn_eq c) (eqs w)) (eqs w0)"
    using conn_own(1,2) [OF assms(1)] null by (simp_all add: own_bump)
  moreover have "\<forall>d. bump domain_inc (cn_domain c) (domains w) (cn_domain c) = Some d \<longrightarrow>
      d_fabric d = cn_fabric c"
    and "\<forall>d. bump eq_inc (cn_eq c) (eqs w) (cn_eq c) = Some d \<longrightarrow> e_fabric d = cn_fabric c"
    using assms(1) by (intro bump_links; simp add: conn_structure)+
  ultimately show ?thesis
    using assms(1-3,5-) fresh cq
    by (simp add: conn_structure add_endpoint_def own_new1)
qed

lemma conn_spoil:
  assumes "conn_ok E w0 w c" and "inv (spoil_cqs (cn_tx_cq c) (cn_rx_cq c) w)"
  shows "conn_ok E w0 (spoil_cqs (cn_tx_cq c) (cn_rx_cq c) w) c"
  using assms(1,2) conn_cqs_change [OF assms(1), of cq_spoil, simplified]
  by (simp add: conn_structure spoil_cqs_def)

abbreviation new_mr :: "addr \<Rightarrow> addr \<Rightarrow> u32 \<Rightarrow> addr \<Rightarrow> shim_mr" where
  "new_mr d b access r \<equiv> \<lparr>m_raw = r, m_domain = d, m_buffer = b,
     m_capacity = of_nat BUFFER_SIZE, m_pending = 0, m_access = access\<rparr>"

text \<open>The region of a slot covers the whole buffer, whose memory is live.\<close>

lemma slot_mr_inv:
  assumes "inv w" and "slot_ok (mrs w) (ops w) (mem w) d q s" and "sl_bytes s = Some b"
    and "domains w d \<noteq> None" and "a \<noteq> 0" "\<not> allocated w a"
  shows "inv (add_mr a (new_mr d b access r) w)"
proof (rule inv_add_mr [OF assms(1,5,6)])
  have "lens (mem w) b = Some BUFFER_SIZE" using assms(2,3) by (simp add: slot_ok_def)
  then show "mr_backed (mem w) (new_mr d b access r)"
    by (auto simp: mr_backed_def lens_def BUFFER_SIZE_def)
qed (use assms(4) in simp_all)

lemma slot_ok_new_mr:
  assumes "slot_ok mr os mm d q s" and "mr a = None" and "sl_mr s = 0" and "sl_bytes s = Some b"
    and "a \<noteq> 0" and "\<And>x. os (sl_op s) = Some x \<Longrightarrow> o_mr x = 0"
  shows "slot_ok (mr(a \<mapsto> new_mr d b access r)) os mm d q (s\<lparr>sl_mr := a\<rparr>)"
  using assms by (simp add: slot_ok_def)

lemma slot_ok_other_mr:
  assumes "slot_ok mr os mm d q s" and "a \<noteq> sl_mr s"
  shows "slot_ok (mr(a := v)) os mm d q s"
  using assms by (simp add: slot_ok_def)

lemma box_simps [simp]: "box (s\<lparr>sl_mr := a\<rparr>) = box s" "box (s\<lparr>sl_op := a\<rparr>) = box s"
  "box (s\<lparr>sl_pending := b\<rparr>) = box s" "box (s\<lparr>sl_bytes := None\<rparr>) = 0"
  by (simp_all add: box_def)

lemma conn_add_tx_mr:
  assumes "conn_ok E w0 w c" and "sl_mr (cn_tx c) = 0" and "sl_op (cn_tx c) = 0"
    and "sl_bytes (cn_tx c) = Some b" and "cn_domain c \<noteq> 0" and "a \<noteq> 0" "\<not> allocated w a"
  shows "conn_ok E w0 (add_mr a (new_mr (cn_domain c) b access r) w)
    (c\<lparr>cn_tx := (cn_tx c)\<lparr>sl_mr := a\<rparr>\<rparr>)"
proof -
  note fresh = fresh_maps [OF assms(7)] and null = inv_nullD [OF conn_ok_inv(1) [OF assms(1)]]
  have ok: "slot_ok (mrs w) (ops w) (mem w) (cn_domain c) (cn_tx_cq c) (cn_tx c)"
    "slot_ok (mrs w) (ops w) (mem w) (cn_domain c) (cn_rx_cq c) (cn_rx c)"
    using assms(1) by (simp_all add: conn_structure)
  have other: "a \<noteq> sl_mr (cn_rx c)" using conn_live(7) [OF assms(1)] assms(6) fresh by auto
  have "inv (add_mr a (new_mr (cn_domain c) b access r) w)"
    using conn_live(1) [OF assms(1,5)] conn_ok_inv(1) [OF assms(1)] ok assms(4,6,7)
    by (intro slot_mr_inv) auto
  moreover have "own {cn_domain c} (bump domain_inc (cn_domain c) (domains w)) (domains w0)"
    using conn_own(1) [OF assms(1)] null by (simp add: own_bump)
  moreover have "\<forall>d. bump domain_inc (cn_domain c) (domains w) (cn_domain c) = Some d \<longrightarrow>
      d_fabric d = cn_fabric c"
    using assms(1) by (intro bump_links) (simp_all add: conn_structure)
  moreover have "slot_ok ((mrs w)(a \<mapsto> new_mr (cn_domain c) b access r)) (ops w) (mem w)
      (cn_domain c) (cn_tx_cq c) ((cn_tx c)\<lparr>sl_mr := a\<rparr>)"
    using ok(1) fresh null assms(2-4,6) by (intro slot_ok_new_mr) simp_all
  moreover have "slot_ok ((mrs w)(a \<mapsto> new_mr (cn_domain c) b access r)) (ops w) (mem w)
      (cn_domain c) (cn_rx_cq c) (cn_rx c)"
    using ok(2) other by (rule slot_ok_other_mr)
  ultimately show ?thesis
    using assms(1,2,4,6) fresh other
    by (simp add: conn_structure add_mr_def own_new2)
qed

lemma conn_add_rx_mr:
  assumes "conn_ok E w0 w c" and "sl_mr (cn_rx c) = 0" and "sl_op (cn_rx c) = 0"
    and "sl_bytes (cn_rx c) = Some b" and "cn_domain c \<noteq> 0" and "a \<noteq> 0" "\<not> allocated w a"
  shows "conn_ok E w0 (add_mr a (new_mr (cn_domain c) b access r) w)
    (c\<lparr>cn_rx := (cn_rx c)\<lparr>sl_mr := a\<rparr>\<rparr>)"
proof -
  note fresh = fresh_maps [OF assms(7)] and null = inv_nullD [OF conn_ok_inv(1) [OF assms(1)]]
  have ok: "slot_ok (mrs w) (ops w) (mem w) (cn_domain c) (cn_tx_cq c) (cn_tx c)"
    "slot_ok (mrs w) (ops w) (mem w) (cn_domain c) (cn_rx_cq c) (cn_rx c)"
    using assms(1) by (simp_all add: conn_structure)
  have other: "a \<noteq> sl_mr (cn_tx c)" using conn_live(6) [OF assms(1)] assms(6) fresh by auto
  have "inv (add_mr a (new_mr (cn_domain c) b access r) w)"
    using conn_live(1) [OF assms(1,5)] conn_ok_inv(1) [OF assms(1)] ok assms(4,6,7)
    by (intro slot_mr_inv) auto
  moreover have "own {cn_domain c} (bump domain_inc (cn_domain c) (domains w)) (domains w0)"
    using conn_own(1) [OF assms(1)] null by (simp add: own_bump)
  moreover have "\<forall>d. bump domain_inc (cn_domain c) (domains w) (cn_domain c) = Some d \<longrightarrow>
      d_fabric d = cn_fabric c"
    using assms(1) by (intro bump_links) (simp_all add: conn_structure)
  moreover have "slot_ok ((mrs w)(a \<mapsto> new_mr (cn_domain c) b access r)) (ops w) (mem w)
      (cn_domain c) (cn_rx_cq c) ((cn_rx c)\<lparr>sl_mr := a\<rparr>)"
    using ok(2) fresh null assms(2-4,6) by (intro slot_ok_new_mr) simp_all
  moreover have "slot_ok ((mrs w)(a \<mapsto> new_mr (cn_domain c) b access r)) (ops w) (mem w)
      (cn_domain c) (cn_tx_cq c) (cn_tx c)"
    using ok(1) other by (rule slot_ok_other_mr)
  ultimately show ?thesis
    using assms(1,2,4,6) fresh other
    by (simp add: conn_structure add_mr_def own_new2)
qed

abbreviation new_op :: "u64 \<Rightarrow> shim_op" where
  "new_op n \<equiv> \<lparr>o_id = n, o_direction = 0, o_len = 0, o_cq = 0, o_mr = 0, o_next = 0, o_buf = 0\<rparr>"

lemma slot_ok_other_op:
  assumes "slot_ok mr os mm d q s" and "a \<noteq> sl_op s"
  shows "slot_ok mr (os(a := v)) mm d q s"
  using assms by (simp add: slot_ok_def)

lemma slot_ok_new_op:
  "slot_ok mr os mm d q s \<Longrightarrow> slot_ok mr (os(a \<mapsto> new_op n)) mm d q (s\<lparr>sl_op := a\<rparr>)"
  by (simp add: slot_ok_def)

lemma conn_add_tx_op:
  assumes "conn_ok E w0 w c" and "sl_op (cn_tx c) = 0" and "a \<noteq> 0" "\<not> allocated w a"
  shows "conn_ok E w0 (add_op a (new_op n) w) (c\<lparr>cn_tx := (cn_tx c)\<lparr>sl_op := a\<rparr>\<rparr>)"
proof -
  note fresh = fresh_maps [OF assms(4)]
  have other: "a \<noteq> sl_op (cn_rx c)" using conn_live(9) [OF assms(1)] assms(3) fresh by auto
  have "inv (add_op a (new_op n) w)"
    using conn_ok_inv(1) [OF assms(1)] assms(3,4) by (intro inv_add_op) simp_all
  with assms fresh other show ?thesis
    by (simp add: conn_structure add_op_def own_new2 slot_ok_new_op slot_ok_other_op)
qed

lemma conn_add_rx_op:
  assumes "conn_ok E w0 w c" and "sl_op (cn_rx c) = 0" and "a \<noteq> 0" "\<not> allocated w a"
  shows "conn_ok E w0 (add_op a (new_op n) w) (c\<lparr>cn_rx := (cn_rx c)\<lparr>sl_op := a\<rparr>\<rparr>)"
proof -
  note fresh = fresh_maps [OF assms(4)]
  have other: "a \<noteq> sl_op (cn_tx c)" using conn_live(8) [OF assms(1)] assms(3) fresh by auto
  have "inv (add_op a (new_op n) w)"
    using conn_ok_inv(1) [OF assms(1)] assms(3,4) by (intro inv_add_op) simp_all
  with assms fresh other show ?thesis
    by (simp add: conn_structure add_op_def own_new2 slot_ok_new_op slot_ok_other_op)
qed

end
