(* ===== verification/Conn_Steps.thy ===== *)
theory Conn_Steps
  imports Conn_Inv
begin

text \<open>
  The remaining ledger steps of a connection: starting and finishing an operation of a
  slot, the provider's write into a lent buffer, and taking the resources off the ledger in
  the order in which \<open>Connection::close\<close> does it.
\<close>

subsection \<open>The data path\<close>

lemma slot_ok_lens: "lens mm' = lens mm \<Longrightarrow> slot_ok mr os mm' d q s = slot_ok mr os mm d q s"
  by (simp add: slot_ok_def)

lemma wrote_lens: "wrote w w' \<Longrightarrow> lens (mem w') = lens (mem w)"
  by (rule ext) (simp add: lens_def wrote_mem)

lemma conn_wrote:
  assumes "conn_ok E w0 w c" and "wrote w w'"
  shows "conn_ok E w0 w' c"
  using assms(1) wrote_same [OF assms(2)] wrote_inv [OF assms(2)]
  by (simp add: conn_structure wrote_lens [OF assms(2)] slot_ok_lens [OF wrote_lens [OF assms(2)]])

text \<open>Changing a region's counter, or an operation of the other slot, keeps a slot.\<close>

lemma slot_ok_bump_mr:
  assumes "slot_ok mr os mm d q s"
    and "\<And>r. m_domain (f r) = m_domain r" "\<And>r. m_buffer (f r) = m_buffer r"
  shows "slot_ok (bump f a mr) os mm d q s"
  using assms by (auto simp: slot_ok_def bump_apply)

lemma slot_ok_start:
  assumes "slot_ok mr os mm d q s" and "o_cq op = q" and "o_mr op = sl_mr s"
  shows "slot_ok mr (os(sl_op s \<mapsto> op)) mm d q (s\<lparr>sl_pending := True\<rparr>)"
  using assms by (simp add: slot_ok_def)

lemma slot_ok_idle:
  assumes "slot_ok mr os mm d q s" and "o_cq op = 0" and "o_mr op = 0"
  shows "slot_ok mr (os(sl_op s \<mapsto> op)) mm d q' (s\<lparr>sl_pending := b\<rparr>)"
  using assms by (simp add: slot_ok_def)

lemma slot_pending_id [simp]: "s\<lparr>sl_pending := sl_pending s\<rparr> = s"
  by simp

lemma conn_start:
  assumes "conn_ok E w0 w c" and "inv (start_op x op w)" and "x \<noteq> 0"
    and "x = sl_op (cn_tx c) \<and> o_cq op = cn_tx_cq c \<and> o_mr op = sl_mr (cn_tx c) \<and>
           c' = c\<lparr>cn_tx := (cn_tx c)\<lparr>sl_pending := True\<rparr>\<rparr> \<or>
         x = sl_op (cn_rx c) \<and> o_cq op = cn_rx_cq c \<and> o_mr op = sl_mr (cn_rx c) \<and>
           c' = c\<lparr>cn_rx := (cn_rx c)\<lparr>sl_pending := True\<rparr>\<rparr>"
  shows "conn_ok E w0 (start_op x op w) c'"
proof -
  note null = inv_nullD [OF conn_ok_inv(1) [OF assms(1)]] and o' = conn_own [OF assms(1)]
  let ?f = "\<lambda>c. c\<lparr>c_pending := x, c_count := c_count c + 1\<rparr>"
  let ?g = "\<lambda>m. m\<lparr>m_pending := m_pending m + 1\<rparr>"
  have ok: "slot_ok (mrs w) (ops w) (mem w) (cn_domain c) (cn_tx_cq c) (cn_tx c)"
    "slot_ok (mrs w) (ops w) (mem w) (cn_domain c) (cn_rx_cq c) (cn_rx c)"
    and ap: "sl_op (cn_tx c) = sl_op (cn_rx c) \<longrightarrow> sl_op (cn_tx c) = 0"
    using assms(1) by (simp_all add: conn_structure)
  have "own {cn_tx_cq c, cn_rx_cq c} (bump ?f (o_cq op) (cqs w)) (cqs w0)"
    using assms(4) o'(3) null by (intro own_bump) auto
  moreover have "own {sl_mr (cn_tx c), sl_mr (cn_rx c)} (bump ?g (o_mr op) (mrs w)) (mrs w0)"
    using assms(4) o'(5) null by (intro own_bump) auto
  moreover have "own {sl_op (cn_tx c), sl_op (cn_rx c)} ((ops w)(x \<mapsto> op)) (ops w0)"
    using assms(3,4) o'(6) by (intro own_upd) auto
  moreover have "\<forall>k. bump ?f (o_cq op) (cqs w) (cn_tx_cq c) = Some k \<longrightarrow> c_domain k = cn_domain c"
    and "\<forall>k. bump ?f (o_cq op) (cqs w) (cn_rx_cq c) = Some k \<longrightarrow> c_domain k = cn_domain c"
    using assms(1) by (intro bump_links; simp add: conn_structure)+
  moreover have "slot_ok (bump ?g (o_mr op) (mrs w)) ((ops w)(x \<mapsto> op)) (mem w) (cn_domain c)
      (cn_tx_cq c) (cn_tx c')"
    using assms(3,4) ok ap
    by (intro slot_ok_bump_mr) (auto intro: slot_ok_start slot_ok_other_op)
  moreover have "slot_ok (bump ?g (o_mr op) (mrs w)) ((ops w)(x \<mapsto> op)) (mem w) (cn_domain c)
      (cn_rx_cq c) (cn_rx c')"
    using assms(3,4) ok ap
    by (intro slot_ok_bump_mr) (auto intro: slot_ok_start slot_ok_other_op)
  ultimately show ?thesis
    using assms(1,2,4)
    by (elim disjE) (simp_all add: conn_structure start_op_def)
qed

text \<open>The only operation in a queue of the connection is that of its slot.\<close>

lemma conn_queue_op:
  assumes "conn_ok E w0 w c" and "ops w x = Some op"
  shows "o_cq op = cn_tx_cq c \<Longrightarrow> cn_tx_cq c \<noteq> 0 \<Longrightarrow> x = sl_op (cn_tx c)"
    and "o_cq op = cn_rx_cq c \<Longrightarrow> cn_rx_cq c \<noteq> 0 \<Longrightarrow> x = sl_op (cn_rx c)"
proof -
  note o' = conn_own [OF assms(1)]
  have ok: "slot_ok (mrs w) (ops w) (mem w) (cn_domain c) (cn_tx_cq c) (cn_tx c)"
    "slot_ok (mrs w) (ops w) (mem w) (cn_domain c) (cn_rx_cq c) (cn_rx c)"
    and ap: "cn_tx_cq c = cn_rx_cq c \<longrightarrow> cn_tx_cq c = 0"
    using assms(1) by (simp_all add: conn_structure)
  have mine: "x = sl_op (cn_tx c) \<or> x = sl_op (cn_rx c)"
    if q: "o_cq op = q" "q \<noteq> 0" "q \<in> {cn_tx_cq c, cn_rx_cq c}" for q
  proof (rule ccontr)
    assume "\<not> ?thesis"
    then have "ops w0 x = Some op" using own_other [OF o'(6), of x] assms(2) by auto
    then have "cqs w0 q \<noteq> None"
      using op_cq_live [OF conn_ok_inv(2) [OF assms(1)], of x op] q by auto
    with own_was_free [OF o'(3) q(3,2)] show False by simp
  qed
  show "x = sl_op (cn_tx c)" if "o_cq op = cn_tx_cq c" "cn_tx_cq c \<noteq> 0"
    using mine [OF that] ok(2) assms(2) that ap by (auto simp: slot_ok_def)
  show "x = sl_op (cn_rx c)" if "o_cq op = cn_rx_cq c" "cn_rx_cq c \<noteq> 0"
    using mine [OF that] ok(1) assms(2) that ap by (auto simp: slot_ok_def)
qed

text \<open>A queue of the connection carries one operation, that of the slot in its direction.\<close>

lemma conn_finish_head:
  assumes "conn_ok E w0 w c" and "cqs w q = Some k" and "q = cn_tx_cq c \<or> q = cn_rx_cq c"
    and "chain (ops w) (c_pending k) (as @ x # bs)"
  shows "as = []" and "x = (if q = cn_tx_cq c then sl_op (cn_tx c) else sl_op (cn_rx c))"
proof -
  have qz: "q \<noteq> 0" using assms(2) inv_nullD [OF conn_ok_inv(1) [OF assms(1)]] by auto
  obtain xs where xs: "chain (ops w) (c_pending k) xs" "distinct xs"
    and mem: "\<And>x. x \<in> set xs \<longleftrightarrow> (\<exists>op. ops w x = Some op \<and> o_cq op = q)"
    using cq_wfD [OF conn_ok_inv(1) [OF assms(1)] assms(2)] by (rule cq_wfE) (rule that, assumption+)
  have eq: "xs = as @ x # bs" using xs(1) assms(4) by (rule chain_det)
  have only: "y = (if q = cn_tx_cq c then sl_op (cn_tx c) else sl_op (cn_rx c))" if "y \<in> set xs" for y
    using mem [of y] that conn_queue_op [OF assms(1), of y] assms(3) qz by auto
  show x: "x = (if q = cn_tx_cq c then sl_op (cn_tx c) else sl_op (cn_rx c))"
    by (rule only) (simp add: eq)
  show "as = []"
  proof (rule ccontr)
    assume "as \<noteq> []"
    then have "hd as \<in> set xs" "hd as \<noteq> x" using xs(2) by (auto simp: eq)
    with only x show False by metis
  qed
qed

lemma slot_ok_finished:
  assumes "slot_ok m h mm d r s" and "s' = s \<or> x = sl_op s \<and> s' = s\<lparr>sl_pending := False\<rparr>"
  shows "slot_ok (bump (\<lambda>m. m\<lparr>m_pending := m_pending m - 1\<rparr>) (o_mr op) m) (h(x \<mapsto> idle_op op)) mm d r s'"
proof (rule slot_ok_bump_mr)
  have "slot_ok m (h(sl_op s \<mapsto> idle_op op)) mm d r (s\<lparr>sl_pending := b\<rparr>)" if "b = sl_pending s \<or> \<not> b" for b
    using slot_ok_idle [OF assms(1), of "idle_op op" r b] by simp
  from this [of "sl_pending s"] this [of False]
  show "slot_ok m (h(x \<mapsto> idle_op op)) mm d r s'"
    using assms by (cases "x = sl_op s") (auto intro: slot_ok_other_op)
qed simp_all

lemma conn_finish:
  assumes "conn_ok E w0 w c" and "cqs w q = Some k" and "ops w x = Some op" and "o_cq op = q"
    and "chain (ops w) (c_pending k) (as @ x # bs)" and "prev = (if as = [] then 0 else last as)"
    and "q = cn_tx_cq c \<and> (c' = c \<or> c' = c\<lparr>cn_tx := (cn_tx c)\<lparr>sl_pending := False\<rparr>\<rparr>) \<or>
         q = cn_rx_cq c \<and> (c' = c \<or> c' = c\<lparr>cn_rx := (cn_rx c)\<lparr>sl_pending := False\<rparr>\<rparr>)"
  shows "conn_ok E w0 (finish_op prev x op w) c'"
proof -
  note null = inv_nullD [OF conn_ok_inv(1) [OF assms(1)]] and o' = conn_own [OF assms(1)]
  have qz: "q \<noteq> 0" and xz: "x \<noteq> 0" using assms(2,3) null by auto
  have q: "q = cn_tx_cq c \<or> q = cn_rx_cq c" using assms(7) by blast
  note x = conn_finish_head(2) [OF assms(1,2) q assms(5)]
  have pz: "prev = 0" using assms(6) conn_finish_head(1) [OF assms(1,2) q assms(5)] by simp
  let ?f = "unlinked_cq prev op" and ?g = "\<lambda>m. m\<lparr>m_pending := m_pending m - 1\<rparr>"
  have i: "inv (finish_op prev x op w)"
    using inv_finish_op [OF conn_ok_inv(1) [OF assms(1)] assms(3) _ assms(5,6)] assms(2,4) by simp
  have ok: "slot_ok (mrs w) (ops w) (mem w) (cn_domain c) (cn_tx_cq c) (cn_tx c)"
    "slot_ok (mrs w) (ops w) (mem w) (cn_domain c) (cn_rx_cq c) (cn_rx c)"
    and ap: "cn_tx_cq c = cn_rx_cq c \<longrightarrow> cn_tx_cq c = 0"
    using assms(1) by (simp_all add: conn_structure)
  have mr: "o_mr op = 0 \<or> o_mr op = sl_mr (cn_tx c) \<or> o_mr op = sl_mr (cn_rx c)"
    using ok x assms(3) by (auto simp: slot_ok_def split: if_splits)
  have "own {cn_tx_cq c, cn_rx_cq c} (bump ?f q (cqs w)) (cqs w0)"
    using q o'(3) null by (intro own_bump) auto
  moreover have "own {sl_mr (cn_tx c), sl_mr (cn_rx c)} (bump ?g (o_mr op) (mrs w)) (mrs w0)"
    using mr o'(5) null
    by (cases "o_mr op = 0") (auto simp: bump_absent intro!: own_bump)
  moreover have "own {sl_op (cn_tx c), sl_op (cn_rx c)} ((ops w)(x \<mapsto> idle_op op)) (ops w0)"
    using x xz o'(6) by (intro own_upd) (auto split: if_splits)
  moreover have "\<forall>k. bump ?f q (cqs w) (cn_tx_cq c) = Some k \<longrightarrow> c_domain k = cn_domain c"
    and "\<forall>k. bump ?f q (cqs w) (cn_rx_cq c) = Some k \<longrightarrow> c_domain k = cn_domain c"
    using assms(1) by (intro bump_links; simp add: conn_structure)+
  moreover have "slot_ok (bump ?g (o_mr op) (mrs w)) ((ops w)(x \<mapsto> idle_op op)) (mem w) (cn_domain c)
      (cn_tx_cq c) (cn_tx c')"
    and "slot_ok (bump ?g (o_mr op) (mrs w)) ((ops w)(x \<mapsto> idle_op op)) (mem w) (cn_domain c)
      (cn_rx_cq c) (cn_rx c')"
    by (rule slot_ok_finished [OF ok(1)] slot_ok_finished [OF ok(2)];
        use assms(7) x ap qz in \<open>auto split: if_splits\<close>)+
  ultimately show ?thesis
    using assms(1,4,7) i pz null
    by (elim disjE conjE) (simp_all add: conn_structure finish_op_def bump_absent)
qed

subsection \<open>Closing steps\<close>

lemma own_del1:
  assumes "own {a} m m0" and "a \<noteq> 0"
  shows "own {0} (m(a := None)) m0"
  using own_del [of a "{}" m m0] assms by simp

lemma own_del2:
  assumes "own {a, b} m m0" and "a \<noteq> 0" and "a = b \<longrightarrow> a = 0"
  shows "own {0, b} (m(a := None)) m0" and "own {b, 0} (m(a := None)) m0"
  using own_del [of a "{b}" m m0] assms by (auto simp: insert_commute)

lemma own_mapm:
  assumes "own A m m0" and "\<And>a x. m a = Some x \<Longrightarrow> a \<notin> A \<Longrightarrow> f a x = x" and "m 0 = None"
  shows "own A (mapm f m) m0"
proof (rule own_change [OF assms(1)])
  fix a assume "a \<notin> A \<or> a = 0"
  with assms(2,3) show "mapm f m a = m a" by (cases "m a") (auto simp: mapm_apply)
qed simp

lemma conn_shutdown:
  assumes "conn_ok E w0 w c" and "endpoints w (cn_ep c) = Some p"
  shows "conn_ok E w0 (w\<lparr>endpoints := (endpoints w)(cn_ep c \<mapsto> p\<lparr>p_closing := True\<rparr>)\<rparr>) c"
proof -
  have z: "cn_ep c \<noteq> 0" using assms inv_nullD(7) [OF conn_ok_inv(1) [OF assms(1)]] by auto
  have "inv (w\<lparr>endpoints := (endpoints w)(cn_ep c \<mapsto> p\<lparr>p_closing := True\<rparr>)\<rparr>)"
    using conn_ok_inv(1) [OF assms(1)] assms(2) by (rule inv_upd_endpoint) simp_all
  moreover have "own {cn_ep c} ((endpoints w)(cn_ep c \<mapsto> p\<lparr>p_closing := True\<rparr>)) (endpoints w0)"
    using conn_own(4) [OF assms(1)] z by (intro own_upd) simp_all
  ultimately show ?thesis using assms by (simp add: conn_structure)
qed

lemma slot_ok_retire:
  "slot_ok mr os mm d q s \<Longrightarrow> slot_ok mr (retire_ops t os) mm d q s"
  unfolding slot_ok_def retire_ops_def mapm_apply by (cases "os (sl_op s)") auto

lemma slot_ok_recount:
  "slot_ok mr os mm d q s \<Longrightarrow> slot_ok (recount h mr) os mm d q s"
  by (auto simp: slot_ok_def recount_def mapm_apply)

text \<open>Regions of others keep their counts when the connection's borrows are dropped.\<close>

lemma retire_kids:
  assumes "\<And>x op. os x = Some op \<Longrightarrow> o_cq op = t \<or> o_cq op = r \<Longrightarrow> o_mr op \<noteq> a" and "a \<noteq> 0"
  shows "kids (retire_ops r (retire_ops t os)) o_mr a = kids os o_mr a"
  unfolding kids_def
proof (rule refs_cong)
  fix x
  show "retire_ops r (retire_ops t os) x = os x \<or>
    (\<forall>y. retire_ops r (retire_ops t os) x = Some y \<longrightarrow> o_mr y \<noteq> a) \<and>
    (\<forall>y. os x = Some y \<longrightarrow> o_mr y \<noteq> a)"
    using assms by (cases "os x") (auto simp: retire_ops_def mapm_apply)
qed

lemma conn_retired:
  assumes "conn_ok E w0 w c" and "cn_tx_cq c \<noteq> 0" and "cn_rx_cq c \<noteq> 0"
    and "h = retire_ops (cn_rx_cq c) (retire_ops (cn_tx_cq c) (ops w))"
  shows "own {sl_op (cn_tx c), sl_op (cn_rx c)} h (ops w0)"
    and "own {sl_mr (cn_tx c), sl_mr (cn_rx c)} (recount h (mrs w)) (mrs w0)"
proof -
  note i = conn_ok_inv(1) [OF assms(1)] and o' = conn_own [OF assms(1)]
  note null = inv_nullD [OF i]
  have ok: "slot_ok (mrs w) (ops w) (mem w) (cn_domain c) (cn_tx_cq c) (cn_tx c)"
    "slot_ok (mrs w) (ops w) (mem w) (cn_domain c) (cn_rx_cq c) (cn_rx c)"
    using assms(1) by (simp_all add: conn_structure)
  have mine: "x = sl_op (cn_tx c) \<or> x = sl_op (cn_rx c)"
    if "ops w x = Some op" "o_cq op = cn_tx_cq c \<or> o_cq op = cn_rx_cq c" for x op
    using that conn_queue_op [OF assms(1) that(1)] assms(2,3) by auto
  have own_t: "own {sl_op (cn_tx c), sl_op (cn_rx c)} (retire_ops (cn_tx_cq c) (ops w)) (ops w0)"
    unfolding retire_ops_def by (rule own_mapm [OF o'(6)]) (use null mine in auto)
  show "own {sl_op (cn_tx c), sl_op (cn_rx c)} h (ops w0)"
    unfolding assms(4) retire_ops_def [of "cn_rx_cq c"]
    by (rule own_mapm [OF own_t])
      (use null mine in \<open>auto simp: retire_ops_def mapm_apply split: if_splits\<close>)
  have "kids h o_mr a = m_pending m"
    if m: "mrs w a = Some m" "a \<noteq> sl_mr (cn_tx c)" "a \<noteq> sl_mr (cn_rx c)" for a m
  proof -
    have "a \<noteq> 0" using m null by auto
    have "o_mr op \<noteq> a" if "ops w x = Some op" "o_cq op = cn_tx_cq c \<or> o_cq op = cn_rx_cq c" for x op
      using mine [OF that] ok that(1) m \<open>a \<noteq> 0\<close> by (auto simp: slot_ok_def)
    then have "kids h o_mr a = kids (ops w) o_mr a" unfolding assms(4) using \<open>a \<noteq> 0\<close> by (rule retire_kids)
    also have "\<dots> = m_pending m"
      using i m(1) by (auto simp: inv_def inv_counts_def counted_def)
    finally show ?thesis .
  qed
  then show "own {sl_mr (cn_tx c), sl_mr (cn_rx c)} (recount h (mrs w)) (mrs w0)"
    unfolding recount_def using o'(5) null by (intro own_mapm) auto
qed

lemma conn_del_endpoint:
  assumes "conn_ok E w0 w c" and "endpoints w (cn_ep c) = Some p"
  shows "conn_ok E w0 (del_endpoint (cn_ep c) p w) (c\<lparr>cn_ep := 0\<rparr>)"
proof -
  note i = conn_ok_inv(1) [OF assms(1)] and o' = conn_own [OF assms(1)]
  note null = inv_nullD [OF i] and par = endpoint_parents [OF i assms(2)]
  have z: "cn_ep c \<noteq> 0" using assms null by auto
  have link: "p_tx p = cn_tx_cq c" "p_rx p = cn_rx_cq c" "p_eq p = cn_eq c" "p_domain p = cn_domain c"
    using assms by (simp_all add: conn_structure)
  have qz: "cn_tx_cq c \<noteq> 0" "cn_rx_cq c \<noteq> 0" using par link null by auto
  have ok: "slot_ok (mrs w) (ops w) (mem w) (cn_domain c) (cn_tx_cq c) (cn_tx c)"
    "slot_ok (mrs w) (ops w) (mem w) (cn_domain c) (cn_rx_cq c) (cn_rx c)"
    using assms(1) by (simp_all add: conn_structure)
  let ?h = "retire_ops (cn_rx_cq c) (retire_ops (cn_tx_cq c) (ops w))"
  have "own {cn_domain c} (bump domain_dec (cn_domain c) (domains w)) (domains w0)"
    and "own {cn_eq c} (bump eq_dec (cn_eq c) (eqs w)) (eqs w0)"
    using o'(1,2) null by (simp_all add: own_bump)
  moreover have "\<forall>d. bump domain_dec (cn_domain c) (domains w) (cn_domain c) = Some d \<longrightarrow>
      d_fabric d = cn_fabric c"
    and "\<forall>d. bump eq_dec (cn_eq c) (eqs w) (cn_eq c) = Some d \<longrightarrow> e_fabric d = cn_fabric c"
    using assms(1) by (intro bump_links; simp add: conn_structure)+
  moreover have "slot_ok (recount ?h (mrs w)) ?h (mem w) (cn_domain c) (cn_tx_cq c) (cn_tx c)"
    and "slot_ok (recount ?h (mrs w)) ?h (mem w) (cn_domain c) (cn_rx_cq c) (cn_rx c)"
    using ok by (auto intro: slot_ok_recount slot_ok_retire)
  moreover note conn_cqs_change [OF assms(1), of cq_retire, simplified] conn_retired [OF assms(1) qz refl]
  moreover have "own {0} ((endpoints w)(cn_ep c := None)) (endpoints w0)"
    using o'(4) z by (rule own_del1)
  moreover have "inv (del_endpoint (cn_ep c) p w)" using i assms(2) by (rule inv_del_endpoint)
  ultimately show ?thesis
    using assms(1) null
    by (simp add: conn_structure del_endpoint_def link Let_def)
qed

lemma slot_ok_drain:
  "slot_ok mr os mm d q s \<Longrightarrow> slot_ok mr (drain_ops t os) mm d q s"
  "slot_ok mr os mm d q s \<Longrightarrow> slot_ok mr (drain_ops q os) mm d 0 s"
  unfolding slot_ok_def drain_ops_apply by (cases "os (sl_op s)"; auto)+

lemma conn_del_cq:
  assumes "conn_ok E w0 w c" and "cn_ep c = 0" and "cqs w q = Some k"
    and "q = cn_tx_cq c \<and> c' = c\<lparr>cn_tx_cq := 0\<rparr> \<or> q = cn_rx_cq c \<and> c' = c\<lparr>cn_rx_cq := 0\<rparr>"
    and "\<not> c_attached k"
  shows "conn_ok E w0 (del_cq q k w) c'"
proof -
  note i = conn_ok_inv(1) [OF assms(1)] and o' = conn_own [OF assms(1)]
  note null = inv_nullD [OF i]
  have z: "q \<noteq> 0" using assms(3) null by auto
  have ok: "slot_ok (mrs w) (ops w) (mem w) (cn_domain c) (cn_tx_cq c) (cn_tx c)"
    "slot_ok (mrs w) (ops w) (mem w) (cn_domain c) (cn_rx_cq c) (cn_rx c)"
    and ap: "cn_tx_cq c = cn_rx_cq c \<longrightarrow> cn_tx_cq c = 0"
    and kd: "c_domain k = cn_domain c"
    using assms(1,3,4) by (auto simp: conn_structure)
  have "own {sl_op (cn_tx c), sl_op (cn_rx c)} (drain_ops q (ops w)) (ops w0)"
    unfolding drain_ops_def
  proof (rule own_mapm [OF o'(6)])
    fix x op assume "ops w x = Some op" "x \<notin> {sl_op (cn_tx c), sl_op (cn_rx c)}"
    with conn_queue_op [OF assms(1), of x op] assms(4) z
    show "(if o_cq op = q then op\<lparr>o_mr := 0, o_cq := 0, o_next := 0\<rparr> else op) = op" by auto
  qed (rule null)
  moreover have "slot_ok (mrs w) (drain_ops q (ops w)) (mem w) (cn_domain c) (cn_tx_cq c') (cn_tx c)"
    and "slot_ok (mrs w) (drain_ops q (ops w)) (mem w) (cn_domain c) (cn_rx_cq c') (cn_rx c)"
    using assms(4) ok by (auto intro: slot_ok_drain)
  moreover have "own {cn_tx_cq c', cn_rx_cq c'} ((cqs w)(q := None)) (cqs w0)"
    using assms(4) o'(3) z ap own_del2 [of "cn_tx_cq c" "cn_rx_cq c" "cqs w" "cqs w0"]
      own_del2 [of "cn_rx_cq c" "cn_tx_cq c" "cqs w" "cqs w0"]
    by (auto simp: insert_commute)
  moreover have "own {cn_domain c} (bump domain_dec (cn_domain c) (domains w)) (domains w0)"
    using o'(1) null by (simp add: own_bump)
  moreover have "\<forall>d. bump domain_dec (cn_domain c) (domains w) (cn_domain c) = Some d \<longrightarrow>
      d_fabric d = cn_fabric c"
    using assms(1) by (intro bump_links) (simp_all add: conn_structure)
  moreover have "inv (del_cq q k w)" using i assms(3,5) by (rule inv_del_cq)
  ultimately show ?thesis
    using assms(1,2,4) null kd ap
    by (elim disjE conjE) (simp_all add: conn_structure del_cq_def)
qed

lemma conn_del_op:
  assumes "conn_ok E w0 w c" and "ops w x = Some op" and "o_cq op = 0"
    and "x = sl_op (cn_tx c) \<and> c' = c\<lparr>cn_tx := (cn_tx c)\<lparr>sl_op := 0\<rparr>\<rparr> \<or>
         x = sl_op (cn_rx c) \<and> c' = c\<lparr>cn_rx := (cn_rx c)\<lparr>sl_op := 0\<rparr>\<rparr>"
  shows "conn_ok E w0 (del_op x w) c'"
proof -
  note i = conn_ok_inv(1) [OF assms(1)] and o' = conn_own [OF assms(1)]
  note null = inv_nullD [OF i]
  have z: "x \<noteq> 0" using assms(2) null by auto
  have ok: "slot_ok (mrs w) (ops w) (mem w) (cn_domain c) (cn_tx_cq c) (cn_tx c)"
    "slot_ok (mrs w) (ops w) (mem w) (cn_domain c) (cn_rx_cq c) (cn_rx c)"
    and ap: "sl_op (cn_tx c) = sl_op (cn_rx c) \<longrightarrow> sl_op (cn_tx c) = 0"
    using assms(1) by (simp_all add: conn_structure)
  have "own {sl_op (cn_tx c'), sl_op (cn_rx c')} ((ops w)(x := None)) (ops w0)"
    using assms(4) o'(6) z ap own_del2 [of "sl_op (cn_tx c)" "sl_op (cn_rx c)" "ops w" "ops w0"]
      own_del2 [of "sl_op (cn_rx c)" "sl_op (cn_tx c)" "ops w" "ops w0"]
    by (auto simp: insert_commute)
  moreover have gone: "slot_ok (mrs w) ((ops w)(x := None)) (mem w) d q (s\<lparr>sl_op := 0\<rparr>)"
    if "slot_ok (mrs w) (ops w) (mem w) d q s" for d q s
    using that null z by (simp add: slot_ok_def)
  have "slot_ok (mrs w) ((ops w)(x := None)) (mem w) (cn_domain c) (cn_tx_cq c) (cn_tx c')"
    and "slot_ok (mrs w) ((ops w)(x := None)) (mem w) (cn_domain c) (cn_rx_cq c) (cn_rx c')"
    using assms(4) ok gone z ap by (auto intro: slot_ok_other_op)
  moreover have "inv (del_op x w)" using i assms(2,3) by (rule inv_del_op)
  ultimately show ?thesis
    using assms(1,4) ap
    by (elim disjE conjE) (simp_all add: conn_structure del_op_def)
qed

lemma conn_del_mr:
  assumes "conn_ok E w0 w c" and "mrs w x = Some m" and "m_pending m = 0"
    and "x = sl_mr (cn_tx c) \<and> sl_op (cn_tx c) = 0 \<and> c' = c\<lparr>cn_tx := (cn_tx c)\<lparr>sl_mr := 0\<rparr>\<rparr> \<or>
         x = sl_mr (cn_rx c) \<and> sl_op (cn_rx c) = 0 \<and> c' = c\<lparr>cn_rx := (cn_rx c)\<lparr>sl_mr := 0\<rparr>\<rparr>"
  shows "conn_ok E w0 (del_mr x m w) c'"
proof -
  note i = conn_ok_inv(1) [OF assms(1)] and o' = conn_own [OF assms(1)]
  note null = inv_nullD [OF i]
  have z: "x \<noteq> 0" using assms(2) null by auto
  have ok: "slot_ok (mrs w) (ops w) (mem w) (cn_domain c) (cn_tx_cq c) (cn_tx c)"
    "slot_ok (mrs w) (ops w) (mem w) (cn_domain c) (cn_rx_cq c) (cn_rx c)"
    and ap: "sl_mr (cn_tx c) = sl_mr (cn_rx c) \<longrightarrow> sl_mr (cn_tx c) = 0"
    using assms(1) by (simp_all add: conn_structure)
  have md: "m_domain m = cn_domain c" using assms(2,4) ok by (auto simp: slot_ok_def)
  have "own {sl_mr (cn_tx c'), sl_mr (cn_rx c')} ((mrs w)(x := None)) (mrs w0)"
    using assms(4) o'(5) z ap own_del2 [of "sl_mr (cn_tx c)" "sl_mr (cn_rx c)" "mrs w" "mrs w0"]
      own_del2 [of "sl_mr (cn_rx c)" "sl_mr (cn_tx c)" "mrs w" "mrs w0"]
    by (auto simp: insert_commute)
  moreover have gone: "slot_ok ((mrs w)(x := None)) (ops w) (mem w) d q (s\<lparr>sl_mr := 0\<rparr>)"
    if "slot_ok (mrs w) (ops w) (mem w) d q s" "sl_op s = 0" for d q s
    using that null z by (simp add: slot_ok_def)
  have "slot_ok ((mrs w)(x := None)) (ops w) (mem w) (cn_domain c) (cn_tx_cq c) (cn_tx c')"
    and "slot_ok ((mrs w)(x := None)) (ops w) (mem w) (cn_domain c) (cn_rx_cq c) (cn_rx c')"
    using assms(4) ok gone z ap by (auto intro: slot_ok_other_mr)
  moreover have "own {cn_domain c} (bump domain_dec (cn_domain c) (domains w)) (domains w0)"
    using o'(1) null by (simp add: own_bump)
  moreover have "\<forall>d. bump domain_dec (cn_domain c) (domains w) (cn_domain c) = Some d \<longrightarrow>
      d_fabric d = cn_fabric c"
    using assms(1) by (intro bump_links) (simp_all add: conn_structure)
  moreover have "inv (del_mr x m w)" using i assms(2,3) by (rule inv_del_mr)
  ultimately show ?thesis
    using assms(1,4) ap md
    by (elim disjE conjE) (simp_all add: conn_structure del_mr_def)
qed

lemma conn_del_eq:
  assumes "conn_ok E w0 w c" and "cn_ep c = 0" and "eqs w (cn_eq c) = Some e" and "e_users e = 0"
  shows "conn_ok E w0 (del_eq (cn_eq c) e w) (c\<lparr>cn_eq := 0\<rparr>)"
proof -
  note i = conn_ok_inv(1) [OF assms(1)] and o' = conn_own [OF assms(1)]
  note null = inv_nullD [OF i]
  have z: "cn_eq c \<noteq> 0" using assms(3) null by auto
  have "own {0} ((eqs w)(cn_eq c := None)) (eqs w0)" using o'(2) z by (rule own_del1)
  moreover have "inv (del_eq (cn_eq c) e w)" using i assms(3,4) by (rule inv_del_eq)
  ultimately show ?thesis
    using assms(1,2) null by (simp add: conn_structure del_eq_def bump_proj)
qed

lemma conn_del_domain:
  assumes "conn_ok E w0 w c" and "cn_ep c = 0" "cn_tx_cq c = 0" "cn_rx_cq c = 0"
    and "sl_mr (cn_tx c) = 0" "sl_mr (cn_rx c) = 0"
    and "domains w (cn_domain c) = Some d" and "d_children d = 0"
  shows "conn_ok E w0 (del_domain (cn_domain c) d w) (c\<lparr>cn_domain := 0\<rparr>)"
proof -
  note i = conn_ok_inv(1) [OF assms(1)] and o' = conn_own [OF assms(1)]
  note null = inv_nullD [OF i]
  have z: "cn_domain c \<noteq> 0" using assms(7) null by auto
  have "own {0} ((domains w)(cn_domain c := None)) (domains w0)" using o'(1) z by (rule own_del1)
  moreover have "slot_ok (mrs w) (ops w) (mem w) 0 0 (cn_tx c)"
    and "slot_ok (mrs w) (ops w) (mem w) 0 0 (cn_rx c)"
    using assms(1-6) null by (auto simp: conn_structure slot_ok_def)
  moreover have "inv (del_domain (cn_domain c) d w)" using i assms(7,8) by (rule inv_del_domain)
  ultimately show ?thesis
    using assms(1-6) null by (simp add: conn_structure del_domain_def bump_proj)
qed

text \<open>A box is freed only when no region covers it any more.\<close>

text \<open>No region is backed by the box of a slot that has lost its region.\<close>

lemma box_unbacked:
  assumes "conn_ok E w0 w c" and "s = cn_tx c \<or> s = cn_rx c" and "sl_mr s = 0" and "b = box s" and "b \<noteq> 0"
    and "mrs w a = Some r"
  shows "m_buffer r \<noteq> b"
proof
  assume rb: "m_buffer r = b"
  note i = conn_ok_inv(1) [OF assms(1)] and o' = conn_own [OF assms(1)]
  note null = inv_nullD [OF i]
  have ok: "slot_ok (mrs w) (ops w) (mem w) (cn_domain c) (cn_tx_cq c) (cn_tx c)"
    "slot_ok (mrs w) (ops w) (mem w) (cn_domain c) (cn_rx_cq c) (cn_rx c)"
    and ap: "box (cn_tx c) = box (cn_rx c) \<longrightarrow> box (cn_tx c) = 0"
    using assms(1) by (simp_all add: conn_structure)
  show False
  proof (cases "a = sl_mr (cn_tx c) \<or> a = sl_mr (cn_rx c)")
    case True
    have other: "m_buffer r = box t" if "slot_ok (mrs w) (ops w) (mem w) d q t" "a = sl_mr t" for d q t
      using that assms(6) by (auto simp: slot_ok_def box_def)
    have "a \<noteq> sl_mr s" using assms(3,6) null by auto
    then have "box (cn_tx c) = box (cn_rx c)"
      using True assms(2,4) rb other [OF ok(1)] other [OF ok(2)] by auto
    then show False using assms(2,4,5) ap by auto
  next
    case False
    then have "mrs w0 a = Some r" using own_other [OF o'(5), of a] assms(6) by auto
    then have "lens (mem w0) b \<noteq> None"
      using conn_ok_inv(2) [OF assms(1)] rb
      by (auto simp: inv_def mrs_backed_def mr_backed_def lens_def)
    with own_was_free [OF o'(7), of b] assms(2,4,5) show False by auto
  qed
qed

lemma conn_free_box:
  assumes "conn_ok E w0 w c" and "cn_closing c"
    and "s = cn_tx c \<and> c' = c\<lparr>cn_tx := s\<lparr>sl_bytes := None, sl_pending := False\<rparr>\<rparr> \<or>
         s = cn_rx c \<and> c' = c\<lparr>cn_rx := s\<lparr>sl_bytes := None, sl_pending := False\<rparr>\<rparr>"
    and "sl_mr s = 0" and "sl_op s = 0"
  shows "conn_ok E w0 (free_bytes (sl_bytes s) w) c'"
proof -
  note i = conn_ok_inv(1) [OF assms(1)] and o' = conn_own [OF assms(1)]
  have ok: "slot_ok (mrs w) (ops w) (mem w) (cn_domain c) (cn_tx_cq c) (cn_tx c)"
    "slot_ok (mrs w) (ops w) (mem w) (cn_domain c) (cn_rx_cq c) (cn_rx c)"
    and ap: "box (cn_tx c) = box (cn_rx c) \<longrightarrow> box (cn_tx c) = 0"
    using assms(1) by (simp_all add: conn_structure)
  have cleared: "slot_ok (mrs w) (ops w) mm d q (s\<lparr>sl_bytes := None, sl_pending := False\<rparr>)" for mm d q
    using assms(4,5) inv_nullD [OF i] by (simp add: slot_ok_def)
  show ?thesis
  proof (cases "sl_bytes s")
    case None
    then show ?thesis
      using assms(1-3) cleared
      by (elim disjE) (simp_all add: conn_structure free_bytes_def box_def)
  next
    case (Some b)
    let ?m = "(mem w)(b := None)"
    have b: "b = box s" "b \<noteq> 0" using Some assms(3) ok by (auto simp: box_def slot_ok_def)
    have "mrs_backed (mrs w) ?m"
      using i box_unbacked [OF assms(1) _ assms(4) b] assms(3)
      by (auto simp: inv_def mrs_backed_def mr_backed_def)
    then have "inv (w\<lparr>mem := ?m\<rparr>)" using i by (simp add: inv_def inv_structure)
    moreover have lm: "lens ?m = (lens (mem w))(b := None)" by (rule ext) (simp add: lens_def)
    moreover have "own {box (cn_tx c'), box (cn_rx c')} ((lens (mem w))(b := None)) (lens (mem w0))"
      using assms(3) o'(7) b ap
        own_del2 [of "box (cn_tx c)" "box (cn_rx c)" "lens (mem w)" "lens (mem w0)"]
        own_del2 [of "box (cn_rx c)" "box (cn_tx c)" "lens (mem w)" "lens (mem w0)"]
      by (auto simp: insert_commute box_def)
    moreover have other: "slot_ok (mrs w) (ops w) ?m d q t"
      if "slot_ok (mrs w) (ops w) (mem w) d q t" "box t \<noteq> b" for d q t
      using that by (auto simp: slot_ok_def lens_def box_def)
    have "slot_ok (mrs w) (ops w) ?m (cn_domain c) (cn_tx_cq c) (cn_tx c')"
      and "slot_ok (mrs w) (ops w) ?m (cn_domain c) (cn_rx_cq c) (cn_rx c')"
      using assms(3) ok cleared other b ap by auto
    ultimately show ?thesis
      using assms(1-3) Some
      by (elim disjE) (simp_all add: conn_structure free_bytes_def box_def)
  qed
qed

end
