(* ===== verification/Conn_Close.thy ===== *)
theory Conn_Close
  imports Conn_Steps
begin

text \<open>
  \<open>Connection::close\<close> and \<open>Drop\<close>: each step of the close order keeps the connection
  invariant whether or not the provider agrees; a complete close leaves nothing of the
  connection behind, and with a provider whose closes succeed it is always complete.
\<close>

subsection \<open>The close macro\<close>

lemma runs_qmarkI:
  assumes "runs (m s) P" and "\<And>e s'. P (Inl e, s') \<Longrightarrow> Q (Inl e, s')"
    and "\<And>a s'. P (Inr a, s') \<Longrightarrow> runs (k a s') Q"
  shows "runs (qmark m k s) Q"
  by (rule runs_qmark, rule runs_conseq [OF assms(1)])
    (use assms(2,3) in \<open>auto split: sum.split\<close>)

lemma runs_close_handle:
  assumes "get x = 0 \<Longrightarrow> Q (Inr (), (x, w))"
    and "get x \<noteq> 0 \<Longrightarrow> runs (f (get x) w) (\<lambda>(code, w').
      if code = 0 then Q (Inr (), (clear x, w')) else \<forall>e. Q (Inl e, (x, w')))"
  shows "runs (close_handle E name f get clear (x, w)) Q"
proof (cases "get x = 0")
  case True
  with assms(1) show ?thesis by (simp add: close_handle_def)
next
  case False
  show ?thesis
    by (rule runs_cases [OF assms(2) [OF False]])
      (use False in \<open>auto simp: close_handle_def check_def\<close>)
qed

definition closed_by :: "'p lib \<Rightarrow> 'p world \<Rightarrow> nat \<Rightarrow> connection \<Rightarrow> (connection \<Rightarrow> connection)
    \<Rightarrow> unit result \<times> (connection \<times> 'p world) \<Rightarrow> bool" where
  "closed_by E w0 n c clear = (\<lambda>(r, (c', w')). conn_ok E w0 w' c' \<and> ticks w' = n \<and>
     c' = (if is_ok r then clear c else c) \<and> (closes_ok E \<longrightarrow> is_ok r))"

lemma closed_by_null:
  "conn_ok E w0 w c \<Longrightarrow> clear c = c \<Longrightarrow> closed_by E w0 (ticks w) c clear (Inr (), (c, w))"
  by (simp add: closed_by_def)

lemma ledger_ticks [simp]:
  "ticks (del_endpoint a p w) = ticks w" "ticks (del_cq a k w) = ticks w"
  "ticks (del_op a w) = ticks w" "ticks (del_mr a m w) = ticks w" "ticks (del_eq a e w) = ticks w"
  "ticks (del_domain a d w) = ticks w" "ticks (free_bytes b w) = ticks w"
  "ticks (add_domain a d w) = ticks w" "ticks (add_eq a e w) = ticks w"
  "ticks (add_cq a k w) = ticks w" "ticks (add_mr a m w) = ticks w" "ticks (add_op a op w) = ticks w"
  "ticks (add_endpoint a p w) = ticks w" "ticks (spoil_cqs t u w) = ticks w"
  "ticks (start_op y op w) = ticks w" "ticks (finish_op z y op w) = ticks w"
  "ticks (add_info a r w) = ticks w" "ticks (take_info w) = ticks w"
  by (simp_all add: del_endpoint_def del_cq_def del_op_def del_mr_def del_eq_def del_domain_def
      free_bytes_def add_domain_def add_eq_def add_cq_def add_mr_def add_op_def add_endpoint_def
      spoil_cqs_def start_op_def finish_op_def add_info_def take_info_def Let_def split: option.split)

text \<open>A close of the shim, seen from the macro.\<close>

lemma closed_by_step:
  assumes "f (get c) w = Some (close_step E busy raw del v)" and "get c \<noteq> 0"
    and "closes_ok E \<Longrightarrow> \<not> busy" and "ticks v = ticks w" and "conn_ok E w0 w c"
    and "\<And>p. conn_ok E w0 (v\<lparr>prov := p\<rparr>) c"
    and "\<And>p. \<not> busy \<Longrightarrow> conn_ok E w0 (del (v\<lparr>prov := p\<rparr>)) (clear c)"
    and "\<And>p. ticks (del (v\<lparr>prov := p\<rparr>)) = ticks v" and "v = w \<or> \<not> busy"
    and "errno_ok E"
  shows "runs (close_handle E name f get clear (c, w)) (closed_by E w0 (ticks w) c clear)"
proof (rule runs_close_handle)
  obtain r w' where cs: "close_step E busy raw del v = (r, w')" by (metis prod.exhaust)
  from cs show "runs (f (get c) w) (\<lambda>(code, w').
      if code = 0 then closed_by E w0 (ticks w) c clear (Inr (), (clear c, w'))
      else \<forall>e. closed_by E w0 (ticks w) c clear (Inl e, (c, w')))"
  proof (cases rule: close_step_cases)
    case busy
    then show ?thesis using assms cs by (auto simp: closed_by_def)
  next
    case (refused p)
    then show ?thesis using assms cs
      by (auto simp: closed_by_def dest: closes_okD)
  next
    case (closed p)
    then show ?thesis using assms cs by (simp add: closed_by_def)
  qed
qed (use assms(2) in simp)

subsection \<open>The steps\<close>

lemma close_ep:
  assumes "conn_ok E w0 w c" and "errno_ok E"
  shows "runs (close_handle E ''shim_endpoint_close'' (shim_endpoint_close E) cn_ep
      (cn_ep_update (\<lambda>_. 0)) (c, w)) (closed_by E w0 (ticks w) c (cn_ep_update (\<lambda>_. 0)))"
proof (cases "cn_ep c = 0")
  case True
  then have "c\<lparr>cn_ep := 0\<rparr> = c" by simp
  then show ?thesis using assms True by (intro runs_close_handle) (simp_all add: closed_by_null)
next
  case False
  obtain p where p: "endpoints w (cn_ep c) = Some p" using conn_live(5) [OF assms(1) False] by auto
  let ?w = "w\<lparr>endpoints := (endpoints w)(cn_ep c \<mapsto> p\<lparr>p_closing := True\<rparr>)\<rparr>"
  have ok: "conn_ok E w0 ?w c" using assms(1) p by (rule conn_shutdown)
  have del: "del_endpoint (cn_ep c) p v = del_endpoint (cn_ep c) (p\<lparr>p_closing := True\<rparr>) v" for v :: "'a world"
    by (simp add: del_endpoint_def)
  have "conn_ok E w0 (del_endpoint (cn_ep c) (p\<lparr>p_closing := True\<rparr>) (?w\<lparr>prov := s\<rparr>)) (c\<lparr>cn_ep := 0\<rparr>)" for s
    by (rule conn_del_endpoint) (use ok in simp_all)
  note step = this
  show ?thesis
  proof (rule closed_by_step, rule shim_endpoint_close_eq [OF conn_ok_inv(1) [OF assms(1)] p])
  qed (use False assms step ok in \<open>simp_all add: del\<close>)
qed

lemma conn_cq_idle:
  assumes "conn_ok E w0 w c" and "cn_ep c = 0" and "cqs w q = Some k"
    and "q = cn_tx_cq c \<or> q = cn_rx_cq c"
  shows "\<not> c_attached k"
proof
  note i = conn_ok_inv [OF assms(1)]
  have ep: "endpoints w = endpoints w0"
    using conn_own(4) [OF assms(1)] assms(2) by (intro own_all_null [of "{cn_ep c}"]) auto
  have "q \<noteq> 0" using assms(3) inv_nullD(5) [OF i(1)] by auto
  then have free: "cqs w0 q = None"
    using own_was_free [OF conn_own(3) [OF assms(1)], of q] assms(4) by auto
  assume "c_attached k"
  then obtain a p where "endpoints w0 a = Some p" "p_tx p = q \<or> p_rx p = q"
    using cq_flagsD [OF i(1) assms(3)] by (auto simp: cq_flags_ok_def user_of_def uses_cq_def ep)
  with endpoint_parents [OF i(2), of a p] free show False by auto
qed

lemma close_tx_cq:
  assumes "conn_ok E w0 w c" and "errno_ok E" and "cn_ep c = 0"
  shows "runs (close_handle E ''shim_cq_close'' (shim_cq_close E) cn_tx_cq
      (cn_tx_cq_update (\<lambda>_. 0)) (c, w)) (closed_by E w0 (ticks w) c (cn_tx_cq_update (\<lambda>_. 0)))"
proof (cases "cn_tx_cq c = 0")
  case True
  then have "c\<lparr>cn_tx_cq := 0\<rparr> = c" by simp
  then show ?thesis using assms True by (intro runs_close_handle) (simp_all add: closed_by_null)
next
  case False
  obtain k where k: "cqs w (cn_tx_cq c) = Some k" using conn_live(3) [OF assms(1) False] by auto
  have idle: "\<not> c_attached k" using conn_cq_idle [OF assms(1,3) k] by simp
  have "conn_ok E w0 (del_cq (cn_tx_cq c) k (w\<lparr>prov := s\<rparr>)) (c\<lparr>cn_tx_cq := 0\<rparr>)" for s
    by (rule conn_del_cq [where k = k]) (use assms k idle in auto)
  note step = this
  show ?thesis
  proof (rule closed_by_step, rule shim_cq_close_eq [OF conn_ok_inv(1) [OF assms(1)] k])
  qed (use False assms step idle in simp_all)
qed

lemma close_rx_cq:
  assumes "conn_ok E w0 w c" and "errno_ok E" and "cn_ep c = 0"
  shows "runs (close_handle E ''shim_cq_close'' (shim_cq_close E) cn_rx_cq
      (cn_rx_cq_update (\<lambda>_. 0)) (c, w)) (closed_by E w0 (ticks w) c (cn_rx_cq_update (\<lambda>_. 0)))"
proof (cases "cn_rx_cq c = 0")
  case True
  then have "c\<lparr>cn_rx_cq := 0\<rparr> = c" by simp
  then show ?thesis using assms True by (intro runs_close_handle) (simp_all add: closed_by_null)
next
  case False
  obtain k where k: "cqs w (cn_rx_cq c) = Some k" using conn_live(4) [OF assms(1) False] by auto
  have idle: "\<not> c_attached k" using conn_cq_idle [OF assms(1,3) k] by simp
  have "conn_ok E w0 (del_cq (cn_rx_cq c) k (w\<lparr>prov := s\<rparr>)) (c\<lparr>cn_rx_cq := 0\<rparr>)" for s
    by (rule conn_del_cq [where k = k]) (use assms k idle in auto)
  note step = this
  show ?thesis
  proof (rule closed_by_step, rule shim_cq_close_eq [OF conn_ok_inv(1) [OF assms(1)] k])
  qed (use False assms step idle in simp_all)
qed

lemma close_eq:
  assumes "conn_ok E w0 w c" and "errno_ok E" and "cn_ep c = 0"
  shows "runs (close_handle E ''shim_eq_close'' (shim_eq_close E) cn_eq
      (cn_eq_update (\<lambda>_. 0)) (c, w)) (closed_by E w0 (ticks w) c (cn_eq_update (\<lambda>_. 0)))"
proof (cases "cn_eq c = 0")
  case True
  then have "c\<lparr>cn_eq := 0\<rparr> = c" by simp
  then show ?thesis using assms True by (intro runs_close_handle) (simp_all add: closed_by_null)
next
  case False
  note i = conn_ok_inv [OF assms(1)]
  obtain e where e: "eqs w (cn_eq c) = Some e" using conn_live(2) [OF assms(1) False] by auto
  have ep: "endpoints w = endpoints w0"
    using conn_own(4) [OF assms(1)] assms(3) by (intro own_all_null [of "{cn_ep c}"]) auto
  have free: "eqs w0 (cn_eq c) = None"
    using own_was_free [OF conn_own(2) [OF assms(1)]] False by simp
  have "listeners w = listeners w0" using assms(1) by (simp add: conn_structure)
  then have idle: "e_users e = 0"
    using i(1) e kids_orphans(4,8) [OF i(2) free] by (simp add: inv_def inv_counts_def counted_def ep)
  have "conn_ok E w0 (del_eq (cn_eq c) e (w\<lparr>prov := s\<rparr>)) (c\<lparr>cn_eq := 0\<rparr>)" for s
    by (rule conn_del_eq) (use assms e idle in simp_all)
  note step = this
  show ?thesis
  proof (rule closed_by_step, rule shim_eq_close_eq [OF i(1) e])
  qed (use False assms step idle in simp_all)
qed

lemma close_domain:
  assumes "conn_ok E w0 w c" and "errno_ok E" and "cn_ep c = 0" "cn_tx_cq c = 0" "cn_rx_cq c = 0"
    and "sl_mr (cn_tx c) = 0" "sl_mr (cn_rx c) = 0"
  shows "runs (close_handle E ''shim_domain_close'' (shim_domain_close E) cn_domain
      (cn_domain_update (\<lambda>_. 0)) (c, w)) (closed_by E w0 (ticks w) c (cn_domain_update (\<lambda>_. 0)))"
proof (cases "cn_domain c = 0")
  case True
  then have "c\<lparr>cn_domain := 0\<rparr> = c" by simp
  then show ?thesis using assms True by (intro runs_close_handle) (simp_all add: closed_by_null)
next
  case False
  note i = conn_ok_inv [OF assms(1)] and o' = conn_own [OF assms(1)]
  obtain d where d: "domains w (cn_domain c) = Some d" using conn_live(1) [OF assms(1) False] by auto
  have same: "endpoints w = endpoints w0" "cqs w = cqs w0" "mrs w = mrs w0"
    using own_all_null [OF o'(4)] own_all_null [OF o'(3)] own_all_null [OF o'(5)] assms(3-) by auto
  have free: "domains w0 (cn_domain c) = None" using own_was_free [OF o'(1)] False by simp
  have idle: "d_children d = 0"
    using i(1) d kids_orphans(5-7) [OF i(2) free]
    by (simp add: inv_def inv_counts_def counted_def same)
  have "conn_ok E w0 (del_domain (cn_domain c) d (w\<lparr>prov := s\<rparr>)) (c\<lparr>cn_domain := 0\<rparr>)" for s
    by (rule conn_del_domain) (use assms d idle in simp_all)
  note step = this
  show ?thesis
  proof (rule closed_by_step, rule shim_domain_close_eq [OF i(1) d])
  qed (use False assms step idle in simp_all)
qed

subsection \<open>Slots\<close>

text \<open>The two slots of a connection, by direction.\<close>

definition slot_of :: "bool \<Rightarrow> connection \<Rightarrow> slot" where
  "slot_of tx c = (if tx then cn_tx c else cn_rx c)"

definition with_slot :: "bool \<Rightarrow> connection \<Rightarrow> slot \<Rightarrow> connection" where
  "with_slot tx c s = (if tx then c\<lparr>cn_tx := s\<rparr> else c\<lparr>cn_rx := s\<rparr>)"

lemma with_slot_same [simp]: "with_slot tx c (slot_of tx c) = c"
  by (simp add: with_slot_def slot_of_def)

lemma slot_of_with [simp]: "slot_of tx (with_slot tx c s) = s"
  by (simp add: with_slot_def slot_of_def)

lemma with_slot_keeps [simp]:
  "cn_ep (with_slot tx c s) = cn_ep c" "cn_tx_cq (with_slot tx c s) = cn_tx_cq c"
  "cn_rx_cq (with_slot tx c s) = cn_rx_cq c" "cn_closing (with_slot tx c s) = cn_closing c"
  "cn_fabric (with_slot tx c s) = cn_fabric c" "with_slot tx (with_slot tx c s) t = with_slot tx c t"
  by (simp_all add: with_slot_def)

text \<open>Once both queues are closed, no region of the connection is borrowed.\<close>

lemma conn_mr_idle:
  assumes "conn_ok E w0 w c" and "cn_tx_cq c = 0" and "cn_rx_cq c = 0"
    and "mrs w a = Some m" and "a = sl_mr (slot_of tx c)"
  shows "m_pending m = 0"
proof -
  note i = conn_ok_inv [OF assms(1)] and o' = conn_own [OF assms(1)]
  have a: "a \<noteq> 0" using assms(4) inv_nullD(8) [OF i(1)] by auto
  have ok: "slot_ok (mrs w) (ops w) (mem w) (cn_domain c) (cn_tx_cq c) (cn_tx c)"
    "slot_ok (mrs w) (ops w) (mem w) (cn_domain c) (cn_rx_cq c) (cn_rx c)"
    using assms(1) by (simp_all add: conn_structure)
  have free: "mrs w0 a = None"
    using own_was_free [OF o'(5) _ a] assms(5) by (auto simp: slot_of_def split: if_splits)
  have "o_mr op \<noteq> a" if x: "ops w x = Some op" for x op
  proof
    assume m: "o_mr op = a"
    with op_mr_live [OF i(1) x] a have q: "o_cq op \<noteq> 0" by simp
    show False
    proof (cases "x = sl_op (cn_tx c) \<or> x = sl_op (cn_rx c)")
      case True
      with ok x q assms(2,3) show False by (auto simp: slot_ok_def)
    next
      case False
      then have "ops w0 x = Some op" using own_other [OF o'(6), of x] x by auto
      from op_mr_live [OF i(2) this] m a free show False by simp
    qed
  qed
  then have "kids (ops w) o_mr a = 0" unfolding kids_def by (intro refs_none) blast
  then show ?thesis using i(1) assms(4) by (simp add: inv_def inv_counts_def counted_def)
qed

definition slot_closed_by :: "'p lib \<Rightarrow> 'p world \<Rightarrow> nat \<Rightarrow> bool \<Rightarrow> connection \<Rightarrow> (slot \<Rightarrow> slot)
    \<Rightarrow> unit result \<times> (slot \<times> 'p world) \<Rightarrow> bool" where
  "slot_closed_by E w0 n tx c clear = (\<lambda>(r, (s', w')). conn_ok E w0 w' (with_slot tx c s') \<and>
     ticks w' = n \<and> s' = (if is_ok r then clear (slot_of tx c) else slot_of tx c) \<and>
     (closes_ok E \<longrightarrow> is_ok r))"

lemma close_op:
  assumes "conn_ok E w0 w c" and "errno_ok E" and "cn_tx_cq c = 0" and "cn_rx_cq c = 0"
  shows "runs (close_handle E ''shim_op_free'' (shim_op_free E) sl_op (sl_op_update (\<lambda>_. 0))
    (slot_of tx c, w)) (slot_closed_by E w0 (ticks w) tx c (sl_op_update (\<lambda>_. 0)))"
proof (rule runs_close_handle)
  assume z: "sl_op (slot_of tx c) = 0"
  then have "(slot_of tx c)\<lparr>sl_op := 0\<rparr> = slot_of tx c" by simp
  with assms(1) show "slot_closed_by E w0 (ticks w) tx c (sl_op_update (\<lambda>_. 0)) (Inr (), (slot_of tx c, w))"
    by (simp add: slot_closed_by_def)
next
  assume nz: "sl_op (slot_of tx c) \<noteq> 0"
  then obtain x where x: "ops w (sl_op (slot_of tx c)) = Some x"
    using conn_live(8,9) [OF assms(1)] by (auto simp: slot_of_def split: if_splits)
  have "slot_ok (mrs w) (ops w) (mem w) (cn_domain c) 0 (slot_of tx c)"
    using assms(1,3,4) by (simp add: conn_structure slot_of_def)
  then have idle: "o_cq x = 0" using x by (auto simp: slot_ok_def)
  have "conn_ok E w0 (del_op (sl_op (slot_of tx c)) w) (with_slot tx c ((slot_of tx c)\<lparr>sl_op := 0\<rparr>))"
    by (rule conn_del_op [OF assms(1) x idle]) (simp add: slot_of_def with_slot_def)
  then show "runs (shim_op_free E (sl_op (slot_of tx c)) w) (\<lambda>(code, w').
      if code = 0 then slot_closed_by E w0 (ticks w) tx c (sl_op_update (\<lambda>_. 0))
          (Inr (), ((slot_of tx c)\<lparr>sl_op := 0\<rparr>, w'))
      else \<forall>e. slot_closed_by E w0 (ticks w) tx c (sl_op_update (\<lambda>_. 0)) (Inl e, (slot_of tx c, w')))"
    unfolding shim_op_free_eq [OF conn_ok_inv(1) [OF assms(1)] x]
    by (simp add: idle slot_closed_by_def)
qed

lemma close_mr:
  assumes "conn_ok E w0 w c" and "errno_ok E" and "cn_tx_cq c = 0" and "cn_rx_cq c = 0"
    and "sl_op (slot_of tx c) = 0"
  shows "runs (close_handle E ''shim_mr_close'' (shim_mr_close E) sl_mr (sl_mr_update (\<lambda>_. 0))
    (slot_of tx c, w)) (slot_closed_by E w0 (ticks w) tx c (sl_mr_update (\<lambda>_. 0)))"
proof (rule runs_close_handle)
  assume z: "sl_mr (slot_of tx c) = 0"
  then have "(slot_of tx c)\<lparr>sl_mr := 0\<rparr> = slot_of tx c" by simp
  with assms(1) show "slot_closed_by E w0 (ticks w) tx c (sl_mr_update (\<lambda>_. 0)) (Inr (), (slot_of tx c, w))"
    by (simp add: slot_closed_by_def)
next
  assume nz: "sl_mr (slot_of tx c) \<noteq> 0"
  then obtain m where m: "mrs w (sl_mr (slot_of tx c)) = Some m"
    using conn_live(6,7) [OF assms(1)] by (auto simp: slot_of_def split: if_splits)
  have idle: "m_pending m = 0" using conn_mr_idle [OF assms(1,3,4) m] by simp
  have del: "conn_ok E w0 (del_mr (sl_mr (slot_of tx c)) m (w\<lparr>prov := p\<rparr>))
      (with_slot tx c ((slot_of tx c)\<lparr>sl_mr := 0\<rparr>))" for p
    by (rule conn_del_mr [where c = c])
      (use assms(1,5) m idle in \<open>auto simp: slot_of_def with_slot_def\<close>)
  show "runs (shim_mr_close E (sl_mr (slot_of tx c)) w) (\<lambda>(code, w').
      if code = 0 then slot_closed_by E w0 (ticks w) tx c (sl_mr_update (\<lambda>_. 0))
          (Inr (), ((slot_of tx c)\<lparr>sl_mr := 0\<rparr>, w'))
      else \<forall>e. slot_closed_by E w0 (ticks w) tx c (sl_mr_update (\<lambda>_. 0)) (Inl e, (slot_of tx c, w')))"
    unfolding shim_mr_close_eq [OF conn_ok_inv(1) [OF assms(1)] m]
    using assms(1) del
    by (auto simp: idle slot_closed_by_def close_step_def call_prov dest: closes_okD split: prod.splits)
      (metis closes_ok_def)
qed

text \<open>A slot that owns nothing any more.\<close>

definition slot_gone :: "slot \<Rightarrow> bool" where
  "slot_gone s \<longleftrightarrow> sl_op s = 0 \<and> sl_mr s = 0 \<and> sl_bytes s = None"

lemma close_slot:
  assumes "conn_ok E w0 w c" and "errno_ok E" and "cn_tx_cq c = 0" and "cn_rx_cq c = 0"
    and "cn_closing c"
  shows "runs (slot_close E (slot_of tx c, w)) (\<lambda>(r, (s', w')).
    conn_ok E w0 w' (with_slot tx c s') \<and> ticks w' = ticks w \<and>
    (is_ok r \<longrightarrow> slot_gone s') \<and> (closes_ok E \<longrightarrow> is_ok r))"
  unfolding slot_close_def
proof (rule runs_qmarkI, rule close_op [OF assms(1-4), of tx])
  fix e and s' :: "slot \<times> 'a world"
  assume "slot_closed_by E w0 (ticks w) tx c (sl_op_update (\<lambda>_. 0)) (Inl e, s')"
  then show "(case (Inl e :: unit result, s') of (r, s', w') \<Rightarrow>
      conn_ok E w0 w' (with_slot tx c s') \<and> ticks w' = ticks w \<and>
      (is_ok r \<longrightarrow> slot_gone s') \<and> (closes_ok E \<longrightarrow> is_ok r))"
    by (auto simp: slot_closed_by_def)
next
  fix u and s' :: "slot \<times> 'a world"
  assume "slot_closed_by E w0 (ticks w) tx c (sl_op_update (\<lambda>_. 0)) (Inr u, s')"
  then obtain s1 w1 where s': "s' = (s1, w1)" and ok1: "conn_ok E w0 w1 (with_slot tx c s1)"
    and t1: "ticks w1 = ticks w" and s1: "s1 = (slot_of tx c)\<lparr>sl_op := 0\<rparr>"
    by (cases s') (auto simp: slot_closed_by_def)
  have mr: "runs (close_handle E ''shim_mr_close'' (shim_mr_close E) sl_mr (sl_mr_update (\<lambda>_. 0))
      s') (slot_closed_by E w0 (ticks w1) tx (with_slot tx c s1) (sl_mr_update (\<lambda>_. 0)))"
    using close_mr [OF ok1 assms(2), of tx] assms(3,4) by (simp add: s1 s')
  show "runs (qmark (close_handle E ''shim_mr_close'' (shim_mr_close E) sl_mr (sl_mr_update (\<lambda>_. 0)))
      (\<lambda>_ (s, w). Some (Inr (), (s\<lparr>sl_bytes := None, sl_pending := False\<rparr>,
                            free_bytes (sl_bytes s) w))) s')
      (\<lambda>(r, (s', w')). conn_ok E w0 w' (with_slot tx c s') \<and> ticks w' = ticks w \<and>
        (is_ok r \<longrightarrow> slot_gone s') \<and> (closes_ok E \<longrightarrow> is_ok r))"
  proof (rule runs_qmarkI, rule mr)
    fix v and t :: "slot \<times> 'a world"
    assume "slot_closed_by E w0 (ticks w1) tx (with_slot tx c s1) (sl_mr_update (\<lambda>_. 0)) (Inr v, t)"
    then obtain s2 w2 where t: "t = (s2, w2)" and ok2: "conn_ok E w0 w2 (with_slot tx c s2)"
      and t2: "ticks w2 = ticks w" and s2: "s2 = s1\<lparr>sl_mr := 0\<rparr>"
      by (cases t) (auto simp: slot_closed_by_def t1)
    have "conn_ok E w0 (free_bytes (sl_bytes s2) w2)
        (with_slot tx c (s2\<lparr>sl_bytes := None, sl_pending := False\<rparr>))"
      by (rule conn_free_box [OF ok2]) (use assms(5) s1 s2 in \<open>simp_all add: with_slot_def\<close>)
    then show "runs (case t of (s, w) \<Rightarrow> Some (Inr (), (s\<lparr>sl_bytes := None, sl_pending := False\<rparr>,
                            free_bytes (sl_bytes s) w)))
      (\<lambda>(r, (s', w')). conn_ok E w0 w' (with_slot tx c s') \<and> ticks w' = ticks w \<and>
        (is_ok r \<longrightarrow> slot_gone s') \<and> (closes_ok E \<longrightarrow> is_ok r))"
      using t2 s1 s2 by (simp add: t slot_gone_def)
  qed (auto simp: slot_closed_by_def t1)
qed

subsection \<open>The whole close\<close>

text \<open>
  A sequence of \<open>?\<close> steps that all keep \<open>G\<close>, each of which reaches its own goal when it
  succeeds, and succeeds when the provider's closes do.
\<close>

definition attempt :: "'p lib \<Rightarrow> ('s \<Rightarrow> bool) \<Rightarrow> ('s \<Rightarrow> bool) \<Rightarrow> 'a result \<times> 's \<Rightarrow> bool" where
  "attempt E G P = (\<lambda>(r, s). G s \<and> (is_ok r \<longrightarrow> P s) \<and> (closes_ok E \<longrightarrow> is_ok r))"

lemma attempt_qmark:
  assumes "runs (m s) (attempt E G P)"
    and "\<And>a s'. G s' \<Longrightarrow> P s' \<Longrightarrow> runs (k a s') (attempt E G Q)"
  shows "runs (qmark m k s) (attempt E G Q)"
  by (rule runs_qmarkI, rule assms(1)) (use assms(2) in \<open>auto simp: attempt_def\<close>)

definition closing_from :: "'p lib \<Rightarrow> 'p world \<Rightarrow> nat \<Rightarrow> addr \<Rightarrow> connection \<times> 'p world \<Rightarrow> bool" where
  "closing_from E w0 n f = (\<lambda>(c, w). conn_ok E w0 w c \<and> ticks w = n \<and> cn_closing c \<and> cn_fabric c = f)"

lemma closed_by_attempt:
  assumes "closing_from E w0 n f s"
    and "\<And>c w. s = (c, w) \<Longrightarrow> conn_ok E w0 w c \<Longrightarrow> runs (m (c, w)) (closed_by E w0 (ticks w) c clear)"
    and "P (clear (fst s))"
    and "\<And>c. cn_closing (clear c) = cn_closing c" "\<And>c. cn_fabric (clear c) = cn_fabric c"
  shows "runs (m s) (attempt E (closing_from E w0 n f) (\<lambda>s. P (fst s)))"
proof -
  obtain c w where s: "s = (c, w)" by (cases s)
  with assms(1) have ok: "conn_ok E w0 w c" by (simp add: closing_from_def)
  show ?thesis
    by (rule runs_cases [OF assms(2) [OF s ok]])
      (use assms(1,3-) in \<open>auto simp: s attempt_def closed_by_def closing_from_def\<close>)
qed

definition half_gone :: "connection \<Rightarrow> bool" where
  "half_gone c \<longleftrightarrow> cn_ep c = 0 \<and> cn_tx_cq c = 0 \<and> cn_rx_cq c = 0"

definition slots_gone :: "connection \<Rightarrow> bool" where
  "slots_gone c \<longleftrightarrow> half_gone c \<and> slot_gone (cn_tx c) \<and> slot_gone (cn_rx c)"

definition conn_gone :: "connection \<Rightarrow> bool" where
  "conn_gone c \<longleftrightarrow> slots_gone c \<and> cn_eq c = 0 \<and> cn_domain c = 0"

lemmas gone_defs = half_gone_def slots_gone_def conn_gone_def slot_gone_def

lemma begin_close_attempt:
  assumes "conn_ok E w0 w c"
  shows "runs (begin_close E (c, w))
    (attempt E (closing_from E w0 (ticks w) (cn_fabric c)) (\<lambda>_. True))"
proof (cases "cn_cm_started c \<and> cn_ep c \<noteq> 0")
  case True
  then obtain p where p: "endpoints w (cn_ep c) = Some p" using conn_live(5) [OF assms] by auto
  have "conn_ok E w0 (w\<lparr>endpoints := (endpoints w)(cn_ep c \<mapsto> p\<lparr>p_closing := True\<rparr>), prov := s\<rparr>)
      (c\<lparr>cn_closing := True\<rparr>)" for s
    using conn_ok_closing [OF conn_shutdown [OF assms p], THEN iffD2 [OF conn_ok_provider(1)]]
    by simp
  then show ?thesis
    using True assms
    by (auto simp: begin_close_def attempt_def closing_from_def conn_ok_closing
        intro!: runs_conseq [OF shim_shutdown_spec [OF conn_ok_inv(1) [OF assms] p]])
qed (use assms in \<open>auto simp: begin_close_def attempt_def closing_from_def conn_ok_closing\<close>)

lemma slot_attempt:
  assumes "closing_from E w0 n f s" and "half_gone (fst s)" and "errno_ok E"
  shows "runs (on_tx (slot_close E) s) (attempt E (closing_from E w0 n f)
      (\<lambda>s. half_gone (fst s) \<and> slot_gone (cn_tx (fst s))))"
    and "slot_gone (cn_tx (fst s)) \<Longrightarrow> runs (on_rx (slot_close E) s) (attempt E (closing_from E w0 n f)
      (\<lambda>s. slots_gone (fst s)))"
proof -
  obtain c w where s: "s = (c, w)" by (cases s)
  have ok: "conn_ok E w0 w c" "cn_closing c" "cn_tx_cq c = 0" "cn_rx_cq c = 0"
    using assms by (simp_all add: closing_from_def half_gone_def s)
  have tx: "with_slot True c s = c\<lparr>cn_tx := s\<rparr>" and rx: "with_slot False c s = c\<lparr>cn_rx := s\<rparr>" for s
    by (simp_all add: with_slot_def)
  note close = close_slot [OF ok(1) assms(3) ok(3,4,2)]
  show "runs (on_tx (slot_close E) s) (attempt E (closing_from E w0 n f)
      (\<lambda>s. half_gone (fst s) \<and> slot_gone (cn_tx (fst s))))"
    unfolding on_tx_def
    by (rule runs_cases [OF close [of True]])
      (use assms in \<open>auto simp: s attempt_def closing_from_def tx slot_of_def half_gone_def\<close>)
  show "runs (on_rx (slot_close E) s) (attempt E (closing_from E w0 n f)
      (\<lambda>s. slots_gone (fst s)))" if "slot_gone (cn_tx (fst s))"
    unfolding on_rx_def
    by (rule runs_cases [OF close [of False]])
      (use assms that in \<open>auto simp: s attempt_def closing_from_def rx slot_of_def half_gone_def
        slots_gone_def\<close>)
qed

lemma handle_attempts:
  assumes g: "closing_from E w0 n f s" and ok: "errno_ok E"
  shows "runs (close_handle E ''shim_endpoint_close'' (shim_endpoint_close E) cn_ep
      (cn_ep_update (\<lambda>_. 0)) s) (attempt E (closing_from E w0 n f) (\<lambda>s. cn_ep (fst s) = 0))"
    and "cn_ep (fst s) = 0 \<Longrightarrow>
      runs (close_handle E ''shim_cq_close'' (shim_cq_close E) cn_tx_cq (cn_tx_cq_update (\<lambda>_. 0)) s)
      (attempt E (closing_from E w0 n f) (\<lambda>s. cn_ep (fst s) = 0 \<and> cn_tx_cq (fst s) = 0))"
    and "cn_ep (fst s) = 0 \<and> cn_tx_cq (fst s) = 0 \<Longrightarrow>
      runs (close_handle E ''shim_cq_close'' (shim_cq_close E) cn_rx_cq (cn_rx_cq_update (\<lambda>_. 0)) s)
      (attempt E (closing_from E w0 n f) (\<lambda>s. half_gone (fst s)))"
    and "slots_gone (fst s) \<Longrightarrow>
      runs (close_handle E ''shim_eq_close'' (shim_eq_close E) cn_eq (cn_eq_update (\<lambda>_. 0)) s)
      (attempt E (closing_from E w0 n f) (\<lambda>s. slots_gone (fst s) \<and> cn_eq (fst s) = 0))"
    and "slots_gone (fst s) \<and> cn_eq (fst s) = 0 \<Longrightarrow>
      runs (close_handle E ''shim_domain_close'' (shim_domain_close E) cn_domain
        (cn_domain_update (\<lambda>_. 0)) s)
      (attempt E (closing_from E w0 n f) (\<lambda>s. conn_gone (fst s)))"
proof -
  note by_step = closed_by_attempt [OF g]
  show "runs (close_handle E ''shim_endpoint_close'' (shim_endpoint_close E) cn_ep
      (cn_ep_update (\<lambda>_. 0)) s) (attempt E (closing_from E w0 n f) (\<lambda>s. cn_ep (fst s) = 0))"
    by (rule by_step [where clear = "cn_ep_update (\<lambda>_. 0)"]) (simp_all add: close_ep ok)
  show "runs (close_handle E ''shim_cq_close'' (shim_cq_close E) cn_tx_cq (cn_tx_cq_update (\<lambda>_. 0)) s)
      (attempt E (closing_from E w0 n f) (\<lambda>s. cn_ep (fst s) = 0 \<and> cn_tx_cq (fst s) = 0))"
    if "cn_ep (fst s) = 0"
    by (rule by_step [where clear = "cn_tx_cq_update (\<lambda>_. 0)"
          and P = "\<lambda>c. cn_ep c = 0 \<and> cn_tx_cq c = 0"]) (use that in \<open>simp_all add: close_tx_cq ok\<close>)
  show "runs (close_handle E ''shim_cq_close'' (shim_cq_close E) cn_rx_cq (cn_rx_cq_update (\<lambda>_. 0)) s)
      (attempt E (closing_from E w0 n f) (\<lambda>s. half_gone (fst s)))"
    if "cn_ep (fst s) = 0 \<and> cn_tx_cq (fst s) = 0"
    by (rule by_step [where clear = "cn_rx_cq_update (\<lambda>_. 0)"])
      (use that in \<open>simp_all add: close_rx_cq ok half_gone_def\<close>)
  show "runs (close_handle E ''shim_eq_close'' (shim_eq_close E) cn_eq (cn_eq_update (\<lambda>_. 0)) s)
      (attempt E (closing_from E w0 n f) (\<lambda>s. slots_gone (fst s) \<and> cn_eq (fst s) = 0))"
    if "slots_gone (fst s)"
    by (rule by_step [where clear = "cn_eq_update (\<lambda>_. 0)" and P = "\<lambda>c. slots_gone c \<and> cn_eq c = 0"])
      (use that in \<open>simp_all add: close_eq ok gone_defs\<close>)
  show "runs (close_handle E ''shim_domain_close'' (shim_domain_close E) cn_domain
        (cn_domain_update (\<lambda>_. 0)) s)
      (attempt E (closing_from E w0 n f) (\<lambda>s. conn_gone (fst s)))"
    if "slots_gone (fst s) \<and> cn_eq (fst s) = 0"
    by (rule by_step [where clear = "cn_domain_update (\<lambda>_. 0)"])
      (use that in \<open>simp_all add: close_domain ok gone_defs\<close>)
qed

lemma conn_close_spec:
  assumes "conn_ok E w0 w c" and "errno_ok E"
  shows "runs (conn_close E (c, w))
    (attempt E (closing_from E w0 (ticks w) (cn_fabric c)) (\<lambda>s. conn_gone (fst s)))"
  unfolding conn_close_def
  by (rule attempt_qmark, rule begin_close_attempt [OF assms(1)],
      rule attempt_qmark, erule handle_attempts(1) [OF _ assms(2)],
      rule attempt_qmark, erule handle_attempts(2) [OF _ assms(2)], assumption,
      rule attempt_qmark, erule handle_attempts(3) [OF _ assms(2)], assumption,
      rule attempt_qmark, erule slot_attempt(1) [OF _ _ assms(2)], assumption,
      rule attempt_qmark, erule slot_attempt(2) [OF _ _ assms(2)], erule conjunct1, erule conjunct2,
      rule attempt_qmark, erule handle_attempts(4) [OF _ assms(2)], assumption,
      erule handle_attempts(5) [OF _ assms(2)], assumption)

text \<open>What is left of a closed connection: nothing, and the world is the one it started from.\<close>

definition restored :: "'p lib \<Rightarrow> 'p world \<Rightarrow> 'p world \<Rightarrow> bool" where
  "restored E w0 w \<longleftrightarrow> fabrics w = fabrics w0 \<and> domains w = domains w0 \<and> eqs w = eqs w0 \<and>
     cqs w = cqs w0 \<and> listeners w = listeners w0 \<and> endpoints w = endpoints w0 \<and> mrs w = mrs w0 \<and>
     ops w = ops w0 \<and> lens (mem w) = lens (mem w0) \<and> infos w0 \<subseteq>\<^sub>m infos w \<and>
     (no_requests E \<longrightarrow> infos w = infos w0 \<and> fi_lists w = fi_lists w0)"

lemma conn_gone_restored:
  assumes "conn_ok E w0 w c" and "conn_gone c"
  shows "restored E w0 w"
proof -
  note i = conn_ok_inv [OF assms(1)] and o' = conn_own [OF assms(1)]
  have z: "cn_domain c = 0" "cn_eq c = 0" "cn_tx_cq c = 0" "cn_rx_cq c = 0" "cn_ep c = 0"
    "sl_mr (cn_tx c) = 0" "sl_mr (cn_rx c) = 0" "sl_op (cn_tx c) = 0" "sl_op (cn_rx c) = 0"
    "box (cn_tx c) = 0" "box (cn_rx c) = 0"
    using assms(2) by (simp_all add: gone_defs box_def)
  have same: "domains w = domains w0" "eqs w = eqs w0" "cqs w = cqs w0" "endpoints w = endpoints w0"
    "mrs w = mrs w0" "ops w = ops w0" "lens (mem w) = lens (mem w0)" "listeners w = listeners w0"
    using o' [THEN own_all_null] z assms(1) by (simp_all add: conn_structure)
  have "fabrics w a = fabrics w0 a" for a
  proof -
    have raw: "map_option f_raw (fabrics w a) = map_option f_raw (fabrics w0 a)"
      using assms(1) by (simp add: conn_structure)
    show ?thesis
    proof (cases "fabrics w a")
      case None
      with raw show ?thesis by simp
    next
      case (Some f)
      with raw obtain f0 where f0: "fabrics w0 a = Some f0" "f_raw f = f_raw f0"
        by (cases "fabrics w0 a") auto
      have "f_children f = f_children f0"
        using i Some f0(1) by (simp add: inv_def inv_counts_def counted_def same)
      with Some f0 show ?thesis by simp
    qed
  qed
  then have "fabrics w = fabrics w0" by (rule ext)
  with same assms(1) show ?thesis by (simp add: restored_def conn_structure)
qed

lemma conn_drop_spec:
  assumes "conn_ok E w0 w c" and "errno_ok E"
  shows "runs (conn_drop E c w) (\<lambda>w'. inv w' \<and> ticks w' = ticks w \<and>
    (\<exists>c'. conn_ok E w0 w' c') \<and> (closes_ok E \<longrightarrow> restored E w0 w'))"
proof (rule runs_cases [OF conn_close_spec [OF assms]])
  fix x assume x: "conn_close E (c, w) = Some x"
    and post: "attempt E (closing_from E w0 (ticks w) (cn_fabric c)) (\<lambda>s. conn_gone (fst s)) x"
  obtain r c' w' where x': "x = (r, c', w')" by (cases x)
  with post have ok: "conn_ok E w0 w' c'" "ticks w' = ticks w" "is_ok r \<longrightarrow> conn_gone c'"
    "closes_ok E \<longrightarrow> is_ok r"
    by (simp_all add: attempt_def closing_from_def)
  note inv' = conn_ok_inv(1) [OF ok(1)]
  show ?thesis
  proof (cases r)
    case (Inl e)
    have "conn_ok E w0 (eprintln t w') c'" for t using ok(1) by (simp add: eprintln_def)
    moreover have "inv (eprintln t w')" "ticks (eprintln t w') = ticks w'" for t
      using inv' by (simp_all add: eprintln_def)
    ultimately show ?thesis
      using ok(2,4) unfolding conn_drop_def x x' Inl by (auto intro: exI)
  next
    case (Inr u)
    with ok(3) have gone: "conn_gone c'" by simp
    then have "sl_bytes (cn_tx c') = None" "sl_bytes (cn_rx c') = None" by (simp_all add: gone_defs)
    then show ?thesis
      using ok(1,2) inv' conn_gone_restored [OF ok(1) gone]
      unfolding conn_drop_def x x' Inr by (auto simp: free_bytes_def)
  qed
qed

end
