(* ===== verification/Conn_Io.thy ===== *)
theory Conn_Io
  imports Conn_Close
begin

text \<open>
  Posting and polling on a connection: every call keeps the invariant and changes nothing of
  the connection but the two pending flags; what each result means for the flags, and for
  the events, is stated exactly.
\<close>

subsection \<open>Steps that keep the handles\<close>

definition kept :: "connection \<Rightarrow> connection \<Rightarrow> bool" where
  "kept c c' \<longleftrightarrow> c' = c\<lparr>cn_tx := (cn_tx c)\<lparr>sl_pending := sl_pending (cn_tx c')\<rparr>,
                      cn_rx := (cn_rx c)\<lparr>sl_pending := sl_pending (cn_rx c')\<rparr>\<rparr>"

lemma kept_refl [simp]: "kept c c"
  by (simp add: kept_def)

lemma kept_tx [simp]: "kept c (c\<lparr>cn_tx := (cn_tx c)\<lparr>sl_pending := b\<rparr>\<rparr>)"
  by (cases c) (simp add: kept_def)

lemma kept_rx [simp]: "kept c (c\<lparr>cn_rx := (cn_rx c)\<lparr>sl_pending := b\<rparr>\<rparr>)"
  by (cases c) (simp add: kept_def)

lemma kept_same:
  assumes "kept c c'"
  shows "cn_fabric c' = cn_fabric c" "cn_domain c' = cn_domain c" "cn_eq c' = cn_eq c"
    "cn_tx_cq c' = cn_tx_cq c" "cn_rx_cq c' = cn_rx_cq c" "cn_ep c' = cn_ep c"
    "cn_closing c' = cn_closing c" "cn_cm_started c' = cn_cm_started c"
    "sl_bytes (cn_tx c') = sl_bytes (cn_tx c)" "sl_bytes (cn_rx c') = sl_bytes (cn_rx c)"
    "sl_mr (cn_tx c') = sl_mr (cn_tx c)" "sl_mr (cn_rx c') = sl_mr (cn_rx c)"
    "sl_op (cn_tx c') = sl_op (cn_tx c)" "sl_op (cn_rx c') = sl_op (cn_rx c)"
proof -
  obtain t r where "c' = c\<lparr>cn_tx := (cn_tx c)\<lparr>sl_pending := t\<rparr>, cn_rx := (cn_rx c)\<lparr>sl_pending := r\<rparr>\<rparr>"
    using assms unfolding kept_def by blast
  then show "cn_fabric c' = cn_fabric c" "cn_domain c' = cn_domain c" "cn_eq c' = cn_eq c"
    "cn_tx_cq c' = cn_tx_cq c" "cn_rx_cq c' = cn_rx_cq c" "cn_ep c' = cn_ep c"
    "cn_closing c' = cn_closing c" "cn_cm_started c' = cn_cm_started c"
    "sl_bytes (cn_tx c') = sl_bytes (cn_tx c)" "sl_bytes (cn_rx c') = sl_bytes (cn_rx c)"
    "sl_mr (cn_tx c') = sl_mr (cn_tx c)" "sl_mr (cn_rx c') = sl_mr (cn_rx c)"
    "sl_op (cn_tx c') = sl_op (cn_tx c)" "sl_op (cn_rx c') = sl_op (cn_rx c)"
    by simp_all
qed

lemma kept_trans:
  assumes "kept a b" and "kept b c"
  shows "kept a c"
proof -
  obtain t r where b: "b = a\<lparr>cn_tx := (cn_tx a)\<lparr>sl_pending := t\<rparr>, cn_rx := (cn_rx a)\<lparr>sl_pending := r\<rparr>\<rparr>"
    using assms(1) unfolding kept_def by blast
  obtain t' r' where c: "c = b\<lparr>cn_tx := (cn_tx b)\<lparr>sl_pending := t'\<rparr>, cn_rx := (cn_rx b)\<lparr>sl_pending := r'\<rparr>\<rparr>"
    using assms(2) unfolding kept_def by blast
  show ?thesis unfolding kept_def c b by simp
qed

text \<open>\<open>kept_from\<close>: a world and a connection reached from \<open>c\<close> by such steps.\<close>

definition kept_from :: "'p lib \<Rightarrow> 'p world \<Rightarrow> nat \<Rightarrow> connection \<Rightarrow> connection \<times> 'p world \<Rightarrow> bool" where
  "kept_from E w0 n c = (\<lambda>(c', w'). conn_ok E w0 w' c' \<and> ticks w' = n \<and> kept c c')"

lemma kept_from_start: "conn_ok E w0 w c \<Longrightarrow> kept_from E w0 (ticks w) c (c, w)"
  by (simp add: kept_from_def)

lemma kept_from_trans:
  "kept_from E w0 n c (c1, w1) \<Longrightarrow> kept_from E w0 (ticks w1) c1 s \<Longrightarrow> kept_from E w0 n c s"
  by (auto simp: kept_from_def intro: kept_trans)

text \<open>The buffers of an open connection: 64 live bytes each.\<close>

lemma open_buffer:
  assumes "conn_ok E w0 w c" and "\<not> cn_closing c"
  obtains b bs where "sl_bytes (slot_of tx c) = Some b" "b \<noteq> 0" "mem w b = Some bs" "length bs = BUFFER_SIZE"
proof -
  have "sl_bytes (slot_of tx c) \<noteq> None"
    using assms by (auto simp: conn_structure slot_of_def split: if_splits)
  then obtain b where b: "sl_bytes (slot_of tx c) = Some b" by auto
  moreover have "slot_ok (mrs w) (ops w) (mem w) (cn_domain c)
      (if tx then cn_tx_cq c else cn_rx_cq c) (slot_of tx c)"
    using assms by (simp add: conn_structure slot_of_def)
  ultimately have "b \<noteq> 0" "lens (mem w) b = Some BUFFER_SIZE" by (auto simp: slot_ok_def)
  with that [OF b] show thesis by (auto simp: lens_def)
qed

lemma slot_dirs:
  "slot_of True c = cn_tx c" "slot_of False c = cn_rx c"
  "with_slot True c s = c\<lparr>cn_tx := s\<rparr>" "with_slot False c s = c\<lparr>cn_rx := s\<rparr>"
  by (simp_all add: slot_of_def with_slot_def)

subsection \<open>Posting\<close>
lemma endpoint_queue:
  assumes "conn_ok E w0 w c" and "cn_ep c \<noteq> 0"
  obtains p k where "endpoints w (cn_ep c) = Some p" and "p_tx p = cn_tx_cq c" "p_rx p = cn_rx_cq c"
    and "cqs w (if receive then p_rx p else p_tx p) = Some k"
proof -
  obtain p where p: "endpoints w (cn_ep c) = Some p" using conn_live(5) [OF assms] by auto
  have "p_tx p = cn_tx_cq c" "p_rx p = cn_rx_cq c" using assms(1) p by (simp_all add: conn_structure)
  moreover have "cqs w (if receive then p_rx p else p_tx p) \<noteq> None"
    using endpoint_parents [OF conn_ok_inv(1) [OF assms(1)] p] by auto
  ultimately show thesis using that p by auto
qed

lemma slot_ok_pending: "slot_ok mr os mm d q s \<Longrightarrow> slot_ok mr os mm d q (s\<lparr>sl_pending := True\<rparr>)"
  unfolding slot_ok_def by auto

lemma conn_pending:
  "conn_ok E w0 w c \<Longrightarrow> conn_ok E w0 w (with_slot tx c ((slot_of tx c)\<lparr>sl_pending := True\<rparr>))"
  by (cases tx) (simp_all add: conn_structure with_slot_def slot_of_def slot_ok_pending)

text \<open>One post on a slot, whatever it answers.\<close>

lemma post_message_spec:
  assumes "conn_ok E w0 w c" and "errno_ok E" and "cn_ep c \<noteq> 0"
  shows "runs (post_message E (cn_ep c) (sl_op (slot_of tx c)) (sl_mr (slot_of tx c)) n buf (\<not> tx) w)
    (\<lambda>(r, w'). if r = 0
       then conn_ok E w0 w' (with_slot tx c ((slot_of tx c)\<lparr>sl_pending := True\<rparr>)) \<and> ticks w' = ticks w
       else conn_ok E w0 w' c \<and> ticks w' = ticks w)"
proof (cases "sl_op (slot_of tx c) = 0 \<or> sl_mr (slot_of tx c) = 0")
  case True
  then show ?thesis using assms by (auto simp: post_message_def)
next
  case False
  note i = conn_ok_inv(1) [OF assms(1)]
  obtain x where x: "ops w (sl_op (slot_of tx c)) = Some x"
    using conn_live(8,9) [OF assms(1)] False by (auto simp: slot_of_def split: if_splits)
  obtain m where m: "mrs w (sl_mr (slot_of tx c)) = Some m"
    using conn_live(6,7) [OF assms(1)] False by (auto simp: slot_of_def split: if_splits)
  obtain p k where p: "endpoints w (cn_ep c) = Some p" and link: "p_tx p = cn_tx_cq c" "p_rx p = cn_rx_cq c"
    and k: "cqs w (if \<not> tx then p_rx p else p_tx p) = Some k"
    by (rule endpoint_queue [OF assms(1,3), of "\<not> tx"])
  let ?e = "post_checks E p x m k n buf (\<not> tx)"
  let ?op = "posted_op x (\<not> tx) n (sl_mr (slot_of tx c)) (if \<not> tx then p_rx p else p_tx p) (c_pending k) buf"
  obtain ret s where eq: "post_message E (cn_ep c) (sl_op (slot_of tx c)) (sl_mr (slot_of tx c)) n buf (\<not> tx) w =
      Some (if ?e \<noteq> 0 then (?e, w) else if ret \<noteq> 0 then (c_int ret, w\<lparr>prov := s\<rparr>)
            else (0, start_op (sl_op (slot_of tx c)) ?op (w\<lparr>prov := s\<rparr>)))"
    using post_message_eq [OF i assms(2) p m x k] by blast
  have "conn_ok E w0 (start_op (sl_op (slot_of tx c)) ?op (w\<lparr>prov := s\<rparr>))
      (with_slot tx c ((slot_of tx c)\<lparr>sl_pending := True\<rparr>))" if "?e = 0"
  proof (rule conn_start [where c = c])
    show "conn_ok E w0 (w\<lparr>prov := s\<rparr>) c" using assms(1) by simp
    show "inv (start_op (sl_op (slot_of tx c)) ?op (w\<lparr>prov := s\<rparr>))"
      by (rule inv_posted [OF i assms(2) p m x k that])
    show "sl_op (slot_of tx c) \<noteq> 0" using False by simp
  qed (use link in \<open>auto simp: posted_op_def slot_of_def with_slot_def\<close>)
  then show ?thesis unfolding eq using assms(1) conn_pending [OF assms(1), of tx]
    by auto
qed

lemma is_ok_check [simp]: "is_ok (check E code name) \<longleftrightarrow> code = 0"
  by (simp add: check_def)

lemma check_cases:
  obtains "code = 0" "check E code name = Inr ()"
    | e where "code \<noteq> 0" "check E code name = Inl e"
  by (cases "code = 0") (simp_all add: check_def)

text \<open>
  \<open>posted_by tx c\<close>: a post that reports success marks its slot pending, which it was not
  before; any other outcome leaves the connection exactly as it was.
\<close>

definition posted_by :: "bool \<Rightarrow> connection \<Rightarrow> bool result \<Rightarrow> connection \<Rightarrow> bool" where
  "posted_by tx c r c' \<longleftrightarrow> (if r = Inr True
     then \<not> sl_pending (slot_of tx c) \<and> c' = with_slot tx c ((slot_of tx c)\<lparr>sl_pending := True\<rparr>)
     else c' = c)"

lemma posted_by_kept: "posted_by tx c r c' \<Longrightarrow> kept c c'"
  by (auto simp: posted_by_def with_slot_def slot_of_def split: if_splits)

definition post_result :: "'p lib \<Rightarrow> string \<Rightarrow> int \<Rightarrow> bool result" where
  "post_result E name ret = (if shim_error_is_again E ret \<noteq> 0 then Inr False
     else (case check E ret name of Inl e \<Rightarrow> Inl e | Inr _ \<Rightarrow> Inr True))"

lemma post_result_ok: "errno_ok E \<Longrightarrow> post_result E name ret = Inr True \<longleftrightarrow> ret = 0"
  by (auto simp: post_result_def shim_error_is_again_def check_def)

lemma post_recv_spec:
  assumes "conn_ok E w0 w c" and "errno_ok E"
  shows "runs (post_recv E (c, w)) (\<lambda>(r, (c', w')).
    conn_ok E w0 w' c' \<and> ticks w' = ticks w \<and> posted_by False c r c')"
proof (cases "cn_ep c = 0 \<or> cn_closing c \<or> sl_pending (cn_rx c)")
  case True
  then show ?thesis using assms by (auto simp: post_recv_def ensure_open_def posted_by_def)
next
  case False
  then have "\<not> cn_closing c" by simp
  then obtain b bs where "sl_bytes (slot_of False c) = Some b" and bs: "mem w b = Some bs"
    by (rule open_buffer [OF assms(1), of False])
  then have b: "sl_bytes (cn_rx c) = Some b" "mem w b = Some bs" by (simp_all add: slot_of_def)
  note post = post_message_spec [OF assms, where n = "of_nat (length bs)" and buf = b and tx = False,
      unfolded slot_dirs not_False_eq_True not_True_eq_False]
  obtain ret w' where ret: "post_message E (cn_ep c) (sl_op (cn_rx c)) (sl_mr (cn_rx c))
      (of_nat (length bs)) b True w = Some (ret, w')"
    and ok: "if ret = 0 then conn_ok E w0 w' (c\<lparr>cn_rx := (cn_rx c)\<lparr>sl_pending := True\<rparr>\<rparr>) \<and> ticks w' = ticks w
       else conn_ok E w0 w' c \<and> ticks w' = ticks w"
    using post False by (auto simp: runs_Ex)
  have "post_recv E (c, w) = Some (post_result E ''shim_post_recv'' ret,
      if ret = 0 then c\<lparr>cn_rx := (cn_rx c)\<lparr>sl_pending := True\<rparr>\<rparr> else c, w')"
    using False b ret assms(2)
    by (auto simp: post_recv_def ensure_open_def shim_post_recv_def post_result_def check_def
        shim_error_is_again_def)
  then show ?thesis using ok False assms(2)
    by (auto simp: posted_by_def post_result_ok slot_of_def with_slot_def split: if_splits)
qed

text \<open>
  What \<open>send\<close> copies into the slot before it posts: the message at the start of the buffer.
\<close>

lemma conn_write:
  assumes "conn_ok E w0 w c" and "mem w b = Some bs" and "length bs' = length bs"
  shows "conn_ok E w0 (w\<lparr>mem := (mem w)(b \<mapsto> bs')\<rparr>) c"
proof -
  have "lens ((mem w)(b \<mapsto> bs')) = lens (mem w)"
    using assms(2,3) by (auto simp: lens_def)
  moreover from this have "slot_ok mr os ((mem w)(b \<mapsto> bs')) d q s = slot_ok mr os (mem w) d q s" for mr os d q s
    by (rule slot_ok_lens)
  moreover have "inv (w\<lparr>mem := (mem w)(b \<mapsto> bs')\<rparr>)"
    using conn_ok_inv(1) [OF assms(1)] assms(2,3) by (intro inv_mem)
  ultimately show ?thesis using assms(1) by (simp add: conn_structure)
qed

lemma send_spec:
  assumes "conn_ok E w0 w c" and "errno_ok E"
  shows "runs (send E msg (c, w)) (\<lambda>(r, (c', w')).
    conn_ok E w0 w' c' \<and> ticks w' = ticks w \<and> posted_by True c r c')"
proof (cases "cn_ep c = 0 \<or> cn_closing c \<or> sl_pending (cn_tx c)")
  case True
  then show ?thesis using assms by (auto simp: send_def ensure_open_def posted_by_def)
next
  case False
  then have "\<not> cn_closing c" by simp
  then obtain b bs where "sl_bytes (slot_of True c) = Some b" and bs: "mem w b = Some bs"
    by (rule open_buffer [OF assms(1), of True])
  then have b: "sl_bytes (cn_tx c) = Some b" "mem w b = Some bs" by (simp_all add: slot_of_def)
  show ?thesis
  proof (cases "length msg > length bs")
    case True
    with False b assms show ?thesis by (simp add: send_def ensure_open_def posted_by_def)
  next
    case fits: False
    let ?w = "w\<lparr>mem := (mem w)(b \<mapsto> msg @ drop (length msg) bs)\<rparr>"
    have ok1: "conn_ok E w0 ?w c" using fits by (intro conn_write [OF assms(1) b(2)]) simp
    obtain ret w' where ret: "post_message E (cn_ep c) (sl_op (cn_tx c)) (sl_mr (cn_tx c))
        (of_nat (length msg)) b False ?w = Some (ret, w')"
      and ok: "if ret = 0 then conn_ok E w0 w' (c\<lparr>cn_tx := (cn_tx c)\<lparr>sl_pending := True\<rparr>\<rparr>) \<and> ticks w' = ticks w
         else conn_ok E w0 w' c \<and> ticks w' = ticks w"
      using post_message_spec [OF ok1 assms(2), where n = "of_nat (length msg)" and buf = b and tx = True,
          unfolded slot_dirs not_False_eq_True not_True_eq_False] False
      by (auto simp: runs_Ex)
    have "send E msg (c, w) = Some (post_result E ''shim_post_send'' ret,
        if ret = 0 then c\<lparr>cn_tx := (cn_tx c)\<lparr>sl_pending := True\<rparr>\<rparr> else c, w')"
      using False b fits ret assms(2)
      by (auto simp: send_def ensure_open_def shim_post_send_def post_result_def check_def
          shim_error_is_again_def)
    then show ?thesis using ok False assms(2)
      by (auto simp: posted_by_def post_result_ok slot_of_def with_slot_def split: if_splits)
  qed
qed

subsection \<open>Polling\<close>

text \<open>One read of a queue of the connection: \<open>pend\<close> tells what may happen to its slot's flag.\<close>

lemma poll_cq_spec:
  assumes "conn_ok E w0 w c" and "cqs w q = Some k"
    and "q = cn_tx_cq c \<and> c1 = c\<lparr>cn_tx := (cn_tx c)\<lparr>sl_pending := False\<rparr>\<rparr> \<or>
         q = cn_rx_cq c \<and> c1 = c\<lparr>cn_rx := (cn_rx c)\<lparr>sl_pending := False\<rparr>\<rparr>"
  shows "runs (poll_cq E q w) (\<lambda>(r, w'). conn_ok E w0 w' c \<and> ticks w' = ticks w \<and>
    (\<forall>d. r = Inr (Some d) \<longrightarrow> op_id d \<noteq> 0 \<longrightarrow> conn_ok E w0 w' c1))"
proof -
  note i = conn_ok_inv(1) [OF assms(1)]
  obtain r out w' where poll: "shim_cq_poll E q True w = Some ((r, out), w')"
    and post: "cq_polled q k w ((r, out), w')"
    using shim_cq_poll_spec [OF i assms(2), of E] by (auto simp: runs_Ex)
  have ok: "conn_ok E w0 w' c \<and> ticks w' = ticks w \<and> (op_id out \<noteq> 0 \<longrightarrow> conn_ok E w0 w' c1)"
    using post unfolding cq_polled_def
  proof (simp only: prod.case, elim disjE conjE exE)
    assume "wrote w w'" and "op_id out = 0"
    then show ?thesis using conn_wrote [OF assms(1)] by (simp add: wrote_same)
  next
    fix v prev x op as bs
    assume wr: "wrote w v" and op: "ops w x = Some op" "o_cq op = q"
      and ch: "chain (ops w) (c_pending k) (as @ x # bs)"
      and prev: "prev = (if as = [] then 0 else last as)" and w': "w' = finish_op prev x op v"
    note same = wrote_same [OF wr]
    have okv: "conn_ok E w0 v c" by (rule conn_wrote [OF assms(1) wr])
    have "conn_ok E w0 (finish_op prev x op v) c'" if "c' = c \<or> c' = c1" for c'
      by (rule conn_finish [OF okv, where q = q and k = k and as = as and bs = bs])
        (use that op ch prev assms(2,3) in \<open>auto simp: same\<close>)
    then show ?thesis by (simp add: w' same)
  qed
  obtain r' where "poll_cq E q w = Some (r', w')"
    and "\<And>d. r' = Inr (Some d) \<Longrightarrow> d = out"
    using poll by (cases "r = 0"; cases "r < 0"; cases "err out = 0")
      (auto simp: poll_cq_def check_def)
  then show ?thesis using ok by (auto split: sum.split option.split)
qed

definition tx_polled :: "connection \<Rightarrow> event list result \<Rightarrow> connection \<Rightarrow> bool" where
  "tx_polled c r c' \<longleftrightarrow>
     (r = Inr [Sent] \<and> sl_pending (cn_tx c) \<and> c' = c\<lparr>cn_tx := (cn_tx c)\<lparr>sl_pending := False\<rparr>\<rparr>) \<or>
     (r = Inr [] \<or> \<not> is_ok r) \<and> c' = c"

lemma poll_tx_spec:
  assumes "conn_ok E w0 w c" and "cn_ep c \<noteq> 0"
  shows "runs (poll_tx E (c, w)) (\<lambda>(r, (c', w')). conn_ok E w0 w' c' \<and> ticks w' = ticks w \<and>
    tx_polled c r c')"
proof -
  obtain k where k: "cqs w (cn_tx_cq c) = Some k"
    using endpoint_queue [OF assms, of False] by (metis (full_types))
  let ?c1 = "c\<lparr>cn_tx := (cn_tx c)\<lparr>sl_pending := False\<rparr>\<rparr>"
  have "runs (poll_cq E (cn_tx_cq c) w) (\<lambda>(r, w'). conn_ok E w0 w' c \<and> ticks w' = ticks w \<and>
    (\<forall>d. r = Inr (Some d) \<longrightarrow> op_id d \<noteq> 0 \<longrightarrow> conn_ok E w0 w' ?c1))"
    by (rule poll_cq_spec [OF assms(1) k]) simp
  then show ?thesis
    unfolding poll_tx_def Let_def
    by (auto simp: tx_polled_def TX_ID_def elim!: runs_conseq split: sum.splits option.splits)
qed

text \<open>A received message is what the buffer holds, at most the 64 bytes of it.\<close>

definition rx_polled :: "event list \<Rightarrow> connection \<Rightarrow> 'p world \<Rightarrow> event list result \<Rightarrow> connection \<Rightarrow> bool" where
  "rx_polled events c w' r c' \<longleftrightarrow>
     (\<exists>b bs n. r = Inr (events @ [Received (take n bs)]) \<and> sl_pending (cn_rx c) \<and>
        sl_bytes (cn_rx c) = Some b \<and> mem w' b = Some bs \<and> n \<le> length bs \<and> length bs = BUFFER_SIZE \<and>
        c' = c\<lparr>cn_rx := (cn_rx c)\<lparr>sl_pending := False\<rparr>\<rparr>) \<or>
     r = Inr events \<and> c' = c \<or> \<not> is_ok r \<and> kept c c'"

lemma poll_rx_spec:
  assumes "conn_ok E w0 w c" and "cn_ep c \<noteq> 0" and "\<not> cn_closing c"
  shows "runs (poll_rx E events (c, w)) (\<lambda>(r, (c', w')). conn_ok E w0 w' c' \<and> ticks w' = ticks w \<and>
    rx_polled events c w' r c')"
proof -
  obtain k where k: "cqs w (cn_rx_cq c) = Some k"
    using endpoint_queue [OF assms(1,2), of True] by (metis (full_types))
  let ?c1 = "c\<lparr>cn_rx := (cn_rx c)\<lparr>sl_pending := False\<rparr>\<rparr>"
  have "runs (poll_cq E (cn_rx_cq c) w) (\<lambda>(r, w'). conn_ok E w0 w' c \<and> ticks w' = ticks w \<and>
    (\<forall>d. r = Inr (Some d) \<longrightarrow> op_id d \<noteq> 0 \<longrightarrow> conn_ok E w0 w' ?c1))"
    by (rule poll_cq_spec [OF assms(1) k]) simp
  then obtain r w' where r: "poll_cq E (cn_rx_cq c) w = Some (r, w')" and ok: "conn_ok E w0 w' c"
    "ticks w' = ticks w" and ok1: "\<And>d. r = Inr (Some d) \<Longrightarrow> op_id d \<noteq> 0 \<Longrightarrow> conn_ok E w0 w' ?c1"
    by (auto simp: runs_Ex)
  obtain b bs where "sl_bytes (slot_of False c) = Some b" and bs: "mem w' b = Some bs"
    "length bs = BUFFER_SIZE"
    by (rule open_buffer [OF ok(1) assms(3), of False])
  then have b: "sl_bytes (cn_rx c) = Some b" by (simp add: slot_dirs)
  show ?thesis
  proof (cases "\<exists>d. r = Inr (Some d)")
    case False
    then show ?thesis using ok
      by (auto simp: poll_rx_def r rx_polled_def split: sum.splits option.splits)
  next
    case True
    then obtain d where d: "r = Inr (Some d)" by blast
    show ?thesis
      using ok ok1 [OF d] b bs
      by (simp add: poll_rx_def r d rx_polled_def RX_ID_def Let_def)
        (use bs in \<open>auto intro: exI [of _ bs] exI [of _ "unat (len d)"]\<close>)
  qed
qed

text \<open>
  The event queue: without connection requests, no information record is handed out.
\<close>

lemma eq_poll_no_request:
  assumes "no_requests E" and "inv w" and "eqs w e = Some z"
  shows "runs (shim_eq_poll E e True w) (\<lambda>((r, ev), w'). ev_type ev \<noteq> SHIM_EVENT_CONNREQ)"
proof -
  have nz: "e \<noteq> 0" using assms inv_nullD(4) [OF assms(2)] by auto
  have ne: "SHIM_EVENT_CONNECTED \<noteq> SHIM_EVENT_CONNREQ" "SHIM_EVENT_SHUTDOWN \<noteq> SHIM_EVENT_CONNREQ"
    "0 \<noteq> SHIM_EVENT_CONNREQ" "SHIM_EVENT_ERROR \<noteq> SHIM_EVENT_CONNREQ"
    by (simp_all add: SHIM_EVENT_CONNREQ_def SHIM_EVENT_CONNECTED_def SHIM_EVENT_SHUTDOWN_def
        SHIM_EVENT_ERROR_def)
  have err: "ev_type (snd (fst (eq_read_error E z v))) \<noteq> SHIM_EVENT_CONNREQ" for v
    using ne by (simp add: eq_read_error_def Let_def zero_event_def split: prod.splits)
  show ?thesis
  proof (cases rule: calloc_cases [of E w])
    case (none p)
    then show ?thesis using nz assms(3) ne by (simp add: shim_eq_poll_def zero_event_def)
  next
    case (block a p)
    obtain ret ev entry p1 where rd: "fi_eq_read E (e_raw z) p = ((ret, ev, entry), p1)"
      by (metis prod.exhaust)
    have "ev \<noteq> FI_CONNREQ" using assms(1) rd unfolding no_requests_def by blast
    then show ?thesis
      unfolding shim_eq_poll_def call_def Let_def using nz assms(3) block(1,2) rd ne
        err [of "w\<lparr>prov := p1\<rparr>"]
      by (simp add: zero_event_def case_prod_beta split: fi_event.splits)
  qed
qed

lemma conn_add_info:
  assumes "conn_ok E w0 w c" and "\<not> no_requests E" and "a \<noteq> 0" "\<not> allocated w a" and "info_wf raw"
  shows "conn_ok E w0 (add_info a raw (take_info w)) c"
proof -
  have "infos w a = None" using assms(4) by (simp add: allocated_def)
  moreover have "infos w0 \<subseteq>\<^sub>m infos w" using assms(1) by (simp add: conn_structure)
  ultimately have "infos w0 \<subseteq>\<^sub>m (infos w)(a \<mapsto> \<lparr>i_raw = Some raw\<rparr>)"
    unfolding map_le_def by (metis domI domIff fun_upd_other)
  moreover have "inv (add_info a raw (take_info w))"
    using conn_ok_inv(1) [OF assms(1)] assms(3,5) by (intro inv_add_info) simp_all
  ultimately show ?thesis
    using assms(1,2) by (simp add: conn_structure add_info_def take_info_def)
qed

lemma poll_eq_spec:
  assumes "conn_ok E w0 w c" and "errno_ok E" and "infos_ok E" and "cn_eq c \<noteq> 0"
  shows "runs (poll_eq E (cn_eq c) w) (\<lambda>(r, w'). conn_ok E w0 w' c \<and> ticks w' = ticks w)"
proof -
  note i = conn_ok_inv(1) [OF assms(1)]
  obtain z where z: "eqs w (cn_eq c) = Some z" using conn_live(2) [OF assms(1,4)] by auto
  obtain r ev w' where poll: "shim_eq_poll E (cn_eq c) True w = Some ((r, ev), w')"
    and post: "eq_polled w ((r, ev), w')"
    using shim_eq_poll_spec [OF i assms(2,3) z] by (auto simp: runs_Ex)
  have quiet: "no_requests E \<Longrightarrow> ev_type ev \<noteq> SHIM_EVENT_CONNREQ"
    using eq_poll_no_request [where E = E, OF _ i z] poll by (auto simp: runs_Ex)
  have ok: "conn_ok E w0 w' c \<and> ticks w' = ticks w"
    using post unfolding eq_polled_def
  proof (simp only: prod.case, elim disjE conjE exE)
    assume "same_heap w w'"
    then show ?thesis using assms(1) by (auto simp: same_heap_def)
  next
    fix raw p
    assume t: "ev_type ev = SHIM_EVENT_CONNREQ" and a: "ev_info ev \<noteq> 0" "\<not> allocated w (ev_info ev)"
      and wf: "info_wf raw" and w': "w' = add_info (ev_info ev) raw (take_info (w\<lparr>prov := p\<rparr>))"
    have "conn_ok E w0 (add_info (ev_info ev) raw (take_info (w\<lparr>prov := p\<rparr>))) c"
      by (rule conn_add_info) (use assms(1) quiet t a wf in auto)
    then show ?thesis by (simp add: w')
  qed
  obtain r' where "poll_eq E (cn_eq c) w = Some (r', w')"
    using poll by (cases "r = 0"; cases "r < 0"; cases "ev_err ev = 0")
      (auto simp: poll_eq_def check_def)
  then show ?thesis using ok by simp
qed

definition cm_polled :: "event list \<Rightarrow> event list result \<Rightarrow> bool" where
  "cm_polled events r \<longleftrightarrow>
     r \<in> {Inr events, Inr (events @ [Connected]), Inr (events @ [PeerClosed])} \<or> \<not> is_ok r"

lemma poll_cm_spec:
  assumes "conn_ok E w0 w c" and "errno_ok E" and "infos_ok E" and "cn_eq c \<noteq> 0"
  shows "runs (poll_cm E events (c, w)) (\<lambda>(r, (c', w')). conn_ok E w0 w' c' \<and> ticks w' = ticks w \<and>
    cm_polled events r \<and> c' = c)"
proof -
  obtain r w' where "poll_eq E (cn_eq c) w = Some (r, w')" "conn_ok E w0 w' c" "ticks w' = ticks w"
    using poll_eq_spec [OF assms] by (auto simp: runs_Ex)
  then show ?thesis
    by (auto simp: poll_cm_def cm_polled_def split: sum.splits option.splits)
qed

text \<open>
  One poll. The events come in the order send completion, receive completion, connection
  management, at most one of each kind; a completion event clears the flag of its slot.
\<close>

definition polled_events :: "connection \<Rightarrow> connection \<Rightarrow> event list \<Rightarrow> bool" where
  "polled_events c c' es \<longleftrightarrow> (\<exists>t r m. es = t @ r @ m \<and>
     (t = [Sent] \<and> sl_pending (cn_tx c) \<and> \<not> sl_pending (cn_tx c') \<or>
      t = [] \<and> sl_pending (cn_tx c') = sl_pending (cn_tx c)) \<and>
     ((\<exists>b. r = [Received b] \<and> length b \<le> BUFFER_SIZE) \<and> sl_pending (cn_rx c) \<and> \<not> sl_pending (cn_rx c') \<or>
      r = [] \<and> sl_pending (cn_rx c') = sl_pending (cn_rx c)) \<and>
     m \<in> {[], [Connected], [PeerClosed]})"

definition polled :: "connection \<Rightarrow> event list result \<Rightarrow> connection \<Rightarrow> bool" where
  "polled c r c' \<longleftrightarrow> kept c c' \<and> (\<forall>es. r = Inr es \<longrightarrow> polled_events c c' es)"

lemma polled_eventsI:
  assumes "tx_polled c (Inr t) c1" and "rx_polled t c1 w (Inr tr) c2" and "cm_polled tr (Inr es)"
  shows "polled_events c c2 es"
proof -
  from assms(1) have t: "t = [Sent] \<and> sl_pending (cn_tx c) \<and> \<not> sl_pending (cn_tx c1) \<or>
      t = [] \<and> sl_pending (cn_tx c1) = sl_pending (cn_tx c)"
    and rx1: "sl_pending (cn_rx c1) = sl_pending (cn_rx c)"
    by (auto simp: tx_polled_def)
  from assms(2) obtain r where tr: "tr = t @ r"
    and r: "(\<exists>b. r = [Received b] \<and> length b \<le> BUFFER_SIZE) \<and> sl_pending (cn_rx c1) \<and>
        \<not> sl_pending (cn_rx c2) \<or> r = [] \<and> sl_pending (cn_rx c2) = sl_pending (cn_rx c1)"
    and tx2: "sl_pending (cn_tx c2) = sl_pending (cn_tx c1)"
    by (auto simp: rx_polled_def)
  from assms(3) obtain m where "es = tr @ m" "m \<in> {[], [Connected], [PeerClosed]}"
    by (auto simp: cm_polled_def)
  with t r rx1 tx2 show ?thesis
    unfolding polled_events_def tr by (intro exI [of _ t] exI [of _ r] exI [of _ m]) auto
qed

lemma poll_spec:
  assumes "conn_ok E w0 w c" and "errno_ok E" and "infos_ok E"
  shows "runs (poll E (c, w)) (\<lambda>(r, (c', w')). conn_ok E w0 w' c' \<and> ticks w' = ticks w \<and>
    polled c r c')"
proof (cases "cn_ep c = 0 \<or> cn_closing c")
  case True
  then show ?thesis using assms by (auto simp: poll_def ensure_open_def polled_def)
next
  case open': False
  then have ep: "cn_ep c \<noteq> 0" and cl: "\<not> cn_closing c" by simp_all
  obtain p where "endpoints w (cn_ep c) = Some p" and "p_eq p = cn_eq c"
    using conn_live(5) [OF assms(1) ep] assms(1) by (auto simp: conn_structure)
  then have eq: "cn_eq c \<noteq> 0"
    using endpoint_parents [OF conn_ok_inv(1) [OF assms(1)]] inv_nullD(4) [OF conn_ok_inv(1) [OF assms(1)]]
    by metis
  obtain r1 c1 w1 where tx: "poll_tx E (c, w) = Some (r1, c1, w1)" and ok1: "conn_ok E w0 w1 c1"
    and t1: "ticks w1 = ticks w" and p1: "tx_polled c r1 c1"
    using poll_tx_spec [OF assms(1) ep] by (auto simp: runs_Ex)
  have k1: "kept c c1" using p1 by (auto simp: tx_polled_def)
  show ?thesis
  proof (cases r1)
    case (Inl e)
    with tx ok1 t1 k1 open' show ?thesis
      by (simp add: poll_def ensure_open_def qmark_def polled_def)
  next
    case e1: (Inr t)
    have "cn_ep c1 \<noteq> 0" "\<not> cn_closing c1" using ep cl by (simp_all add: kept_same [OF k1])
    then obtain r2 c2 w2 where rx: "poll_rx E t (c1, w1) = Some (r2, c2, w2)" and ok2: "conn_ok E w0 w2 c2"
      and t2: "ticks w2 = ticks w1" and p2: "rx_polled t c1 w2 r2 c2"
      using poll_rx_spec [OF ok1, of t] by (auto simp: runs_Ex)
    have k2: "kept c c2" using p2 by (intro kept_trans [OF k1]) (auto simp: rx_polled_def)
    show ?thesis
    proof (cases r2)
      case (Inl e)
      with tx rx ok2 t1 t2 k2 e1 open' show ?thesis
        by (simp add: poll_def ensure_open_def qmark_def polled_def)
    next
      case e2: (Inr tr)
      have "cn_eq c2 \<noteq> 0" using eq by (simp add: kept_same [OF k2])
      then obtain r3 w3 where cm: "poll_cm E tr (c2, w2) = Some (r3, c2, w3)" and ok3: "conn_ok E w0 w3 c2"
        and t3: "ticks w3 = ticks w2" and p3: "cm_polled tr r3"
        using poll_cm_spec [OF ok2 assms(2,3), of tr] by (auto simp: runs_Ex)
      have "poll E (c, w) = Some (r3, c2, w3)"
        using tx rx cm open' by (simp add: poll_def ensure_open_def qmark_def e1 e2)
      then show ?thesis
        using ok3 t1 t2 t3 k2 polled_eventsI [of c t c1 w2 tr c2] p1 p2 p3 e1 e2
        by (auto simp: polled_def)
    qed
  qed
qed

end
