(* ===== verification/Conn_Setup.thy ===== *)
theory Conn_Setup
  imports Conn_Io
begin

text \<open>
  \<open>Connection::initialize\<close>, \<open>connect\<close> and \<open>from_request\<close>: every step of the setup keeps the
  connection invariant, a successful setup owns all nine handles, the submission loop ends
  by its deadline, and a failed setup is cleaned up.
\<close>

subsection \<open>Stages of the setup\<close>

definition reach :: "('s \<Rightarrow> bool) \<Rightarrow> ('s \<Rightarrow> bool) \<Rightarrow> 'a result \<times> 's \<Rightarrow> bool" where
  "reach G P = (\<lambda>(r, s). G s \<and> (is_ok r \<longrightarrow> P s))"

lemma reach_qmark:
  assumes "runs (m s) (reach G P)"
    and "\<And>a s'. G s' \<Longrightarrow> P s' \<Longrightarrow> runs (k a s') (reach G Q)"
  shows "runs (qmark m k s) (reach G Q)"
  by (rule runs_qmarkI, rule assms(1)) (use assms(2) in \<open>auto simp: reach_def\<close>)

definition setting :: "'p lib \<Rightarrow> 'p world \<Rightarrow> addr \<Rightarrow> connection \<times> 'p world \<Rightarrow> bool" where
  "setting E w0 f = (\<lambda>(c, w). conn_ok E w0 w c \<and> \<not> cn_closing c \<and> \<not> cn_cm_started c \<and> cn_fabric c = f)"

text \<open>The nine handles in the order they are opened; \<open>stage k\<close> has the first \<open>k\<close>.\<close>

definition handles :: "connection \<Rightarrow> addr list" where
  "handles c = [cn_domain c, cn_eq c, cn_tx_cq c, cn_rx_cq c, cn_ep c, sl_mr (cn_tx c),
     sl_op (cn_tx c), sl_mr (cn_rx c), sl_op (cn_rx c)]"

definition stage :: "nat \<Rightarrow> connection \<Rightarrow> bool" where
  "stage k c \<longleftrightarrow> map (\<lambda>a. a \<noteq> 0) (handles c) = replicate k True @ replicate (9 - k) False"

lemma stage_simps [simp]:
  "stage 0 c \<longleftrightarrow> unopened c \<and> cn_domain c = 0"
  "stage (Suc 0) c \<longleftrightarrow> unopened c \<and> cn_domain c \<noteq> 0"
  "stage 2 c \<longleftrightarrow> cn_domain c \<noteq> 0 \<and> cn_eq c \<noteq> 0 \<and> cn_tx_cq c = 0 \<and> cn_rx_cq c = 0 \<and> cn_ep c = 0 \<and>
     sl_mr (cn_tx c) = 0 \<and> sl_op (cn_tx c) = 0 \<and> sl_mr (cn_rx c) = 0 \<and> sl_op (cn_rx c) = 0"
  "stage 3 c \<longleftrightarrow> cn_domain c \<noteq> 0 \<and> cn_eq c \<noteq> 0 \<and> cn_tx_cq c \<noteq> 0 \<and> cn_rx_cq c = 0 \<and> cn_ep c = 0 \<and>
     sl_mr (cn_tx c) = 0 \<and> sl_op (cn_tx c) = 0 \<and> sl_mr (cn_rx c) = 0 \<and> sl_op (cn_rx c) = 0"
  "stage 4 c \<longleftrightarrow> cn_domain c \<noteq> 0 \<and> cn_eq c \<noteq> 0 \<and> cn_tx_cq c \<noteq> 0 \<and> cn_rx_cq c \<noteq> 0 \<and> cn_ep c = 0 \<and>
     sl_mr (cn_tx c) = 0 \<and> sl_op (cn_tx c) = 0 \<and> sl_mr (cn_rx c) = 0 \<and> sl_op (cn_rx c) = 0"
  "stage 5 c \<longleftrightarrow> cn_domain c \<noteq> 0 \<and> cn_eq c \<noteq> 0 \<and> cn_tx_cq c \<noteq> 0 \<and> cn_rx_cq c \<noteq> 0 \<and> cn_ep c \<noteq> 0 \<and>
     sl_mr (cn_tx c) = 0 \<and> sl_op (cn_tx c) = 0 \<and> sl_mr (cn_rx c) = 0 \<and> sl_op (cn_rx c) = 0"
  "stage 6 c \<longleftrightarrow> cn_domain c \<noteq> 0 \<and> cn_eq c \<noteq> 0 \<and> cn_tx_cq c \<noteq> 0 \<and> cn_rx_cq c \<noteq> 0 \<and> cn_ep c \<noteq> 0 \<and>
     sl_mr (cn_tx c) \<noteq> 0 \<and> sl_op (cn_tx c) = 0 \<and> sl_mr (cn_rx c) = 0 \<and> sl_op (cn_rx c) = 0"
  "stage 7 c \<longleftrightarrow> cn_domain c \<noteq> 0 \<and> cn_eq c \<noteq> 0 \<and> cn_tx_cq c \<noteq> 0 \<and> cn_rx_cq c \<noteq> 0 \<and> cn_ep c \<noteq> 0 \<and>
     sl_mr (cn_tx c) \<noteq> 0 \<and> sl_op (cn_tx c) \<noteq> 0 \<and> sl_mr (cn_rx c) = 0 \<and> sl_op (cn_rx c) = 0"
  "stage 8 c \<longleftrightarrow> cn_domain c \<noteq> 0 \<and> cn_eq c \<noteq> 0 \<and> cn_tx_cq c \<noteq> 0 \<and> cn_rx_cq c \<noteq> 0 \<and> cn_ep c \<noteq> 0 \<and>
     sl_mr (cn_tx c) \<noteq> 0 \<and> sl_op (cn_tx c) \<noteq> 0 \<and> sl_mr (cn_rx c) \<noteq> 0 \<and> sl_op (cn_rx c) = 0"
  "stage 9 c \<longleftrightarrow> cn_domain c \<noteq> 0 \<and> cn_eq c \<noteq> 0 \<and> cn_tx_cq c \<noteq> 0 \<and> cn_rx_cq c \<noteq> 0 \<and> cn_ep c \<noteq> 0 \<and>
     sl_mr (cn_tx c) \<noteq> 0 \<and> sl_op (cn_tx c) \<noteq> 0 \<and> sl_mr (cn_rx c) \<noteq> 0 \<and> sl_op (cn_rx c) \<noteq> 0"
  by (auto simp: stage_def handles_def unopened_def numeral_eq_Suc)

text \<open>A plain open that writes its handle through \<open>store\<close>.\<close>

lemma open_handle_reach:
  assumes "setting E w0 f (x, w)" and "f' x w = Some y" and "opened add w y"
    and "\<And>a. \<not> cn_closing (store a x)" "\<And>a. \<not> cn_cm_started (store a x)" "\<And>a. cn_fabric (store a x) = f"
    and "store 0 x = x"
    and "\<And>a raw p. a \<noteq> 0 \<Longrightarrow> \<not> allocated w a \<Longrightarrow>
      conn_ok E w0 (add a raw (w\<lparr>prov := p\<rparr>)) (store a x) \<and> stage k (store a x)"
  shows "runs (open_handle E name f' store (x, w)) (reach (setting E w0 f) (\<lambda>s. stage k (fst s)))"
proof -
  obtain r a w' where y: "y = ((r, a), w')" by (cases y) auto
  from assms(3) have "opened add w ((r, a), w')" by (simp add: y)
  then have "conn_ok E w0 w' (store a x) \<and> (r = 0 \<longrightarrow> stage k (store a x))"
    by (cases rule: opened_cases) (use assms(1,7,8) in \<open>auto simp: setting_def\<close>)
  then show ?thesis
    using assms(2,4-6) by (simp add: open_handle_def y reach_def setting_def)
qed

lemma setting_info:
  assumes "setting E w0 f (c, w)" and "infos w0 i \<noteq> None"
  obtains x where "infos w i = Some x"
proof -
  have "infos w0 \<subseteq>\<^sub>m infos w" using assms(1) by (simp add: setting_def conn_structure)
  with assms(2) have "infos w i \<noteq> None" unfolding map_le_def by (metis domI domIff)
  with that show thesis by auto
qed

lemma open_domain_step:
  assumes "setting E w0 f (c, w)" and "errno_ok E" and "infos w0 i \<noteq> None" and "stage 0 c"
  shows "runs (open_handle E ''shim_domain_open'' (\<lambda>c. shim_domain_open E (cn_fabric c) i True)
    (\<lambda>a. cn_domain_update (\<lambda>_. a)) (c, w)) (reach (setting E w0 f) (\<lambda>s. stage 1 (fst s)))"
proof -
  have ok: "conn_ok E w0 w c" and f: "cn_fabric c = f" using assms(1) by (simp_all add: setting_def)
  obtain x where x: "infos w i = Some x" by (rule setting_info [OF assms(1,3)])
  obtain y where y: "fabrics w (cn_fabric c) = Some y" by (rule conn_fabric [OF ok])
  show ?thesis
  proof (rule open_handle_reach, rule assms(1), rule shim_domain_open_eq [OF conn_ok_inv(1) [OF ok] y x],
      rule open_step_opened [OF assms(2)])
    fix a raw p assume "a \<noteq> 0" "\<not> allocated w a"
    then show "conn_ok E w0 (add_domain a \<lparr>d_raw = raw, d_fabric = cn_fabric c, d_children = 0\<rparr> (w\<lparr>prov := p\<rparr>))
        (c\<lparr>cn_domain := a\<rparr>) \<and> stage 1 (c\<lparr>cn_domain := a\<rparr>)"
      using assms(4) ok by (auto simp: unopened_def intro!: conn_add_domain)
  qed (use assms(1,4) in \<open>simp_all add: setting_def\<close>)
qed

lemma open_eq_step:
  assumes "setting E w0 f (c, w)" and "errno_ok E" and "stage 1 c"
  shows "runs (open_handle E ''shim_eq_open'' (\<lambda>c. shim_eq_open E (cn_fabric c) True)
    (\<lambda>a. cn_eq_update (\<lambda>_. a)) (c, w)) (reach (setting E w0 f) (\<lambda>s. stage 2 (fst s)))"
proof -
  have ok: "conn_ok E w0 w c" using assms(1) by (simp add: setting_def)
  obtain y where y: "fabrics w (cn_fabric c) = Some y" by (rule conn_fabric [OF ok])
  show ?thesis
  proof (rule open_handle_reach, rule assms(1), rule shim_eq_open_eq [OF conn_ok_inv(1) [OF ok] y],
      rule open_step_opened [OF assms(2)])
    fix a raw p assume "a \<noteq> 0" "\<not> allocated w a"
    then show "conn_ok E w0 (add_eq a \<lparr>e_raw = raw, e_fabric = cn_fabric c, e_users = 0\<rparr> (w\<lparr>prov := p\<rparr>))
        (c\<lparr>cn_eq := a\<rparr>) \<and> stage 2 (c\<lparr>cn_eq := a\<rparr>)"
      using assms(3) ok by (auto simp: unopened_def intro!: conn_add_eq)
  qed (use assms(1,3) in \<open>simp_all add: setting_def unopened_def\<close>)
qed

lemma open_tx_cq_step:
  assumes "setting E w0 f (c, w)" and "errno_ok E" and "stage 2 c"
  shows "runs (open_handle E ''TX CQ open'' (\<lambda>c. shim_cq_open E (cn_domain c) 16 True)
    (\<lambda>a. cn_tx_cq_update (\<lambda>_. a)) (c, w)) (reach (setting E w0 f) (\<lambda>s. stage 3 (fst s)))"
proof -
  have ok: "conn_ok E w0 w c" using assms(1) by (simp add: setting_def)
  obtain y where y: "domains w (cn_domain c) = Some y" using conn_live(1) [OF ok] assms(3) by auto
  show ?thesis
  proof (rule open_handle_reach, rule assms(1), rule shim_cq_open_eq [OF conn_ok_inv(1) [OF ok] y], simp,
      rule open_step_opened [OF assms(2)])
    fix a raw p assume "a \<noteq> 0" "\<not> allocated w a"
    then show "conn_ok E w0 (add_cq a (new_cq (cn_domain c) raw) (w\<lparr>prov := p\<rparr>))
        (c\<lparr>cn_tx_cq := a\<rparr>) \<and> stage 3 (c\<lparr>cn_tx_cq := a\<rparr>)"
      using assms(3) ok by (auto intro!: conn_add_tx_cq)
  qed (use assms(1,3) in \<open>simp_all add: setting_def\<close>)
qed

lemma open_rx_cq_step:
  assumes "setting E w0 f (c, w)" and "errno_ok E" and "stage 3 c"
  shows "runs (open_handle E ''RX CQ open'' (\<lambda>c. shim_cq_open E (cn_domain c) 16 True)
    (\<lambda>a. cn_rx_cq_update (\<lambda>_. a)) (c, w)) (reach (setting E w0 f) (\<lambda>s. stage 4 (fst s)))"
proof -
  have ok: "conn_ok E w0 w c" using assms(1) by (simp add: setting_def)
  obtain y where y: "domains w (cn_domain c) = Some y" using conn_live(1) [OF ok] assms(3) by auto
  show ?thesis
  proof (rule open_handle_reach, rule assms(1), rule shim_cq_open_eq [OF conn_ok_inv(1) [OF ok] y], simp,
      rule open_step_opened [OF assms(2)])
    fix a raw p assume "a \<noteq> 0" "\<not> allocated w a"
    then show "conn_ok E w0 (add_cq a (new_cq (cn_domain c) raw) (w\<lparr>prov := p\<rparr>))
        (c\<lparr>cn_rx_cq := a\<rparr>) \<and> stage 4 (c\<lparr>cn_rx_cq := a\<rparr>)"
      using assms(3) ok by (auto intro!: conn_add_rx_cq)
  qed (use assms(1,3) in \<open>simp_all add: setting_def\<close>)
qed

lemma open_endpoint_step:
  assumes "setting E w0 f (c, w)" and "errno_ok E" and "infos w0 i \<noteq> None" and "stage 4 c"
  shows "runs (open_handle E ''shim_endpoint_open''
    (\<lambda>c. shim_endpoint_open E (cn_domain c) i (cn_eq c) (cn_tx_cq c) (cn_rx_cq c) True)
    (\<lambda>a. cn_ep_update (\<lambda>_. a)) (c, w)) (reach (setting E w0 f) (\<lambda>s. stage 5 (fst s)))"
proof -
  have ok: "conn_ok E w0 w c" using assms(1) by (simp add: setting_def)
  obtain x where x: "infos w i \<noteq> None" using setting_info [OF assms(1,3)] by auto
  obtain d e t u where live: "domains w (cn_domain c) = Some d" "eqs w (cn_eq c) = Some e"
    "cqs w (cn_tx_cq c) = Some t" "cqs w (cn_rx_cq c) = Some u"
    using conn_live(1-4) [OF ok] assms(4) by auto
  have "runs (shim_endpoint_open E (cn_domain c) i (cn_eq c) (cn_tx_cq c) (cn_rx_cq c) True w)
      (\<lambda>y. endpoint_opened (cn_domain c) (cn_eq c) (cn_tx_cq c) (cn_rx_cq c) w y \<and> inv (snd y))"
    by (rule shim_endpoint_open_spec [OF conn_ok_inv(1) [OF ok] assms(2) live(1) x live(2-4)])
  then obtain r a w' where open': "shim_endpoint_open E (cn_domain c) i (cn_eq c) (cn_tx_cq c)
      (cn_rx_cq c) True w = Some ((r, a), w')"
    and post: "endpoint_opened (cn_domain c) (cn_eq c) (cn_tx_cq c) (cn_rx_cq c) w ((r, a), w')"
    and i: "inv w'"
    by (auto simp: runs_Ex)
  have "conn_ok E w0 w' (c\<lparr>cn_ep := a\<rparr>) \<and> (r = 0 \<longrightarrow> a \<noteq> 0)"
    using post unfolding endpoint_opened_def prod.case
  proof (elim disjE conjE exE)
    assume "r \<noteq> 0" "a = 0"
    moreover from this have c: "c\<lparr>cn_ep := a\<rparr> = c" using assms(4) by simp
    moreover fix p
    assume "w' = w\<lparr>prov := p\<rparr>"
    ultimately show ?thesis using ok by simp
  next
    fix p
    assume "r \<noteq> 0" "a = 0" and w': "w' = (spoil_cqs (cn_tx_cq c) (cn_rx_cq c) w)\<lparr>prov := p\<rparr>"
    moreover from this have c: "c\<lparr>cn_ep := a\<rparr> = c" using assms(4) by simp
    moreover have "conn_ok E w0 (spoil_cqs (cn_tx_cq c) (cn_rx_cq c) w) c"
      using ok i by (intro conn_spoil) (simp_all add: w')
    ultimately show ?thesis by simp
  next
    fix raw n cl p
    assume a: "a \<noteq> 0" "\<not> allocated w a" and w': "w' = add_endpoint a
      \<lparr>p_raw = raw, p_domain = cn_domain c, p_eq = cn_eq c, p_tx = cn_tx_cq c, p_rx = cn_rx_cq c,
       p_max_msg = n, p_ready = (r = 0), p_closing = cl\<rparr> (w\<lparr>prov := p\<rparr>)"
    have "conn_ok E w0 w' (c\<lparr>cn_ep := a\<rparr>)"
      unfolding w' by (rule conn_add_endpoint) (use ok a i assms(4) in \<open>simp_all add: w'\<close>)
    with a show ?thesis by simp
  qed
  then show ?thesis
    using assms(1,4) open' by (auto simp: open_handle_def reach_def setting_def)
qed

text \<open>A slot's region and operation.\<close>

text \<open>The same for a handle of one slot of the connection.\<close>

definition slot_reach :: "'p lib \<Rightarrow> 'p world \<Rightarrow> addr \<Rightarrow> bool \<Rightarrow> connection \<Rightarrow> nat
    \<Rightarrow> unit result \<times> (slot \<times> 'p world) \<Rightarrow> bool" where
  "slot_reach E w0 f tx c k = (\<lambda>(r, (s, w')). setting E w0 f (with_slot tx c s, w') \<and>
     (is_ok r \<longrightarrow> stage k (with_slot tx c s)))"

lemma slot_handle_reach:
  assumes "setting E w0 f (c, w)" and "f' (slot_of tx c) w = Some ((r, a), w')"
    and "conn_ok E w0 w' (with_slot tx c (store a (slot_of tx c)))"
    and "r = 0 \<Longrightarrow> stage k (with_slot tx c (store a (slot_of tx c)))"
  shows "runs (open_handle E name f' store (slot_of tx c, w)) (slot_reach E w0 f tx c k)"
proof -
  have "setting E w0 f (with_slot tx c (store a (slot_of tx c)), w')"
    using assms(1,3) by (simp add: setting_def) (simp add: with_slot_def)
  then show ?thesis using assms(2,4) by (simp add: open_handle_def slot_reach_def)
qed

lemma slot_mr_step:
  assumes "setting E w0 f (c, w)" and "errno_ok E" and "stage (if tx then 5 else 7) c"
    and "access = SHIM_ACCESS_SEND \<or> access = SHIM_ACCESS_RECV"
  shows "runs (open_handle E ''shim_mr_register''
      (\<lambda>x w. do { buf \<leftarrow> sl_bytes x; bs \<leftarrow> mem w buf;
         shim_mr_register E (cn_domain c) buf (of_nat (length bs)) access True w })
      (\<lambda>a. sl_mr_update (\<lambda>_. a)) (slot_of tx c, w)) (slot_reach E w0 f tx c (if tx then 6 else 8))"
proof -
  have ok: "conn_ok E w0 w c" and cl: "\<not> cn_closing c" using assms(1) by (simp_all add: setting_def)
  obtain d where d: "domains w (cn_domain c) = Some d"
    using conn_live(1) [OF ok] assms(3) by (auto split: if_splits)
  obtain b bs where b: "sl_bytes (slot_of tx c) = Some b" "b \<noteq> 0" "mem w b = Some bs" "length bs = BUFFER_SIZE"
    by (rule open_buffer [OF ok cl])
  have size: "of_nat (length bs) \<noteq> (0 :: size_t)" by (simp add: b(4) BUFFER_SIZE_def)
  let ?mr = "\<lambda>a. (slot_of tx c)\<lparr>sl_mr := a\<rparr>"
  obtain r a w' where reg: "shim_mr_register E (cn_domain c) b (of_nat (length bs)) access True w = Some ((r, a), w')"
    and y: "opened (\<lambda>a r. add_mr a (new_mr (cn_domain c) b access r)) w ((r, a), w')"
    using shim_mr_register_eq [OF conn_ok_inv(1) [OF ok] d b(2) size, of access E] assms(4)
      open_step_opened [OF assms(2), of _ w] by (metis b(4) prod.exhaust)
  have z: "sl_mr (slot_of tx c) = 0" "sl_op (slot_of tx c) = 0"
    using assms(3) by (auto simp: slot_of_def split: if_splits)
  have add: "conn_ok E w0 (add_mr a (new_mr (cn_domain c) b access raw) (w\<lparr>prov := p\<rparr>))
      (with_slot tx c (?mr a))" if "a \<noteq> 0" "\<not> allocated w a" for raw p
    using that ok assms(3) b z
    by (cases tx) (auto simp: slot_dirs intro!: conn_add_tx_mr conn_add_rx_mr)
  from y have "conn_ok E w0 w' (with_slot tx c (?mr a)) \<and> (r = 0 \<longrightarrow> a \<noteq> 0)"
  proof (cases rule: opened_cases)
    case (failed p)
    have "?mr 0 = slot_of tx c" using z by simp
    with failed ok show ?thesis by simp
  next
    case (made raw p)
    then show ?thesis using add by simp
  qed
  then show ?thesis
    using b reg assms(3)
    by (intro slot_handle_reach [OF assms(1), of _ tx r a w']) (simp_all add: with_slot_def slot_of_def split: if_splits)
qed

lemma slot_op_step:
  assumes "setting E w0 f (c, w)" and "errno_ok E" and "stage (if tx then 6 else 8) c"
  shows "runs (open_handle E ''shim_op_create'' (\<lambda>x w. shim_op_create E n True w)
      (\<lambda>a. sl_op_update (\<lambda>_. a)) (slot_of tx c, w)) (slot_reach E w0 f tx c (if tx then 7 else 9))"
proof -
  have ok: "conn_ok E w0 w c" using assms(1) by (simp add: setting_def)
  have z: "sl_op (slot_of tx c) = 0" using assms(3) by (auto simp: slot_of_def split: if_splits)
  show ?thesis
  proof (cases rule: shim_op_create_cases [of E n w])
    case (failed p)
    have "(slot_of tx c)\<lparr>sl_op := 0\<rparr> = slot_of tx c" using z by simp
    with ok assms(2) show ?thesis
      by - (rule slot_handle_reach, rule assms(1), rule failed, simp_all)
  next
    case (made a p)
    have "conn_ok E w0 (add_op a (new_op n) (w\<lparr>prov := p\<rparr>)) (with_slot tx c ((slot_of tx c)\<lparr>sl_op := a\<rparr>))"
      using conn_add_tx_op [of E w0 "w\<lparr>prov := p\<rparr>" c a n] conn_add_rx_op [of E w0 "w\<lparr>prov := p\<rparr>" c a n] made(1,2) ok z
      by (cases tx) (simp_all add: slot_dirs)
    then show ?thesis
      using made(1) assms(3)
      by - (rule slot_handle_reach, rule assms(1), rule made(3), simp_all add: with_slot_def slot_of_def split: if_splits)
  qed
qed

lemma setup_slot_step:
  assumes "setting E w0 f (c, w)" and "errno_ok E" and "stage (if tx then 5 else 7) c"
    and "access = SHIM_ACCESS_SEND \<or> access = SHIM_ACCESS_RECV"
  shows "runs (setup_slot E (cn_domain c) access n (slot_of tx c, w)) (\<lambda>(r, (s, w')).
    setting E w0 f (with_slot tx c s, w') \<and>
    (is_ok r \<longrightarrow> stage (if tx then 7 else 9) (with_slot tx c s)))"
  unfolding setup_slot_def slot_reach_def [symmetric]
proof (rule runs_qmarkI, rule slot_mr_step [OF assms])
  fix u and y :: "slot \<times> 'a world"
  assume "slot_reach E w0 f tx c (if tx then 6 else 8) (Inr u, y)"
  then have "setting E w0 f (with_slot tx c (fst y), snd y)" "stage (if tx then 6 else 8) (with_slot tx c (fst y))"
    by (auto simp: slot_reach_def)
  from slot_op_step [OF this(1) assms(2) this(2), of n]
  show "runs (open_handle E ''shim_op_create'' (\<lambda>x w. shim_op_create E n True w) (\<lambda>a. sl_op_update (\<lambda>_. a)) y)
      (slot_reach E w0 f tx c (if tx then 7 else 9))"
    by (simp add: slot_reach_def)
qed (auto simp: slot_reach_def)

lemma setup_tx_step:
  assumes "setting E w0 f (c, w)" and "errno_ok E" and "stage 5 c"
  shows "runs ((\<lambda>(c, w). on_tx (setup_slot E (cn_domain c) SHIM_ACCESS_SEND TX_ID) (c, w)) (c, w))
    (reach (setting E w0 f) (\<lambda>s. stage 7 (fst s)))"
  using setup_slot_step [OF assms(1,2), where tx = True and access = SHIM_ACCESS_SEND and n = TX_ID] assms(3)
  by (auto simp: on_tx_def reach_def slot_dirs elim!: runs_conseq)

lemma setup_rx_step:
  assumes "setting E w0 f (c, w)" and "errno_ok E" and "stage 7 c"
  shows "runs ((\<lambda>(c, w). on_rx (setup_slot E (cn_domain c) SHIM_ACCESS_RECV RX_ID) (c, w)) (c, w))
    (reach (setting E w0 f) (\<lambda>s. stage 9 (fst s)))"
  using setup_slot_step [OF assms(1,2), where tx = False and access = SHIM_ACCESS_RECV and n = RX_ID] assms(3)
  by (auto simp: on_rx_def reach_def slot_dirs elim!: runs_conseq)

subsection \<open>The submission loop\<close>

lemma setting_kept:
  "setting E w0 f (c, w) \<Longrightarrow> conn_ok E w0 w' c' \<Longrightarrow> kept c c' \<Longrightarrow> setting E w0 f (c', w')"
  by (simp add: setting_def kept_same)

lemma stage_kept: "kept c c' \<Longrightarrow> stage k c' = stage k c"
  by (simp add: stage_def handles_def kept_same)

lemma now_simps [simp]:
  "fst (now E w) = clock E (ticks w)" "ticks (snd (now E w)) = ticks w + 1"
  "conn_ok E' w0 (snd (now E w)) c = conn_ok E' w0 w c" "inv (snd (now E w)) = inv w"
  by (simp_all add: now_def)

text \<open>
  Each round takes one reading of the clock, so the number of readings left before every
  further one is past the deadline bounds the rounds.
\<close>

lemma post_loop_spec:
  assumes "errno_ok E" "infos_ok E" and "\<forall>m\<ge>n. \<not> clock E m < deadline"
  shows "setting E w0 f (c, w) \<Longrightarrow> stage 9 c \<Longrightarrow>
    runs (post_loop E deadline (c, w)) (reach (setting E w0 f)
      (\<lambda>s. stage 9 (fst s) \<and> receive_pending (fst s)))"
proof (induction "n - ticks w" arbitrary: c w rule: less_induct)
  case less
  let ?Q = "reach (setting E w0 f) (\<lambda>s. stage 9 (fst s) \<and> receive_pending (fst s))"
  have ok: "conn_ok E w0 w c" using less.prems(1) by (simp add: setting_def)
  obtain r c1 w1 where post: "post_recv E (c, w) = Some (r, c1, w1)" and ok1: "conn_ok E w0 w1 c1"
    and t1: "ticks w1 = ticks w" and by1: "posted_by False c r c1"
    using post_recv_spec [OF ok assms(1)] by (auto simp: runs_Ex)
  have k1: "kept c c1" using by1 by (rule posted_by_kept)
  have s1: "setting E w0 f (c1, w1)" "stage 9 c1"
    using setting_kept [OF less.prems(1) ok1 k1] less.prems(2) by (simp_all only: stage_kept [OF k1])
  show ?case
  proof (cases r)
    case (Inl e)
    then show ?thesis using post s1 by (subst post_loop.simps) (simp add: reach_def)
  next
    case (Inr b)
    show ?thesis
    proof (cases b)
      case True
      with by1 Inr have "receive_pending c1"
        by (auto simp: posted_by_def receive_pending_def slot_dirs)
      then show ?thesis using post s1 Inr True by (subst post_loop.simps) (simp add: reach_def)
    next
      case False
      let ?w = "snd (now E w1)"
      have s2: "setting E w0 f (c1, ?w)" using s1(1) by (simp add: setting_def)
      show ?thesis
      proof (cases "clock E (ticks w1) \<ge> deadline")
        case True
        then show ?thesis using post s2 Inr False by (subst post_loop.simps) (simp add: reach_def)
      next
        case early: False
        have "conn_ok E w0 ?w c1" using ok1 by simp
        then obtain r2 c2 w2 where poll: "poll E (c1, ?w) = Some (r2, c2, w2)"
          and ok2: "conn_ok E w0 w2 c2" and t2: "ticks w2 = ticks ?w" and p2: "polled c1 r2 c2"
          using poll_spec [OF _ assms(1,2)] by (fastforce simp: runs_Ex)
        have k2: "kept c1 c2" using p2 by (simp add: polled_def)
        have s3: "setting E w0 f (c2, w2)" "stage 9 c2"
          using setting_kept [OF s2 ok2 k2] s1(2) by (simp_all only: stage_kept [OF k2])
        have "n - ticks w2 < n - ticks w"
          using assms(3) [rule_format, of "ticks w1"] early t1 t2 by (cases "ticks w1 < n") auto
        from less.hyps [OF this s3] show ?thesis
          using post poll s3 Inr False early
          by (subst post_loop.simps) (cases r2; simp add: reach_def)
      qed
    qed
  qed
qed

lemma initialize_spec:
  assumes "setting E w0 f (c, w)" and "stage 0 c" and "infos w0 (info_raw info) \<noteq> None"
    and "errno_ok E" "infos_ok E" "clock_advances E"
  shows "runs (initialize E info timeout (c, w)) (reach (setting E w0 f)
    (\<lambda>s. stage 9 (fst s) \<and> receive_pending (fst s)))"
proof -
  have loop: "runs (case s of (c, w) \<Rightarrow> let (t, w) = now E w in post_loop E (t + timeout) (c, w))
      (reach (setting E w0 f) (\<lambda>s. stage 9 (fst s) \<and> receive_pending (fst s)))"
    if "setting E w0 f s" "stage 9 (fst s)" for s
  proof -
    obtain c' w' where s: "s = (c', w')" by (cases s)
    obtain n where n: "\<forall>m\<ge>n. \<not> clock E m < clock E (ticks w') + timeout"
      using clock_deadline [OF assms(6)] by blast
    have "setting E w0 f (c', snd (now E w'))" using that by (simp add: s setting_def)
    from post_loop_spec [OF assms(4,5) n this] that(2) show ?thesis
      by (simp add: s now_def)
  qed
  show ?thesis
    unfolding initialize_def
    by (rule reach_qmark, rule open_domain_step [OF assms(1,4,3,2)], clarify,
        rule reach_qmark, rule open_eq_step [OF _ assms(4)], assumption, simp only: fst_conv, clarify,
        rule reach_qmark, rule open_tx_cq_step [OF _ assms(4)], assumption, simp only: fst_conv, clarify,
        rule reach_qmark, rule open_rx_cq_step [OF _ assms(4)], assumption, simp only: fst_conv, clarify,
        rule reach_qmark, rule open_endpoint_step [OF _ assms(4,3)], assumption, simp only: fst_conv, clarify,
        rule reach_qmark, rule setup_tx_step [OF _ assms(4)], assumption, simp only: fst_conv, clarify,
        rule reach_qmark, rule setup_rx_step [OF _ assms(4)], assumption, simp only: fst_conv,
        rule loop, assumption, assumption)
qed

subsection \<open>Connecting\<close>

definition open_conn :: "'p lib \<Rightarrow> 'p world \<Rightarrow> addr \<Rightarrow> connection \<Rightarrow> 'p world \<Rightarrow> bool" where
  "open_conn E w0 f c w \<longleftrightarrow> conn_ok E w0 w c \<and> stage 9 c \<and> cn_fabric c = f \<and> cn_cm_started c \<and>
     \<not> cn_closing c \<and> receive_pending c"

text \<open>
  What a constructor of \<open>Connection\<close> leaves behind: on success an open connection whose
  receive is posted, on an error a connection that was dropped, so that everything is
  given back as far as the provider allowed.
\<close>

definition connected_as :: "'p lib \<Rightarrow> 'p world \<Rightarrow> addr \<Rightarrow> connection result \<Rightarrow> 'p world \<Rightarrow> bool" where
  "connected_as E w0 f r w \<longleftrightarrow> inv w \<and> (case r of Inr c \<Rightarrow> open_conn E w0 f c w
     | Inl _ \<Rightarrow> (\<exists>c. conn_ok E w0 w c) \<and> (closes_ok E \<longrightarrow> restored E w0 w))"

lemma start_setting:
  assumes "inv w" and "fabrics w f \<noteq> None" and "tb \<noteq> 0" "rb \<noteq> 0" "tb \<noteq> rb"
    and "mem w tb = None" "mem w rb = None" and "conn_empty tb rb f w = (c, w')"
  shows "setting E w f (c, w')" and "stage 0 c"
  using conn_empty_ok [OF assms] assms(8)
  by (auto simp: setting_def unopened_def conn_empty_def slot_empty_def)

lemma started_conn: "open_conn E w0 f (c\<lparr>cn_cm_started := True\<rparr>) w \<longleftrightarrow>
    conn_ok E w0 w c \<and> stage 9 c \<and> cn_fabric c = f \<and> \<not> cn_closing c \<and> receive_pending c"
  by (auto simp: open_conn_def receive_pending_def)

lemma connect_spec:
  assumes "inv w" and "fabrics w (fabric_raw fb) \<noteq> None" and "infos w (info_raw info) \<noteq> None"
    and "tb \<noteq> 0" "rb \<noteq> 0" "tb \<noteq> rb" and "mem w tb = None" "mem w rb = None"
    and "errno_ok E" "infos_ok E" "clock_advances E"
  shows "runs (connect E tb rb fb info timeout w) (\<lambda>(r, w'). connected_as E w (fabric_raw fb) r w')"
proof -
  let ?f = "fabric_raw fb"
  obtain c w1 where em: "conn_empty tb rb ?f w = (c, w1)" by (cases "conn_empty tb rb ?f w")
  note start = start_setting [OF assms(1,2,4-8) em]
  obtain r2 c2 w2 where ini: "initialize E info timeout (c, w1) = Some (r2, c2, w2)"
    and s2: "setting E w ?f (c2, w2)" and ok2: "is_ok r2 \<longrightarrow> stage 9 c2 \<and> receive_pending c2"
    using initialize_spec [OF start assms(3,9-11), of timeout] by (auto simp: runs_Ex reach_def)
  have drop: "runs (Option.bind (conn_drop E c2 v) (\<lambda>w. Some (Inl e, w)))
      (\<lambda>(r, w'). connected_as E w ?f r w')" if "conn_ok E w v c2" for v e
    using conn_drop_spec [OF that assms(9)] by (auto simp: connected_as_def elim!: runs_conseq)
  have ok: "conn_ok E w w2 c2" "cn_fabric c2 = ?f" "\<not> cn_closing c2" using s2 by (simp_all add: setting_def)
  show ?thesis
  proof (cases r2)
    case (Inl e)
    then show ?thesis using em ini drop [OF ok(1)] by (simp add: connect_def)
  next
    case (Inr u)
    then have st: "stage 9 c2" "receive_pending c2" using ok2 by simp_all
    then obtain p where p: "endpoints w2 (cn_ep c2) = Some p" using conn_live(5) [OF ok(1)] by auto
    obtain x where x: "infos w2 (info_raw info) = Some x" by (rule setting_info [OF s2 assms(3)])
    obtain code w3 where con: "shim_connect E (cn_ep c2) (info_raw info) w2 = Some (code, w3)"
      and same: "same_heap w2 w3"
      using shim_connect_spec [OF conn_ok_inv(1) [OF ok(1)] p, of "info_raw info" E] x by (auto simp: runs_Ex)
    have ok3: "conn_ok E w w3 c2" using conn_ok_same_heap [OF same ok(1)] .
    show ?thesis
    proof (cases rule: check_cases [of code E "''shim_connect''"])
      case 1
      then show ?thesis
        using em ini Inr con ok3 st ok(2,3) conn_ok_inv(1) [OF ok3] started_conn [of E w ?f c2 w3]
        by (simp add: connect_def connected_as_def)
    next
      case (2 e)
      then show ?thesis using em ini Inr con drop [OF ok3] by (simp add: connect_def)
    qed
  qed
qed

end
