(* ===== verification/Conn_Request.thy ===== *)
theory Conn_Request
  imports Conn_Setup
begin

text \<open>
  \<open>Connection::from_request\<close> and the request's own \<open>Drop\<close>: the request is handled exactly
  once, its metadata outlives the connection's setup, and a refused setup is rejected
  before the connection is dropped.
\<close>

subsection \<open>Changing or freeing one information record\<close>

lemma map_le_upd_both: "m \<subseteq>\<^sub>m n \<Longrightarrow> m(a \<mapsto> x) \<subseteq>\<^sub>m n(a \<mapsto> x)"
  by (simp add: map_le_def)

lemma map_le_del_both: "m \<subseteq>\<^sub>m n \<Longrightarrow> m(a := None) \<subseteq>\<^sub>m n(a := None)"
  by (simp add: map_le_def)

lemma conn_rehandle:
  assumes "conn_ok E w0 w c" and "i \<noteq> 0" and "info_wf raw"
  shows "conn_ok E (add_info i raw w0) (add_info i raw w) c"
proof -
  have "inv (add_info i raw w0)" "inv (add_info i raw w)"
    using conn_ok_inv [OF assms(1)] assms(2,3) by (simp_all add: inv_add_info)
  then show ?thesis using assms(1)
    by (simp add: conn_structure add_info_def map_le_upd_both)
qed

definition free_info :: "addr \<Rightarrow> 'p world \<Rightarrow> 'p world" where
  "free_info i w = fi_freeinfo (del_info i w)"

lemma inv_free_info [simp]: "inv w \<Longrightarrow> inv (free_info i w)"
  by (simp add: free_info_def inv_del_info)

lemma conn_free_info:
  assumes "conn_ok E w0 w c"
  shows "conn_ok E (free_info i w0) (free_info i w) c"
proof -
  have "inv (free_info i w0)" "inv (free_info i w)"
    using conn_ok_inv [OF assms] by simp_all
  then show ?thesis using assms
    by (simp add: conn_structure free_info_def del_info_def fi_freeinfo_def map_le_del_both)
qed

lemma restored_free_info: "restored E w0 w \<Longrightarrow> restored E (free_info i w0) (free_info i w)"
  by (simp add: restored_def free_info_def del_info_def fi_freeinfo_def map_le_del_both)

text \<open>The request handle of record \<open>i\<close> may have been consumed.\<close>

definition rehandled :: "addr \<Rightarrow> 'p world \<Rightarrow> 'p world \<Rightarrow> bool" where
  "rehandled i w0 w1 \<longleftrightarrow> w1 = w0 \<or> (\<exists>raw. info_wf raw \<and> w1 = add_info i raw w0)"

lemma free_rehandled: "rehandled i w0 w1 \<Longrightarrow> free_info i w1 = free_info i w0"
  by (auto simp: rehandled_def free_info_def del_info_def add_info_def)

lemma rehandled_inv: "rehandled i w0 w1 \<Longrightarrow> inv w0 \<Longrightarrow> i \<noteq> 0 \<Longrightarrow> inv w1"
  by (auto simp: rehandled_def inv_add_info)

lemma rehandled_same:
  assumes "rehandled i w0 w1"
  shows "fabrics w1 = fabrics w0" "listeners w1 = listeners w0" "eqs w1 = eqs w0"
    "infos w0 i \<noteq> None \<Longrightarrow> infos w1 i \<noteq> None"
  using assms by (auto simp: rehandled_def add_info_def)

subsection \<open>Rejecting\<close>

text \<open>Seen from a connection, a rejection moves the base world along.\<close>

lemma request_reject_spec:
  assumes "conn_ok E w0 w c" and "\<not> rq_handled q" and "info_raw (rq_info q) = i"
    and "listeners w0 (ls_raw (rq_listener q)) = Some y" and "infos w0 i \<noteq> None" and "errno_ok E"
  shows "runs (request_reject E (q, w)) (\<lambda>(r, (q', w')). q' = q\<lparr>rq_handled := True\<rparr> \<and>
    ticks w' = ticks w \<and> (\<exists>w1. rehandled i w0 w1 \<and> conn_ok E w1 w' c))"
proof -
  have l: "listeners w (ls_raw (rq_listener q)) = Some y" using assms(1,4) by (simp add: conn_structure)
  obtain x where x: "infos w0 i = Some x" using assms(5) by auto
  have "infos w0 \<subseteq>\<^sub>m infos w" using assms(1) by (simp add: conn_structure)
  with x have xw: "infos w i = Some x" unfolding map_le_def by (metis domI)
  have i: "i \<noteq> 0" using xw inv_nullD(1) [OF conn_ok_inv(1) [OF assms(1)]] by auto
  obtain code w' where rej: "shim_reject E (ls_raw (rq_listener q)) i w = Some (code, w')"
    and post: "(code = - errno E FI_EINVAL \<and> w' = w) \<or> (\<exists>raw p. i_raw x = Some raw \<and> info_wf raw \<and>
      fi_handle raw \<noteq> 0 \<and> w' = add_info i (raw\<lparr>fi_handle := 0\<rparr>) (w\<lparr>prov := p\<rparr>))"
    using shim_reject_spec [OF conn_ok_inv(1) [OF assms(1)] l xw, of E] by (auto simp: runs_Ex)
  have "ticks w' = ticks w \<and> (\<exists>w1. rehandled i w0 w1 \<and> conn_ok E w1 w' c)"
    using post
  proof (elim disjE conjE exE)
    assume "w' = w"
    then show ?thesis using assms(1) by (auto simp: rehandled_def)
  next
    fix raw p
    assume raw: "info_wf raw" and w': "w' = add_info i (raw\<lparr>fi_handle := 0\<rparr>) (w\<lparr>prov := p\<rparr>)"
    have "conn_ok E (add_info i (raw\<lparr>fi_handle := 0\<rparr>) w0) w' c"
      unfolding w' by (rule conn_rehandle) (use assms(1) i raw in simp_all)
    moreover have "rehandled i w0 (add_info i (raw\<lparr>fi_handle := 0\<rparr>) w0)"
      using raw by (auto simp: rehandled_def intro: exI [of _ "raw\<lparr>fi_handle := 0\<rparr>"])
    ultimately show ?thesis by (auto simp: w')
  qed
  then show ?thesis using assms(2,3) rej by (simp add: request_reject_def Let_def)
qed

lemma request_drop_handled:
  assumes "rq_handled q" and "inv w" and "infos w (info_raw (rq_info q)) \<noteq> None"
  shows "request_drop E q w = Some (free_info (info_raw (rq_info q)) w)"
  using assms shim_info_free_eq [OF assms(2)]
  by (auto simp: request_drop_def request_reject_def info_drop_def free_info_def)

subsection \<open>Accepting\<close>

text \<open>When the set-up fails the request is rejected and what was opened is closed.\<close>

lemma reject_drop:
  assumes "conn_ok E w v c" and "\<not> rq_handled q" and "info_raw (rq_info q) = i"
    and "listeners w (ls_raw (rq_listener q)) = Some y" and "infos w i \<noteq> None" and "errno_ok E"
  shows "runs (do { (r, (q, w)) \<leftarrow> request_reject E (q, v); w \<leftarrow> conn_drop E c w;
      Some (Inl (case r of Inr _ \<Rightarrow> e | Inl j \<Rightarrow> e @ ''; rejection: '' @ j), (q, w)) })
    (\<lambda>(r, (q', w')). q' = q\<lparr>rq_handled := True\<rparr> \<and> (\<exists>w1. rehandled i w w1 \<and> connected_as E w1 f r w'))"
proof -
  obtain r v' w3 where rej: "request_reject E (q, v) = Some (r, q\<lparr>rq_handled := True\<rparr>, v')"
    and base: "rehandled i w w3" and ok': "conn_ok E w3 v' c"
    using request_reject_spec [OF assms] by (auto simp: runs_Ex)
  obtain v'' where "conn_drop E c v' = Some v''" "inv v''" "\<exists>c. conn_ok E w3 v'' c"
    "closes_ok E \<longrightarrow> restored E w3 v''"
    using conn_drop_spec [OF ok' assms(6)] by (auto simp: runs_Ex)
  then show ?thesis using rej base by (auto simp: connected_as_def)
qed

lemma from_request_spec:
  assumes "inv w" and "\<not> rq_handled q" and "info_raw (rq_info q) = i" "infos w i \<noteq> None"
    and "fabrics w (ls_fabric (rq_listener q)) \<noteq> None" and "listeners w (ls_raw (rq_listener q)) \<noteq> None"
    and "tb \<noteq> 0" "rb \<noteq> 0" "tb \<noteq> rb" and "mem w tb = None" "mem w rb = None"
    and "errno_ok E" "infos_ok E" "clock_advances E"
  shows "runs (from_request E tb rb timeout (q, w)) (\<lambda>(r, (q', w')). q' = q\<lparr>rq_handled := True\<rparr> \<and>
    (\<exists>w1. rehandled i w w1 \<and> connected_as E w1 (ls_fabric (rq_listener q)) r w'))"
proof -
  let ?f = "ls_fabric (rq_listener q)"
  let ?Q = "\<lambda>(r, (q', w')). q' = q\<lparr>rq_handled := True\<rparr> \<and> (\<exists>w1. rehandled i w w1 \<and> connected_as E w1 ?f r w')"
  obtain y where y: "listeners w (ls_raw (rq_listener q)) = Some y" using assms(6) by auto
  obtain c w1 where em: "conn_empty tb rb ?f w = (c, w1)" by (cases "conn_empty tb rb ?f w")
  note start = start_setting [OF assms(1,5,7-11) em]
  have live: "infos w (info_raw (rq_info q)) \<noteq> None" using assms(3,4) by simp
  obtain r2 c2 w2 where ini: "initialize E (rq_info q) timeout (c, w1) = Some (r2, c2, w2)"
    and s2: "setting E w ?f (c2, w2)" and ok2: "is_ok r2 \<longrightarrow> stage 9 c2 \<and> receive_pending c2"
    using initialize_spec [OF start live assms(12-14), of timeout] by (auto simp: runs_Ex reach_def)
  note fail = reject_drop [OF _ assms(2,3) y assms(4,12)]
  have ok: "conn_ok E w w2 c2" "cn_fabric c2 = ?f" "\<not> cn_closing c2" using s2 by (simp_all add: setting_def)
  show ?thesis
  proof (cases r2)
    case (Inl e)
    then show ?thesis using assms(2) em ini fail [OF ok(1)] by (simp add: from_request_def)
  next
    case (Inr u)
    then have st: "stage 9 c2" "receive_pending c2" using ok2 by simp_all
    then obtain p where p: "endpoints w2 (cn_ep c2) = Some p" using conn_live(5) [OF ok(1)] by auto
    obtain code w3 where acc: "shim_accept E (cn_ep c2) w2 = Some (code, w3)" and same: "same_heap w2 w3"
      using shim_accept_spec [OF p, of E] by (auto simp: runs_Ex)
    have ok3: "conn_ok E w w3 c2" using conn_ok_same_heap [OF same ok(1)] .
    show ?thesis
    proof (cases rule: check_cases [of code E "''shim_accept''"])
      case 1
      have "rehandled i w w" by (simp add: rehandled_def)
      moreover have "connected_as E w ?f (Inr (c2\<lparr>cn_cm_started := True\<rparr>)) w3"
        using st ok(2,3) ok3 conn_ok_inv(1) [OF ok3] by (simp add: connected_as_def started_conn)
      ultimately show ?thesis
        using assms(2) em ini Inr acc 1 by (auto simp: from_request_def)
    next
      case (2 e)
      then show ?thesis using assms(2) em ini Inr acc fail [OF ok3] by (simp add: from_request_def)
    qed
  qed
qed

end
