(* ===== verification/Transport_Spec.thy ===== *)
theory Transport_Spec
  imports Shim_Contract Conn_Request
begin

text \<open>
  The owners of \<^verbatim>\<open>src/transport.rs\<close> against the shim's contracts: the \<open>close!\<close> macro over any
  closable handle, queries, fabrics, listeners, the wait for a request, and the relation
  between the world a scope was entered with and the world it leaves.
\<close>

subsection \<open>The close macro over any closable handle\<close>

context closable
begin

lemma close_handle_keeps:
  assumes "errno_ok E" and "inv w" and "get x \<noteq> 0 \<Longrightarrow> live w (get x)"
  shows "runs (close_handle E name close get clear (x, w)) (\<lambda>(r, (x', w')). inv w' \<and>
    (if is_ok r then (get x \<noteq> 0 \<longrightarrow> x' = clear x \<and> \<not> live w' (get x)) \<and> (get x = 0 \<longrightarrow> x' = x \<and> w' = w)
     else x' = x \<and> live w' (get x)))"
proof (rule runs_close_handle)
  assume nz: "get x \<noteq> 0"
  show "runs (close (get x) w) (\<lambda>(code, w').
      if code = 0 then (\<lambda>(r, (x', w')). inv w' \<and>
        (if is_ok r then (get x \<noteq> 0 \<longrightarrow> x' = clear x \<and> \<not> live w' (get x)) \<and> (get x = 0 \<longrightarrow> x' = x \<and> w' = w)
         else x' = x \<and> live w' (get x))) (Inr (), clear x, w')
      else \<forall>e. (\<lambda>(r, (x', w')). inv w' \<and>
        (if is_ok r then (get x \<noteq> 0 \<longrightarrow> x' = clear x \<and> \<not> live w' (get x)) \<and> (get x = 0 \<longrightarrow> x' = x \<and> w' = w)
         else x' = x \<and> live w' (get x))) (Inl e :: unit result, x, w'))"
    by (rule runs_conseq [OF close_live [OF assms(1,2) assms(3) [OF nz]]])
      (use assms(3) [OF nz] nz in auto)
qed (use assms(2) in simp)

text \<open>Closing what is closed does nothing: a null handle never reaches the shim again.\<close>

lemma close_handle_twice:
  assumes "get (clear x) = 0" and "close_handle E name close get clear (x, w) = Some (Inr (), x', w')"
    and "clear x = x \<or> get x \<noteq> 0"
  shows "close_handle E name close get clear (x', w') = Some (Inr (), x', w')"
  using assms by (auto simp: close_handle_def split: if_splits prod.splits option.splits sum.splits
      bind_splits)

end

subsection \<open>Queries\<close>

lemma info_drop_null [simp]: "info_drop \<lparr>info_raw = 0\<rparr> w = Some w"
  by (simp add: info_drop_def shim_info_free_def)

definition queried :: "'p world \<Rightarrow> info_owner result \<Rightarrow> 'p world \<Rightarrow> bool" where
  "queried w r w' \<longleftrightarrow> (case r of
     Inl _ \<Rightarrow> \<exists>p ms. w' = w\<lparr>prov := p, console := console w @ ms\<rparr>
   | Inr info \<Rightarrow> info_raw info \<noteq> 0 \<and> \<not> allocated w (info_raw info) \<and>
       (\<exists>raw p. info_wf raw \<and> w' = take_info (add_info (info_raw info) raw (w\<lparr>prov := p\<rparr>))))"

lemma info_query_spec:
  assumes "errno_ok E" and "infos_ok E"
  shows "runs (info_query E ip port domain src w) (\<lambda>(r, w'). queried w r w')"
proof -
  have same: "\<exists>p ms. w = w\<lparr>prov := p, console := console w @ ms\<rparr>"
    by (rule exI [of _ "prov w"], rule exI [of _ "[]"]) simp
  obtain code raw w' where q: "shim_info_open E (Some ip) (Some port) domain (if src then 1 else 0) True w =
      Some ((code, raw), w')" and post: "query_result w ((code, raw), w')"
    using shim_info_open_spec [OF assms, of "Some ip" "Some port" domain "if src then 1 else 0" w]
    by (auto simp: runs_Ex)
  show ?thesis
    using q post same
    by (cases "code = 0") (auto simp: info_query_def queried_def query_result_def check_def)
qed

subsection \<open>Fabrics\<close>

lemma fabric_open_spec:
  assumes "inv w" and "infos w (info_raw info) \<noteq> None" and "errno_ok E"
  shows "runs (fabric_open E info w) (\<lambda>(r, w'). case r of
      Inl _ \<Rightarrow> same_heap w w'
    | Inr f \<Rightarrow> fabric_raw f \<noteq> 0 \<and> \<not> allocated w (fabric_raw f) \<and>
        (\<exists>raw p. w' = add_fabric (fabric_raw f) \<lparr>f_raw = raw, f_children = 0\<rparr> (w\<lparr>prov := p\<rparr>)))"
proof -
  obtain x where x: "infos w (info_raw info) = Some x" using assms(2) by auto
  obtain raw where "i_raw x = Some raw" by (rule info_rawD [OF assms(1) x])
  then obtain code a w' where op: "shim_fabric_open E (info_raw info) True w = Some ((code, a), w')"
    and post: "opened (\<lambda>a r. add_fabric a \<lparr>f_raw = r, f_children = 0\<rparr>) w ((code, a), w')"
    using shim_fabric_open_eq [OF assms(1) x] open_step_opened [OF assms(3)] by (metis prod.exhaust)
  from post show ?thesis
  proof (cases rule: opened_cases)
    case (failed p)
    then show ?thesis using op
      by (auto simp: fabric_open_def check_def fabric_drop_def fabric_close_def close_handle_def)
  next
    case (made raw p)
    then show ?thesis using op by (auto simp: fabric_open_def check_def)
  qed
qed

text \<open>Closing and dropping a fabric: with nothing left on it, it goes when the provider agrees.\<close>

lemma fabric_close_spec:
  assumes "inv w" and "fabrics w (fabric_raw f) = Some x" and "errno_ok E"
  shows "runs (fabric_close E (f, w)) (\<lambda>(r, (f', w')). inv w' \<and>
    (if is_ok r then f' = \<lparr>fabric_raw = 0\<rparr> \<and> (\<exists>p. w' = del_fabric (fabric_raw f) (w\<lparr>prov := p\<rparr>))
     else f' = f \<and> same_heap w w' \<and> \<not> (closes_ok E \<and> f_children x = 0)))"
proof -
  have z: "fabric_raw f \<noteq> 0" using assms(2) inv_nullD(2) [OF assms(1)] by auto
  obtain r w' where cs: "close_step E (f_children x \<noteq> 0) (f_raw x) (del_fabric (fabric_raw f)) w = (r, w')"
    by (metis prod.exhaust)
  note eq = shim_fabric_close_eq [OF assms(2) z, of E, unfolded cs]
  from cs show ?thesis
  proof (cases rule: close_step_cases)
    case busy
    then show ?thesis using eq z assms(1,3)
      by (auto simp: fabric_close_def close_handle_def check_def)
  next
    case (refused p)
    then show ?thesis using eq z assms(1) by (auto simp: fabric_close_def close_handle_def check_def dest: closes_okD)
  next
    case (closed p)
    then have "inv w'" using inv_del_fabric [of "w\<lparr>prov := p\<rparr>"] assms(1,2) by simp
    then show ?thesis using eq z closed by (cases f) (auto simp: fabric_close_def close_handle_def check_def)
  qed
qed

subsection \<open>Scopes\<close>

text \<open>
  \<open>scope w0 w\<close>: what the owners alive at \<open>w0\<close> rely on still holds in \<open>w\<close>; \<open>left\<close>: the
  scope entered at \<open>w0\<close> is left, with nothing of it remaining when the provider's closes
  succeed.
\<close>

definition scope :: "'p world \<Rightarrow> 'p world \<Rightarrow> bool" where
  "scope w0 w \<longleftrightarrow> inv w \<and> infos w0 \<subseteq>\<^sub>m infos w \<and> dom (fabrics w0) \<subseteq> dom (fabrics w) \<and>
     dom (eqs w0) \<subseteq> dom (eqs w) \<and> listeners w0 \<subseteq>\<^sub>m listeners w"

definition left :: "'p lib \<Rightarrow> 'p world \<Rightarrow> 'p world \<Rightarrow> bool" where
  "left E w0 w \<longleftrightarrow> scope w0 w \<and> (closes_ok E \<longrightarrow> restored E w0 w)"

lemma scope_refl: "inv w \<Longrightarrow> scope w w"
  by (simp add: scope_def)

lemma scope_trans: "scope u v \<Longrightarrow> scope v w \<Longrightarrow> scope u w"
  unfolding scope_def by (blast intro: map_le_trans)

lemma restored_refl: "restored E w w"
  by (simp add: restored_def)

lemma restored_trans: "restored E u v \<Longrightarrow> restored E v w \<Longrightarrow> restored E u w"
  unfolding restored_def by (auto intro: map_le_trans)

lemma left_trans: "left E u v \<Longrightarrow> left E v w \<Longrightarrow> left E u w"
  unfolding left_def by (blast intro: scope_trans restored_trans)

lemma own_dom: "own A m m0 \<Longrightarrow> dom m0 \<subseteq> dom m"
  by (auto intro: own_keeps)

lemma conn_scope:
  assumes "conn_ok E w0 w c"
  shows "scope w0 w"
proof -
  have "dom (fabrics w0) \<subseteq> dom (fabrics w)"
  proof
    fix a assume "a \<in> dom (fabrics w0)"
    moreover have "map_option f_raw (fabrics w a) = map_option f_raw (fabrics w0 a)"
      using assms by (simp add: conn_structure)
    ultimately show "a \<in> dom (fabrics w)" by (cases "fabrics w a") (auto simp: dom_def)
  qed
  then show ?thesis
    using conn_ok_inv(1) [OF assms] own_dom [OF conn_own(2) [OF assms]] assms
    by (simp add: scope_def conn_structure)
qed

text \<open>Changes that no owner notices.\<close>

definition quiet :: "'p world \<Rightarrow> 'p world \<Rightarrow> bool" where
  "quiet w w' \<longleftrightarrow> (\<exists>p n t. w' = w\<lparr>prov := p, ticks := n, console := t\<rparr>)"

lemma quietI [intro, simp]:
  "quiet w w" "quiet w (w\<lparr>prov := p\<rparr>)" "quiet w (snd (now E w))" "quiet w (println s w)"
  "quiet w (eprintln s w)"
proof -
  have "w = w\<lparr>prov := prov w, ticks := ticks w, console := console w\<rparr>"
    and "w\<lparr>prov := p\<rparr> = w\<lparr>prov := p, ticks := ticks w, console := console w\<rparr>"
    and "snd (now E w) = w\<lparr>prov := prov w, ticks := ticks w + 1, console := console w\<rparr>"
    and "println s w = w\<lparr>prov := prov w, ticks := ticks w, console := console w @ [s]\<rparr>"
    and "eprintln s w = w\<lparr>prov := prov w, ticks := ticks w, console := console w @ [s]\<rparr>"
    by (simp_all add: now_def println_def eprintln_def)
  then show "quiet w w" "quiet w (w\<lparr>prov := p\<rparr>)" "quiet w (snd (now E w))" "quiet w (println s w)"
    "quiet w (eprintln s w)" unfolding quiet_def by blast+
qed

lemma quiet_same:
  assumes "quiet w w'"
  shows "infos w' = infos w" "fabrics w' = fabrics w" "domains w' = domains w" "eqs w' = eqs w"
    "cqs w' = cqs w" "listeners w' = listeners w" "endpoints w' = endpoints w" "mrs w' = mrs w"
    "ops w' = ops w" "mem w' = mem w" "fi_lists w' = fi_lists w" "inv w' = inv w"
    "allocated w' a = allocated w a"
  using assms by (auto simp: quiet_def allocated_def)

lemma quiet_trans: "quiet u v \<Longrightarrow> quiet v w \<Longrightarrow> quiet u w"
  unfolding quiet_def by fastforce

lemma quiet_same_heap: "same_heap u v \<Longrightarrow> quiet u v"
  by (auto simp: same_heap_def)

lemma quiet_restored: "quiet w w' \<Longrightarrow> restored E w w'"
  by (simp add: restored_def quiet_same)

lemma quiet_left: "quiet w w' \<Longrightarrow> inv w \<Longrightarrow> left E w w'"
  by (simp add: left_def scope_def quiet_same quiet_restored)

lemma conn_drop_left:
  assumes "conn_ok E w0 w c" and "errno_ok E"
  shows "runs (conn_drop E c w) (left E w0)"
  by (rule runs_conseq [OF conn_drop_spec [OF assms]]) (auto simp: left_def intro: conn_scope)

lemma scope_live:
  assumes "scope w w'"
  shows "listeners w a \<noteq> None \<Longrightarrow> listeners w' a \<noteq> None" and "eqs w a \<noteq> None \<Longrightarrow> eqs w' a \<noteq> None"
    and "fabrics w a \<noteq> None \<Longrightarrow> fabrics w' a \<noteq> None" and "infos w a \<noteq> None \<Longrightarrow> infos w' a \<noteq> None"
  using assms unfolding scope_def map_le_def by (metis domIff, blast, blast, metis domIff)

lemma scope_quiet: "scope w0 w \<Longrightarrow> quiet w w' \<Longrightarrow> scope w0 w'"
  by (simp add: scope_def quiet_same)

text \<open>Leaving the scope of a fabric and of a query result.\<close>

lemma fabric_close_raw:
  assumes "inv w" and "fabrics w f = Some x" and "errno_ok E"
  shows "runs (fabric_close E (\<lparr>fabric_raw = f\<rparr>, w)) (\<lambda>(r, (f', w')). inv w' \<and>
    (if is_ok r then f' = \<lparr>fabric_raw = 0\<rparr> \<and> (\<exists>p. w' = del_fabric f (w\<lparr>prov := p\<rparr>))
     else f' = \<lparr>fabric_raw = f\<rparr> \<and> same_heap w w' \<and> \<not> (closes_ok E \<and> f_children x = 0)))"
  using fabric_close_spec [of w "\<lparr>fabric_raw = f\<rparr>" x E] assms by (simp cong: if_cong)
lemma scope_add_fabric:
  assumes "scope (add_fabric f x v) u"
  shows "scope v u" and "inv (del_fabric f u) \<Longrightarrow> fabrics v f = None \<Longrightarrow> scope v (del_fabric f u)"
proof -
  have "inv u" "infos v \<subseteq>\<^sub>m infos u" "dom (fabrics (add_fabric f x v)) \<subseteq> dom (fabrics u)"
    "dom (eqs v) \<subseteq> dom (eqs u)" "listeners v \<subseteq>\<^sub>m listeners u"
    using assms by (auto simp: scope_def add_fabric_def)
  then show "scope v u" using assms by (simp add: scope_def) (simp add: add_fabric_def)
  show "scope v (del_fabric f u)" if "inv (del_fabric f u)" "fabrics v f = None"
    using assms that by (auto simp: scope_def add_fabric_def del_fabric_def split: if_splits)
qed

lemma fabric_close_scope:
  assumes "scope (add_fabric f x v) w" and "fabrics v f = None" and "fabrics w f = Some y" and "errno_ok E"
  obtains r fb w' where "fabric_close E (\<lparr>fabric_raw = f\<rparr>, w) = Some (r, fb, w')" "scope v w'"
    "is_ok r \<Longrightarrow> fb = \<lparr>fabric_raw = 0\<rparr> \<and> (\<exists>p. w' = del_fabric f (w\<lparr>prov := p\<rparr>))"
    "\<not> is_ok r \<Longrightarrow> fb = \<lparr>fabric_raw = f\<rparr> \<and> scope (add_fabric f x v) w' \<and> fabrics w' f = Some y \<and>
       \<not> (closes_ok E \<and> f_children y = 0)"
proof -
  have i: "inv w" using assms(1) by (simp add: scope_def)
  obtain r fb w' where cl: "fabric_close E (\<lparr>fabric_raw = f\<rparr>, w) = Some (r, fb, w')" and i1: "inv w'"
    and post: "if is_ok r then fb = \<lparr>fabric_raw = 0\<rparr> \<and> (\<exists>p. w' = del_fabric f (w\<lparr>prov := p\<rparr>))
      else fb = \<lparr>fabric_raw = f\<rparr> \<and> same_heap w w' \<and> \<not> (closes_ok E \<and> f_children y = 0)"
    using fabric_close_raw [OF i assms(3,4)] by (auto simp: runs_Ex)
  show thesis
  proof (cases "is_ok r")
    case True
    then obtain p where w': "w' = del_fabric f (w\<lparr>prov := p\<rparr>)" using post by auto
    have "scope (add_fabric f x v) (w\<lparr>prov := p\<rparr>)" using scope_quiet [OF assms(1)] by simp
    from scope_add_fabric(2) [OF this] have "scope v w'" using i1 assms(2) by (simp add: w')
    with that cl True post show thesis by simp
  next
    case False
    then have same: "same_heap w w'" using post by simp
    have sc: "scope (add_fabric f x v) w'" using scope_quiet [OF assms(1) quiet_same_heap [OF same]] .
    moreover have "fabrics w' f = Some y" using assms(3) same by (auto simp: same_heap_def)
    ultimately show thesis using that [OF cl] scope_add_fabric(1) [OF sc] False post by simp
  qed
qed

lemma leave_fabric:
  assumes "left E (add_fabric f x v) w" and "f_children x = 0" and "fabrics v f = None" and "errno_ok E"
  shows "runs (Option.bind (fabric_close E (\<lparr>fabric_raw = f\<rparr>, w))
      (\<lambda>(cl, (fb, w)). Option.bind (fabric_drop E fb w) (\<lambda>w. Some (cl, w)))) (\<lambda>(cl, w'). left E v w')"
proof -
  have sc: "scope (add_fabric f x v) w" using assms(1) by (simp add: left_def)
  have "fabrics w f \<noteq> None" using scope_live(3) [OF sc] by (simp add: add_fabric_def)
  then obtain y where y: "fabrics w f = Some y" by auto
  obtain r fb w1 where cl: "fabric_close E (\<lparr>fabric_raw = f\<rparr>, w) = Some (r, fb, w1)" and s1: "scope v w1"
    and ok: "is_ok r \<Longrightarrow> fb = \<lparr>fabric_raw = 0\<rparr> \<and> (\<exists>p. w1 = del_fabric f (w\<lparr>prov := p\<rparr>))"
    and no: "\<not> is_ok r \<Longrightarrow> fb = \<lparr>fabric_raw = f\<rparr> \<and> scope (add_fabric f x v) w1 \<and> fabrics w1 f = Some y \<and>
       \<not> (closes_ok E \<and> f_children y = 0)"
    using fabric_close_scope [OF sc assms(3) y assms(4)] by blast
  show ?thesis
  proof (cases "is_ok r")
    case True
    then obtain p where w1: "w1 = del_fabric f (w\<lparr>prov := p\<rparr>)" and fb: "fb = \<lparr>fabric_raw = 0\<rparr>" using ok by auto
    have "restored E v w1" if "closes_ok E"
      using assms(1,3) that by (simp add: left_def restored_def w1 add_fabric_def del_fabric_def fun_upd_idem)
    then show ?thesis
      using cl fb s1 by (simp add: fabric_drop_def fabric_close_def close_handle_def left_def)
  next
    case False
    have "\<not> closes_ok E"
    proof
      assume c: "closes_ok E"
      then have "fabrics w f = Some x" using assms(1) by (simp add: left_def restored_def add_fabric_def)
      with y no [OF False] c assms(2) show False by simp
    qed
    moreover obtain r2 fb2 w2 where "fabric_close E (\<lparr>fabric_raw = f\<rparr>, w1) = Some (r2, fb2, w2)" "scope v w2"
      using fabric_close_scope [of f x v w1 y E] no [OF False] assms(3,4) by blast
    ultimately show ?thesis
      using cl no [OF False] by (cases r2) (auto simp: fabric_drop_def left_def intro: scope_quiet)
  qed
qed

lemma leave_info:
  assumes "left E (take_info (add_info i raw v)) w" and "infos v i = None"
  shows "runs (info_drop \<lparr>info_raw = i\<rparr> w) (left E v)"
proof -
  have sc: "scope (take_info (add_info i raw v)) w" using assms(1) by (simp add: left_def)
  then have iw: "inv w" by (simp add: scope_def)
  have le: "infos v \<subseteq>\<^sub>m (infos w)(i := None)"
    using sc assms(2) unfolding scope_def map_le_def
    by (simp add: take_info_def add_info_def) (metis domIff fun_upd_other)
  have "infos w i \<noteq> None" using scope_live(4) [OF sc, of i] by (simp add: take_info_def add_info_def)
  then have "info_drop \<lparr>info_raw = i\<rparr> w = Some (free_info i w)"
    using shim_info_free_eq [OF iw] by (auto simp: info_drop_def free_info_def)
  moreover have "scope v (free_info i w)"
    using sc le iw inv_free_info [OF iw, of i]
    by (simp add: scope_def free_info_def del_info_def fi_freeinfo_def take_info_def add_info_def)
  moreover have "restored E v (free_info i w)" if "closes_ok E"
    using assms that le
    by (simp add: left_def restored_def free_info_def del_info_def fi_freeinfo_def take_info_def add_info_def
        fun_upd_idem)
  ultimately show ?thesis by (simp add: left_def)
qed

lemma connected_left:
  assumes "connected_as E w0 f (Inl e) w"
  shows "left E w0 w"
  using assms conn_scope by (auto simp: connected_as_def left_def)

end
