(* ===== verification/Client_Trace.thy ===== *)
theory Client_Trace
  imports Transport_Spec
begin

text \<open>
  The client's exchange as a step relation over what it observes and submits, its
  invariant over traces, and the refinement: whatever the transport does, a run of the event
  loop that reports success is a trace of the relation that ends complete.
\<close>

subsection \<open>Traces\<close>

text \<open>What crosses the \<open>ClientIo\<close> interface: an event polled, a message accepted for sending.\<close>

datatype label = Got event | Put bytes

inductive client_step :: "Client.exchange \<Rightarrow> label \<Rightarrow> Client.exchange \<Rightarrow> bool" where
  got: "Client.on_event e x = (Inr (), x') \<Longrightarrow> client_step x (Got e) x'"
| put: "\<not> Client.complete x \<Longrightarrow> next_message x = Some m \<Longrightarrow>
    client_step x (Put (message_bytes m)) (posted m x)"

inductive_cases got_stepE: "client_step x (Got e) y"
inductive_cases put_stepE: "client_step x (Put m) y"
inductive_simps got_step_simp: "client_step x (Got e) y"

inductive client_trace :: "label list \<Rightarrow> Client.exchange \<Rightarrow> bool" where
  start: "client_trace [] exchange_default"
| step: "client_trace ls x \<Longrightarrow> client_step x l y \<Longrightarrow> client_trace (ls @ [l]) y"

definition puts :: "label list \<Rightarrow> bytes list" where
  "puts ls = concat (map (\<lambda>l. case l of Put m \<Rightarrow> [m] | _ \<Rightarrow> []) ls)"

definition replies :: "label list \<Rightarrow> bytes list" where
  "replies ls = concat (map (\<lambda>l. case l of Got (Received m) \<Rightarrow> [m] | _ \<Rightarrow> []) ls)"

definition sents :: "label list \<Rightarrow> nat" where
  "sents ls = length (filter (\<lambda>l. l = Got Sent) ls)"

lemma trace_counts [simp]:
  "puts [] = []" "puts (ls @ [l]) = puts ls @ (case l of Put m \<Rightarrow> [m] | _ \<Rightarrow> [])"
  "replies [] = []" "replies (ls @ [l]) = replies ls @ (case l of Got (Received m) \<Rightarrow> [m] | _ \<Rightarrow> [])"
  "sents [] = 0" "sents (ls @ [l]) = sents ls + (if l = Got Sent then 1 else 0)"
  by (simp_all add: puts_def replies_def sents_def)

text \<open>
  The invariant: the state is a function of the trace, and messages, replies and completions
  come in the only order the protocol allows.
\<close>

definition client_inv :: "label list \<Rightarrow> Client.exchange \<Rightarrow> bool" where
  "client_inv ls x \<longleftrightarrow>
     puts ls = (if hello_posted x then [''hello''] else []) @ (if ack_posted x then [''ack''] else []) \<and>
     replies ls = (if world_received x then [''world''] else []) \<and>
     sents ls = (if hello_completed x then 1 else 0) + (if ack_completed x then 1 else 0) \<and>
     (Client.connected x \<longleftrightarrow> Got Connected \<in> set ls) \<and>
     (Client.peer_closed x \<longleftrightarrow> Got PeerClosed \<in> set ls) \<and>
     (hello_posted x \<longrightarrow> Client.connected x) \<and>
     (hello_completed x \<longrightarrow> hello_posted x) \<and> (world_received x \<longrightarrow> hello_posted x) \<and>
     (ack_posted x \<longrightarrow> hello_completed x \<and> world_received x) \<and> (ack_completed x \<longrightarrow> ack_posted x)"

lemma client_step_inv:
  assumes "client_inv ls x" and "client_step x l y"
  shows "client_inv (ls @ [l]) y"
  using assms(2)
proof cases
  case (got e)
  show ?thesis
  proof (cases e)
    case (Received m)
    with got have "hello_posted x" "\<not> world_received x" "m = ''world''" "y = x\<lparr>world_received := True\<rparr>"
      by (simp_all add: Client.on_event_def split: if_splits)
    with got Received assms(1) show ?thesis by (auto simp: client_inv_def)
  next
    case Sent
    then consider "ack_posted x" "\<not> ack_completed x" "y = x\<lparr>ack_completed := True\<rparr>"
      | "\<not> (ack_posted x \<and> \<not> ack_completed x)" "hello_posted x" "\<not> hello_completed x"
        "y = x\<lparr>hello_completed := True\<rparr>"
      using got by (simp add: Client.on_event_def split: if_splits)
    then show ?thesis
    proof cases
      case 1
      with got Sent assms(1) show ?thesis by (auto simp: client_inv_def)
    next
      case 2
      have "\<not> ack_posted x" "\<not> ack_completed x" using 2 assms(1) unfolding client_inv_def by argo+
      with 2 got Sent assms(1) show ?thesis by (auto simp: client_inv_def)
    qed
  next
    case Connected
    with got have "y = x\<lparr>Client.connected := True\<rparr>" by (simp add: Client.on_event_def)
    with got Connected show ?thesis using assms(1) by (simp add: client_inv_def)
  next
    case PeerClosed
    with got have "y = x\<lparr>Client.peer_closed := True\<rparr>" by (simp add: Client.on_event_def)
    with got PeerClosed show ?thesis using assms(1) by (simp add: client_inv_def) argo
  qed
next
  case (put m)
  then show ?thesis using assms(1)
    by (cases m) (auto simp: client_inv_def next_message_def posted_def message_bytes_def split: if_splits)
qed

lemma client_trace_inv: "client_trace ls x \<Longrightarrow> client_inv ls x"
proof (induction rule: client_trace.induct)
  case start
  show ?case by (simp add: client_inv_def exchange_default_def)
next
  case (step ls x l y)
  then show ?case by (blast intro: client_step_inv)
qed

text \<open>A trace determines the state it leads to.\<close>

lemma put_bytes_inj: "message_bytes m = message_bytes n \<Longrightarrow> m = n"
  by (cases m; cases n) (simp_all add: message_bytes_def)

lemma client_step_det: "client_step x l y \<Longrightarrow> client_step x l z \<Longrightarrow> y = z"
  by (cases l) (auto elim!: got_stepE put_stepE dest: put_bytes_inj)

lemma client_traceE:
  assumes "client_trace (ls @ [l]) y"
  obtains x where "client_trace ls x" and "client_step x l y"
  using assms by (cases rule: client_trace.cases) auto

lemma client_trace_det: "client_trace ls x \<Longrightarrow> client_trace ls y \<Longrightarrow> x = y"
proof (induction arbitrary: y rule: client_trace.induct)
  case start
  then show ?case by (cases rule: client_trace.cases) auto
next
  case (step ls x l x1)
  obtain z where "client_trace ls z" and z: "client_step z l y"
    by (rule client_traceE [OF step.prems])
  then have "x = z" by (intro step.IH)
  with step.hyps(2) z show ?case by (blast intro: client_step_det)
qed

subsection \<open>The loop over a logged transport\<close>

text \<open>
  The trait's functions with a log of what crossed the interface: events of a successful
  poll, and messages whose send returned true.
\<close>

definition logged_poll :: "('io \<times> 'p world, event list) rust
    \<Rightarrow> ((label list \<times> 'io) \<times> 'p world, event list) rust" where
  "logged_poll io_poll s = (let ((ls, io), w) = s in do {
     (r, (io, w)) \<leftarrow> io_poll (io, w);
     Some (r, ((case r of Inr es \<Rightarrow> ls @ map Got es | Inl _ \<Rightarrow> ls), io), w)
   })"

definition logged_send :: "(bytes \<Rightarrow> ('io \<times> 'p world, bool) rust) \<Rightarrow> bytes
    \<Rightarrow> ((label list \<times> 'io) \<times> 'p world, bool) rust" where
  "logged_send io_send m s = (let ((ls, io), w) = s in do {
     (r, (io, w)) \<leftarrow> io_send m (io, w);
     Some (r, (if r = Inr True then ls @ [Put m] else ls, io), w)
   })"

lemma handle_events_trace:
  "client_trace ls x \<Longrightarrow> Client.handle_events es (x, w) = (Inr (), (x', w')) \<Longrightarrow>
    client_trace (ls @ map Got es) x'"
proof (induction es arbitrary: ls x w)
  case Nil
  then show ?case by simp
next
  case (Cons e es)
  obtain r y where on: "Client.on_event e x = (r, y)" by (cases "Client.on_event e x")
  with Cons.prems(2) have "r = Inr ()" and rest:
    "Client.handle_events es (y, println (''event: '' @ show_event e) w) = (Inr (), (x', w'))"
    by (auto simp: Let_def split: sum.splits)
  then have "client_step x (Got e) y" using on by (auto intro: got)
  with Cons.prems(1) have "client_trace (ls @ [Got e]) y" by (rule step)
  from Cons.IH [OF this rest] show ?case by simp
qed

lemma round_trace:
  assumes "client_trace ls x"
    and "Client.round (logged_poll p) (logged_send q) x ((ls, io), w) = Some (Inr fin, x', (ls', io'), w')"
  shows "client_trace ls' x' \<and> (fin \<longrightarrow> Client.complete x')"
proof -
  obtain r io1 w1 where poll: "p (io, w) = Some (r, io1, w1)"
    using assms(2) by (auto simp: Client.round_def logged_poll_def split: bind_splits)
  show ?thesis
  proof (cases r)
    case (Inl e)
    then show ?thesis using assms(2) poll by (simp add: Client.round_def logged_poll_def)
  next
    case (Inr es)
    obtain r2 x1 w2 where he: "Client.handle_events es (x, w1) = (r2, (x1, w2))"
      by (metis prod.exhaust)
    show ?thesis
    proof (cases r2)
      case (Inl e)
      then show ?thesis using assms(2) poll Inr he by (simp add: Client.round_def logged_poll_def)
    next
      case r2: (Inr u)
      have tr: "client_trace (ls @ map Got es) x1"
        using handle_events_trace [OF assms(1)] he r2 by simp
      have after: "Client.after_events (logged_send q) x1 ((ls @ map Got es, io1), w2) =
          Some (Inr fin, x', (ls', io'), w')"
        using assms(2) poll Inr he r2 by (simp add: Client.round_def logged_poll_def)
      consider "Client.complete x1" | "\<not> Client.complete x1" "next_message x1 = None"
        | m where "\<not> Client.complete x1" "next_message x1 = Some m" by auto
      then show ?thesis
      proof cases
        case (3 m)
        obtain r3 io3 w3 where snd: "q (message_bytes m) (io1, w2) = Some (r3, io3, w3)"
          using after 3 by (auto simp: Client.after_events_def logged_send_def split: bind_splits)
        have "client_trace (ls @ map Got es @ [Put (message_bytes m)]) (posted m x1)"
          using step [OF tr put [OF 3]] by simp
        then show ?thesis using after 3 snd tr
          by (cases r3) (auto simp: Client.after_events_def logged_send_def split: if_splits)
      qed (use after tr in \<open>auto simp: Client.after_events_def\<close>)
    qed
  qed
qed

text \<open>Induction over the rounds of a run that returns, in curried form.\<close>

lemma exchange_loop_induct [consumes 1, case_names round]:
  assumes "exchange_loop E p q dl x s = Some y"
    and "\<And>rec E p q dl x s y. (\<And>E p q dl x s y. rec E p q dl x s = Some y \<Longrightarrow> P E p q dl x s y) \<Longrightarrow>
      (if fst (now E (snd s)) < dl
       then Option.bind (Client.round p q x (fst s, snd (now E (snd s)))) (\<lambda>(r, x, s).
         case r of Inl e \<Rightarrow> Some (Inl e, s)
         | Inr fin \<Rightarrow> if fin then Some (Inr (), s) else rec E p q dl x s)
       else Some (Inl (''client exchange timeout: '' @ show_exchange x), (fst s, snd (now E (snd s))))) = Some y
      \<Longrightarrow> P E p q dl x s y"
  shows "P E p q dl x s y"
  using exchange_loop.raw_induct [of P "(((((E, p), q), dl), x), s)" y, unfolded prod.case] assms
  by blast

lemma exchange_loop_trace:
  assumes "exchange_loop E (logged_poll p) (logged_send q) deadline x ((ls, io), w) =
      Some (Inr (), (ls', io'), w')"
    and "client_trace ls x"
  shows "\<exists>x'. client_trace ls' x' \<and> Client.complete x'"
proof -
  have "lp = logged_poll p \<longrightarrow> lq = logged_send q \<longrightarrow> client_trace (fst (fst s)) x \<longrightarrow> fst y = Inr () \<longrightarrow>
      (\<exists>x'. client_trace (fst (fst (snd y))) x' \<and> Client.complete x')"
    if "exchange_loop E lp lq dl x s = Some y" for lp lq dl x s y
    using that
  proof (induction rule: exchange_loop_induct)
    case (round rec E lp lq dl x s y)
    show ?case
    proof (intro impI)
    assume prems: "lp = logged_poll p" "lq = logged_send q" "client_trace (fst (fst s)) x" "fst y = Inr ()"
    show "\<exists>x'. client_trace (fst (fst (snd y))) x' \<and> Client.complete x'"
    proof (cases "fst (now E (snd s)) < dl")
      case False
      then show ?thesis using round(2) prems(4) by auto
    next
      case True
      let ?s = "(fst s, snd (now E (snd s)))"
      from round(2) True obtain r x1 s1 where rd: "Client.round lp lq x ?s = Some (r, x1, s1)"
        and k: "(case r of Inl e \<Rightarrow> Some (Inl e, s1)
          | Inr fin \<Rightarrow> if fin then Some (Inr (), s1) else rec E lp lq dl x1 s1) = Some y"
        by (auto split: bind_splits)
      obtain ls1 io1 w1 where s1: "s1 = ((ls1, io1), w1)" by (metis prod.exhaust)
      obtain ls0 io0 where s0: "fst s = (ls0, io0)" by (cases "fst s")
      show ?thesis
      proof (cases r)
        case (Inl e)
        then show ?thesis using k prems(4) by auto
      next
        case (Inr fin)
        have tr: "client_trace ls1 x1 \<and> (fin \<longrightarrow> Client.complete x1)"
          using round_trace [of ls0 x p q io0 "snd (now E (snd s))" fin x1 ls1 io1 w1] rd Inr prems s0 s1
          by simp
        show ?thesis
        proof (cases fin)
          case True
          then show ?thesis using k Inr tr s1 by auto
        next
          case False
          then have "rec E lp lq dl x1 s1 = Some y" using k Inr by simp
          from round(1) [OF this] tr prems s1 show ?thesis by simp
        qed
      qed
    qed
    qed
  qed
  from this [OF assms(1)] assms(2) show ?thesis by simp
qed

text \<open>Logging changes neither the result nor the world.\<close>

lemma round_logged:
  assumes "Client.round p q x (io, w) = Some (r, x', io', w')"
  shows "\<exists>ls'. Client.round (logged_poll p) (logged_send q) x ((ls, io), w) = Some (r, x', (ls', io'), w')"
proof -
  obtain r1 io1 w1 where poll: "p (io, w) = Some (r1, io1, w1)"
    using assms by (auto simp: Client.round_def split: bind_splits)
  show ?thesis
  proof (cases r1)
    case (Inl e)
    then show ?thesis using assms poll by (simp add: Client.round_def logged_poll_def)
  next
    case (Inr es)
    obtain r2 x1 w2 where he: "Client.handle_events es (x, w1) = (r2, (x1, w2))"
      by (metis prod.exhaust)
    show ?thesis
    proof (cases r2)
      case (Inl e)
      then show ?thesis using assms poll Inr he by (simp add: Client.round_def logged_poll_def)
    next
      case r2: (Inr u)
      have after: "Client.after_events q x1 (io1, w2) = Some (r, x', io', w')"
        using assms poll Inr he r2 by (simp add: Client.round_def)
      have "\<exists>ls'. Client.after_events (logged_send q) x1 ((l, io1), w2) = Some (r, x', (ls', io'), w')" for l
        using after by (auto simp: Client.after_events_def logged_send_def split: if_splits option.splits bind_splits)
          (auto split: sum.splits if_splits)
      then show ?thesis using poll Inr he r2 by (simp add: Client.round_def logged_poll_def)
    qed
  qed
qed

lemma exchange_loop_logged:
  assumes "exchange_loop E p q dl x s = Some y"
  shows "\<exists>ls'. exchange_loop E (logged_poll p) (logged_send q) dl x ((ls, fst s), snd s) =
    Some (fst y, ((ls', fst (snd y)), snd (snd y)))"
  using assms
proof (induction arbitrary: ls rule: exchange_loop_induct)
  case (round rec E p q dl x s y)
  show ?case
  proof (cases "fst (now E (snd s)) < dl")
    case False
    then show ?thesis using round(2) by (subst exchange_loop.simps) auto
  next
    case True
    let ?w = "snd (now E (snd s))"
    from round(2) True obtain r x1 s1 where rd: "Client.round p q x (fst s, ?w) = Some (r, x1, s1)"
      and k: "(case r of Inl e \<Rightarrow> Some (Inl e, s1)
        | Inr fin \<Rightarrow> if fin then Some (Inr (), s1) else rec E p q dl x1 s1) = Some y"
      by (auto split: bind_splits)
    obtain io1 w1 where s1: "s1 = (io1, w1)" by (cases s1)
    obtain ls1 where lg: "Client.round (logged_poll p) (logged_send q) x ((ls, fst s), ?w) =
        Some (r, x1, (ls1, io1), w1)"
      using round_logged [of p q x "fst s" ?w r x1 io1 w1 ls] rd s1 by auto
    show ?thesis
    proof (cases r)
      case (Inl e)
      then show ?thesis using k lg True s1 by (subst exchange_loop.simps) auto
    next
      case (Inr fin)
      show ?thesis
      proof (cases fin)
        case True
        then show ?thesis using k lg Inr s1 \<open>fst (now E (snd s)) < dl\<close>
          by (subst exchange_loop.simps) auto
      next
        case False
        then have "rec E p q dl x1 s1 = Some y" using k Inr by simp
        from round(1) [OF this, of ls1] show ?thesis
          using lg Inr False True s1 by (subst exchange_loop.simps) simp
      qed
    qed
  qed
qed

text \<open>A completed trace, spelled out.\<close>

lemma complete_trace:
  assumes "client_trace ls x" and "Client.complete x"
  shows "puts ls = [''hello'', ''ack''] \<and> replies ls = [''world''] \<and> sents ls = 2 \<and>
    Got Connected \<in> set ls"
  using client_trace_inv [OF assms(1)] assms(2)
  by (simp_all add: client_inv_def Client.complete_def) blast

lemma run_exchange_trace:
  assumes "run_exchange E p q timeout (io, w) = Some (Inr (), io', w')"
  shows "\<exists>ls x. run_exchange E (logged_poll p) (logged_send q) timeout (([], io), w) = Some (Inr (), (ls, io'), w') \<and>
    client_trace ls x \<and> Client.complete x"
proof -
  have "exchange_loop E p q (clock E (ticks w) + timeout) exchange_default (io, snd (now E w)) =
      Some (Inr (), io', w')"
    using assms by (simp add: run_exchange_def now_def)
  from exchange_loop_logged [OF this, of "[]"] obtain ls where
    ls: "exchange_loop E (logged_poll p) (logged_send q) (clock E (ticks w) + timeout) exchange_default
      (([], io), snd (now E w)) = Some (Inr (), (ls, io'), w')" by auto
  from exchange_loop_trace [OF ls start] ls show ?thesis
    by (auto simp: run_exchange_def now_def)
qed

end
