(* ===== verification/Timed_Loop.thy ===== *)
theory Timed_Loop
  imports Transport
begin

text \<open>
  What a deadline means for a waiting loop, stated over the readings of the clock that it
  takes: every round starts with one reading that is before the deadline, and the loop ends
  late exactly when its last reading is not. The three loops of the program share this
  contract, the locale \<open>timed_loop\<close>, which is interpreted on each of them.
\<close>

definition on_time :: "'p lib \<Rightarrow> nat \<Rightarrow> nat \<Rightarrow> nat \<Rightarrow> bool" where
  "on_time E deadline t t' \<longleftrightarrow> t < t' \<and> (\<forall>k. t \<le> k \<longrightarrow> k + 1 < t' \<longrightarrow> clock E k < deadline)"

lemma on_time_now [simp]: "on_time E d t (Suc t)"
  by (simp add: on_time_def)

lemma on_time_step: "clock E t < d \<Longrightarrow> on_time E d (t + 1) t' \<Longrightarrow> on_time E d t t'"
  unfolding on_time_def by (metis Suc_eq_plus1 Suc_lessD le_antisym not_less_eq_eq)

subsection \<open>The contract\<close>

text \<open>
  A round, entered after a reading before the deadline, ends the loop with an outcome or
  hands on a state, and takes no further reading; past the deadline the loop ends late.
\<close>

locale timed_loop =
  fixes E :: "'p lib" and deadline :: nat
    and loop :: "'s \<Rightarrow> 'o option" and step :: "'s \<Rightarrow> ('o + 's) option" and late :: "'s \<Rightarrow> 'o"
    and now_of :: "'s \<Rightarrow> nat" and end_of :: "'o \<Rightarrow> nat" and I :: "'s \<Rightarrow> bool" and J :: "'o \<Rightarrow> bool"
  assumes unfold: "loop s = (if clock E (now_of s) < deadline
      then Option.bind (step s) (case_sum Some loop) else Some (late s))"
    and step_keeps: "I s \<Longrightarrow> \<exists>z. step s = Some z \<and> (case z of
      Inl out \<Rightarrow> J out \<and> end_of out = now_of s + 1 | Inr s' \<Rightarrow> I s' \<and> now_of s' = now_of s + 1)"
    and late_keeps: "I s \<Longrightarrow> J (late s) \<and> end_of (late s) = now_of s + 1"
begin

lemma ends_by:
  assumes "\<forall>m\<ge>n. \<not> clock E m < deadline"
  shows "I s \<Longrightarrow> \<exists>out. loop s = Some out \<and> J out \<and> on_time E deadline (now_of s) (end_of out) \<and>
    (deadline \<le> clock E (end_of out - 1) \<longrightarrow> (\<exists>s'. out = late s'))"
proof (induction "n - now_of s" arbitrary: s rule: less_induct)
  case less
  show ?case
  proof (cases "clock E (now_of s) < deadline")
    case False
    then show ?thesis using late_keeps [OF less.prems] by (auto simp: unfold [of s])
  next
    case True
    obtain z where z: "step s = Some z" "case z of Inl out \<Rightarrow> J out \<and> end_of out = now_of s + 1
        | Inr s' \<Rightarrow> I s' \<and> now_of s' = now_of s + 1"
      using step_keeps [OF less.prems] by blast
    show ?thesis
    proof (cases z)
      case (Inl out)
      then show ?thesis using z True by (auto simp: unfold [of s])
    next
      case (Inr s')
      have "n - now_of s' < n - now_of s"
        using assms [rule_format, of "now_of s"] True z(2) Inr by (cases "now_of s < n") auto
      from less.hyps [OF this] z Inr True on_time_step [OF True] show ?thesis
        by (auto simp: unfold [of s])
    qed
  qed
qed

lemma ends:
  assumes "clock_advances E" and "I s"
  shows "\<exists>out. loop s = Some out \<and> J out \<and> on_time E deadline (now_of s) (end_of out) \<and>
    (deadline \<le> clock E (end_of out - 1) \<longrightarrow> (\<exists>s'. out = late s'))"
  using clock_deadline [OF assms(1), of deadline] ends_by assms(2) by blast

end

subsection \<open>Rounds of an event loop\<close>

text \<open>What a round of either program means for its loop; each starts with one reading.\<close>

definition next_round :: "(bool result \<times> 'x \<times> 's) option \<Rightarrow> ((unit result \<times> 's) + ('x \<times> 's)) option" where
  "next_round m = map_option (\<lambda>(r, x, s). case r of Inl e \<Rightarrow> Inl (Inl e, s)
     | Inr fin \<Rightarrow> if fin then Inl (Inr (), s) else Inr (x, s)) m"

definition reading :: "'p lib \<Rightarrow> 'io \<times> 'p world \<Rightarrow> 'io \<times> 'p world" where
  "reading E s = (fst s, snd (now E (snd s)))"

lemma ticks_reading [simp]: "ticks (snd (reading E s)) = Suc (ticks (snd s))"
  by (simp add: reading_def now_def)

lemma next_round_keeps:
  assumes "runs m (\<lambda>(r, x', s'). I s' \<and> ticks (snd s') = n)"
  shows "\<exists>z. next_round m = Some z \<and> (case z of
      Inl out \<Rightarrow> I (snd out) \<and> ticks (snd (snd out)) = n | Inr y \<Rightarrow> I (snd y) \<and> ticks (snd (snd y)) = n)"
proof -
  from assms obtain r x' s' where "m = Some (r, x', s')" "I s'" "ticks (snd s') = n"
    by (auto simp: runs_Ex)
  then show ?thesis by (cases r) (auto simp: next_round_def)
qed

end
