(* ===== verification/Client_Spec.thy ===== *)
theory Client_Spec
  imports Client_Trace Timed_Loop
begin

text \<open>
  The client's event loop over any implementation of the \<open>ClientIo\<close> trait, as a locale, its
  interpretation on \<open>Connection\<close>, and the client program: it always returns, never
  touches freed memory, and gives everything back.
\<close>

subsection \<open>The trait\<close>

locale client_io =
  fixes E :: "'p lib" and deadline :: nat
    and io_poll :: "('io \<times> 'p world, event list) rust"
    and io_send :: "bytes \<Rightarrow> ('io \<times> 'p world, bool) rust"
    and I :: "'io \<times> 'p world \<Rightarrow> bool"
  assumes poll_keeps: "I s \<Longrightarrow> runs (io_poll s) (\<lambda>(r, s'). I s' \<and> ticks (snd s') = ticks (snd s))"
    and send_keeps: "I s \<Longrightarrow> runs (io_send m s) (\<lambda>(r, s'). I s' \<and> ticks (snd s') = ticks (snd s))"
    and quiet_keeps: "I (io, w) \<Longrightarrow> quiet w w' \<Longrightarrow> I (io, w')"
begin

lemma events_quiet: "\<exists>r x' w'. Client.handle_events es (x, w) = (r, (x', w')) \<and> quiet w w' \<and> ticks w' = ticks w"
proof (induction es arbitrary: x w)
  case Nil
  then show ?case by simp
next
  case (Cons e es)
  let ?w = "println (''event: '' @ show_event e) w"
  obtain r y where on: "Client.on_event e x = (r, y)" by (cases "Client.on_event e x")
  have t: "ticks ?w = ticks w" by (simp add: println_def)
  show ?case
  proof (cases r)
    case (Inl m)
    then show ?thesis using on t by (auto simp: Let_def)
  next
    case (Inr u)
    obtain r' x' w' where "Client.handle_events es (y, ?w) = (r', (x', w'))" "quiet ?w w'" "ticks w' = ticks ?w"
      using Cons.IH by blast
    then show ?thesis using on Inr t quiet_trans [OF quietI(4)] by (auto simp: Let_def)
  qed
qed

lemma round_keeps:
  assumes "I s"
  shows "runs (Client.round io_poll io_send x s) (\<lambda>(r, x', s'). I s' \<and> ticks (snd s') = ticks (snd s))"
proof -
  obtain r1 io1 w1 where poll: "io_poll s = Some (r1, io1, w1)" and i1: "I (io1, w1)"
    and t1: "ticks w1 = ticks (snd s)"
    using poll_keeps [OF assms] by (auto simp: runs_Ex)
  show ?thesis
  proof (cases r1)
    case (Inl e)
    then show ?thesis using poll i1 t1 by (simp add: Client.round_def)
  next
    case (Inr es)
    obtain r2 x1 w2 where he: "Client.handle_events es (x, w1) = (r2, (x1, w2))"
      and q: "quiet w1 w2" and t2: "ticks w2 = ticks w1"
      using events_quiet by blast
    have i2: "I (io1, w2)" using quiet_keeps [OF i1 q] .
    show ?thesis
      using poll Inr he i2 t1 t2
      by (auto simp: Client.round_def Client.after_events_def split: sum.splits option.splits
          intro!: runs_conseq [OF send_keeps [OF i2]])
  qed
qed

lemma reading_keeps: "I s \<Longrightarrow> I (reading E s)"
  using quiet_keeps [of "fst s" "snd s"] by (simp add: reading_def)

end

definition client_timeout :: "Client.exchange \<Rightarrow> string" where
  "client_timeout x = ''client exchange timeout: '' @ show_exchange x"

text \<open>The event loop over a transport that meets the contract is a loop with a deadline.\<close>

sublocale client_io \<subseteq> looping: timed_loop E deadline
  "\<lambda>y. exchange_loop E io_poll io_send deadline (fst y) (snd y)"
  "\<lambda>y. next_round (Client.round io_poll io_send (fst y) (reading E (snd y)))"
  "\<lambda>y. (Inl (client_timeout (fst y)), reading E (snd y))"
  "\<lambda>y. ticks (snd (snd y))" "\<lambda>y. ticks (snd (snd y))" "\<lambda>y. I (snd y)" "\<lambda>y. I (snd y)"
proof
  show "exchange_loop E io_poll io_send deadline (fst y) (snd y) = (if clock E (ticks (snd (snd y))) < deadline
      then Option.bind (next_round (Client.round io_poll io_send (fst y) (reading E (snd y))))
        (case_sum Some (\<lambda>y. exchange_loop E io_poll io_send deadline (fst y) (snd y)))
      else Some (Inl (client_timeout (fst y)), reading E (snd y)))" for y
    by (subst exchange_loop.simps) (auto simp: next_round_def reading_def now_def client_timeout_def
        map_option_case split: sum.splits option.splits)
  show "\<exists>z. next_round (Client.round io_poll io_send (fst y) (reading E (snd y))) = Some z \<and> (case z of
      Inl out \<Rightarrow> I (snd out) \<and> ticks (snd (snd out)) = ticks (snd (snd y)) + 1
    | Inr y' \<Rightarrow> I (snd y') \<and> ticks (snd (snd y')) = ticks (snd (snd y)) + 1)"
    if "I (snd y)" for y
    using next_round_keeps [OF round_keeps [OF reading_keeps [OF that], of "fst y"]]
    unfolding ticks_reading Suc_eq_plus1 .
qed (simp add: reading_keeps)

definition conn_io :: "'p lib \<Rightarrow> 'p world \<Rightarrow> connection \<times> 'p world \<Rightarrow> bool" where
  "conn_io E w0 = (\<lambda>(c, w). errno_ok E \<and> infos_ok E \<and> conn_ok E w0 w c)"

lemma conn_quiet: "conn_ok E w0 w c \<Longrightarrow> quiet w w' \<Longrightarrow> conn_ok E w0 w' c"
  by (auto simp: quiet_def)

interpretation conn_io: client_io E deadline "poll E" "send E" "conn_io E w0"
  for E deadline w0
proof
  show "runs (poll E s) (\<lambda>(r, s'). conn_io E w0 s' \<and> ticks (snd s') = ticks (snd s))" if "conn_io E w0 s" for s
    using that poll_spec by (cases s) (fastforce simp: conn_io_def elim!: runs_conseq)
  show "runs (send E m s) (\<lambda>(r, s'). conn_io E w0 s' \<and> ticks (snd s') = ticks (snd s))" if "conn_io E w0 s" for s m
    using that send_spec by (cases s) (fastforce simp: conn_io_def elim!: runs_conseq)
  show "conn_io E w0 (c, w')" if "conn_io E w0 (c, w)" "quiet w w'" for c w w'
    using that by (auto simp: conn_io_def intro: conn_quiet)
qed

lemma run_exchange_on_time:
  assumes "conn_ok E w0 w c" and "errno_ok E" and "infos_ok E" and "clock_advances E"
  shows "\<exists>r c' w'. run_exchange E (poll E) (send E) timeout (c, w) = Some (r, (c', w')) \<and> conn_ok E w0 w' c' \<and>
    on_time E (clock E (ticks w) + timeout) (ticks w + 1) (ticks w') \<and>
    (clock E (ticks w) + timeout \<le> clock E (ticks w' - 1) \<longrightarrow> (\<exists>x. r = Inl (client_timeout x)))"
proof -
  have "conn_io E w0 (reading E (c, w))" by (rule conn_io.reading_keeps) (simp add: assms conn_io_def)
  from conn_io.looping.ends [OF assms(4), of w0 "(exchange_default, reading E (c, w))"
      "clock E (ticks w) + timeout"] this
  show ?thesis by (auto simp: run_exchange_def reading_def now_def conn_io_def)
qed

subsection \<open>The program\<close>

text \<open>What the program relies on: documented library behaviour and fresh buffers.\<close>

definition start_ok :: "'p lib \<Rightarrow> addr \<Rightarrow> addr \<Rightarrow> 'p world \<Rightarrow> bool" where
  "start_ok E tb rb w \<longleftrightarrow> errno_ok E \<and> infos_ok E \<and> clock_advances E \<and> inv w \<and>
     tb \<noteq> 0 \<and> rb \<noteq> 0 \<and> tb \<noteq> rb \<and> mem w tb = None \<and> mem w rb = None"

lemma use_connection:
  assumes "open_conn E w0 f c w" and "errno_ok E" "infos_ok E" "clock_advances E"
  shows "runs (do {
     (r, (conn, w)) \<leftarrow> run_exchange E (poll E) (send E) timeout (c, w);
     (cleanup, (conn, w)) \<leftarrow> conn_close E (conn, w);
     w \<leftarrow> conn_drop E conn w;
     Some (finish r cleanup, w) }) (\<lambda>(r, w'). left E w0 w')"
proof -
  have ok: "conn_ok E w0 w c" using assms by (simp add: open_conn_def)
  from run_exchange_on_time [OF this assms(2-4), of timeout] obtain r1 c1 w1 where
    run: "run_exchange E (poll E) (send E) timeout (c, w) = Some (r1, c1, w1)" and ok1: "conn_ok E w0 w1 c1"
    by blast
  obtain r2 c2 w2 where cl: "conn_close E (c1, w1) = Some (r2, c2, w2)" and ok2: "conn_ok E w0 w2 c2"
    using conn_close_spec [OF ok1 assms(2)] by (auto simp: runs_Ex attempt_def closing_from_def)
  show ?thesis
    using run cl conn_drop_left [OF ok2 assms(2)] by (auto elim!: runs_conseq)
qed

lemma quiet_start: "quiet w w' \<Longrightarrow> start_ok E tb rb w \<Longrightarrow> start_ok E tb rb w'"
  by (simp add: start_ok_def quiet_same)

lemma left_println: "left E w0 w \<Longrightarrow> left E w0 (println s w)"
  using left_trans [of E w0 w, OF _ quiet_left [OF quietI(4)]] by (simp add: left_def scope_def)

lemma queried_world:
  assumes "queried w (Inr info) w1" and "inv w"
  obtains v raw where "quiet w v" "infos v (info_raw info) = None" "info_raw info \<noteq> 0"
    "w1 = take_info (add_info (info_raw info) raw v)" "inv w1" "infos w1 (info_raw info) \<noteq> None"
    "mem w1 = mem w"
proof -
  obtain raw p where nz: "info_raw info \<noteq> 0" and fr: "\<not> allocated w (info_raw info)" and wf: "info_wf raw"
    and w1: "w1 = take_info (add_info (info_raw info) raw (w\<lparr>prov := p\<rparr>))"
    using assms(1) by (auto simp: queried_def)
  have "infos w (info_raw info) = None" using fr by (simp add: allocated_def)
  moreover have "inv w1" using assms(2) nz wf by (simp add: w1 inv_add_info)
  ultimately show thesis using that [of "w\<lparr>prov := p\<rparr>" raw] nz w1
    by (simp add: take_info_def add_info_def)
qed

lemma queried_failed:
  assumes "queried w (Inl e) w1" and "inv w"
  shows "left E w w1"
proof -
  obtain p ms where "w1 = w\<lparr>prov := p, ticks := ticks w, console := console w @ ms\<rparr>"
    using assms(1) by (auto simp: queried_def)
  then have "quiet w w1" unfolding quiet_def by blast
  then show ?thesis using assms(2) by (rule quiet_left)
qed

text \<open>
  The scope of the query and of the fabric, around any body: the body starts in a world with
  the fabric open and must leave that scope.
\<close>

definition fabric_scope :: "'p lib \<Rightarrow> (fabric_owner \<Rightarrow> 'p world \<Rightarrow> (unit result \<times> 'p world) option)
    \<Rightarrow> info_owner \<Rightarrow> 'p world \<Rightarrow> (unit result \<times> 'p world) option" where
  "fabric_scope E body info w = do {
      (fabric, w) \<leftarrow> fabric_open E info w;
      (case fabric of
         Inl e \<Rightarrow> do { w \<leftarrow> info_drop info w; Some (Inl e, w) }
       | Inr fabric \<Rightarrow> do {
           (r, w) \<leftarrow> body fabric w;
           (cleanup, (fabric, w)) \<leftarrow> fabric_close E (fabric, w);
           w \<leftarrow> fabric_drop E fabric w;
           w \<leftarrow> info_drop info w;
           Some (finish r cleanup, w) }) }"

text \<open>What was opened last is given back first: the fabric, then the query result.\<close>

lemma drop_query:
  assumes "left E w1 u" and "inv w" and "quiet w v" and "infos v (info_raw info) = None"
    and "w1 = take_info (add_info (info_raw info) raw v)"
  shows "runs (info_drop info u) (left E w)"
proof -
  have "info_drop info u = info_drop \<lparr>info_raw = info_raw info\<rparr> u" by (simp add: info_drop_def)
  moreover have "left E w v" using quiet_left [OF assms(3,2)] .
  ultimately show ?thesis
    using leave_info [of E "info_raw info" raw v u] assms(1,4)
    by (auto simp: assms(5) intro: left_trans elim!: runs_conseq)
qed

lemma close_new_fabric:
  assumes "inv w" and "\<not> allocated w (fabric_raw fb)" and "errno_ok E"
    and "left E (add_fabric (fabric_raw fb) \<lparr>f_raw = fr, f_children = 0\<rparr> (w\<lparr>prov := p\<rparr>)) w3"
  obtains cl fb' w4 w5 where "fabric_close E (fb, w3) = Some (cl, fb', w4)"
    "fabric_drop E fb' w4 = Some w5" "left E w w5"
proof -
  have fn: "fabrics (w\<lparr>prov := p\<rparr>) (fabric_raw fb) = None" using fresh_maps [OF assms(2)] by simp
  have "runs (Option.bind (fabric_close E (\<lparr>fabric_raw = fabric_raw fb\<rparr>, w3))
      (\<lambda>(cl, (fb, w)). Option.bind (fabric_drop E fb w) (\<lambda>w. Some (cl, w))))
      (\<lambda>(cl, w'). left E (w\<lparr>prov := p\<rparr>) w')"
    by (rule leave_fabric [OF assms(4) _ fn assms(3)]) simp
  moreover have "\<lparr>fabric_raw = fabric_raw fb\<rparr> = fb" by simp
  ultimately obtain cl fb' w4 w5 where "fabric_close E (fb, w3) = Some (cl, fb', w4)"
    "fabric_drop E fb' w4 = Some w5" and l5: "left E (w\<lparr>prov := p\<rparr>) w5"
    by (auto simp: runs_Ex bind_eq_Some_conv)
  with left_trans [OF quiet_left [OF quietI(2) assms(1)] l5] show thesis using that by blast
qed

lemma with_fabric:
  assumes "start_ok E tb rb w" and "queried w (Inr info) w1"
    and body: "\<And>fb w2. start_ok E tb rb w2 \<Longrightarrow> fabrics w2 (fabric_raw fb) \<noteq> None \<Longrightarrow>
      infos w2 (info_raw info) \<noteq> None \<Longrightarrow> runs (body fb w2) (\<lambda>(r, w'). left E w2 w')"
  shows "runs (fabric_scope E body info w1) (\<lambda>(r, w'). left E w w')"
proof -
  have ok: "errno_ok E" "inv w" using assms(1) by (simp_all add: start_ok_def)
  obtain v raw where v: "quiet w v" "infos v (info_raw info) = None" "info_raw info \<noteq> 0"
    and w1: "w1 = take_info (add_info (info_raw info) raw v)" "inv w1" "infos w1 (info_raw info) \<noteq> None"
    "mem w1 = mem w"
    by (rule queried_world [OF assms(2) ok(2)])
  note out = drop_query [OF _ ok(2) v(1,2) w1(1)]
  obtain r w2 where fo: "fabric_open E info w1 = Some (r, w2)"
    and post: "case r of Inl _ \<Rightarrow> same_heap w1 w2
      | Inr f \<Rightarrow> fabric_raw f \<noteq> 0 \<and> \<not> allocated w1 (fabric_raw f) \<and>
        (\<exists>fr p. w2 = add_fabric (fabric_raw f) \<lparr>f_raw = fr, f_children = 0\<rparr> (w1\<lparr>prov := p\<rparr>))"
    using fabric_open_spec [OF w1(2,3) ok(1)] by (auto simp: runs_Ex)
  show ?thesis
  proof (cases r)
    case (Inl e)
    then have "left E w1 w2" using post quiet_left [OF quiet_same_heap w1(2)] by simp
    from out [OF this] show ?thesis using fo Inl by (auto simp: fabric_scope_def elim!: runs_conseq)
  next
    case (Inr fb)
    let ?f = "fabric_raw fb"
    obtain fr p where nz: "?f \<noteq> 0" and fresh: "\<not> allocated w1 ?f"
      and w2: "w2 = add_fabric ?f \<lparr>f_raw = fr, f_children = 0\<rparr> (w1\<lparr>prov := p\<rparr>)"
      using post Inr by auto
    have i2: "inv w2" using inv_add_fabric [OF w1(2) nz fresh] by (simp add: w2 ledger_prov)
    have st: "start_ok E tb rb w2" using assms(1) i2 w1(4) by (simp add: start_ok_def w2 add_fabric_def)
    have live: "fabrics w2 ?f \<noteq> None" "infos w2 (info_raw info) \<noteq> None"
      using w1(3) by (simp_all add: w2 add_fabric_def)
    obtain r3 w3 where bd: "body fb w2 = Some (r3, w3)" and l3: "left E w2 w3"
      using body [OF st live] by (auto simp: runs_Ex)
    obtain cl fb' w4 w5 where fc: "fabric_close E (fb, w3) = Some (cl, fb', w4)"
      and fd: "fabric_drop E fb' w4 = Some w5" and l5: "left E w1 w5"
      by (rule close_new_fabric [OF w1(2) fresh ok(1) l3 [unfolded w2]])
    from out [OF l5] show ?thesis
      using fo Inr bd fc fd by (auto simp: fabric_scope_def elim!: runs_conseq)
  qed
qed

lemma client_run_spec:
  assumes "start_ok E tb rb w"
  shows "runs (client_run E tb rb ip port domain timeout w) (\<lambda>(r, w'). left E w w')"
proof -
  have ok: "errno_ok E" "infos_ok E" "inv w" using assms by (simp_all add: start_ok_def)
  obtain r w1 where q: "info_query E ip port domain False w = Some (r, w1)" and post: "queried w r w1"
    using info_query_spec [OF ok(1,2), of ip port domain False w] by (auto simp: runs_Ex)
  show ?thesis
  proof (cases r)
    case (Inl e)
    then show ?thesis using q post queried_failed [of w e w1 E] ok(3)
      by (simp add: client_run_def info_remote_def)
  next
    case (Inr info)
    let ?body = "\<lambda>fb w. do {
      (conn, w) \<leftarrow> connect E tb rb fb info timeout w;
      (case conn of
         Inl e \<Rightarrow> Some (Inl e, w)
       | Inr conn \<Rightarrow> do {
           (r, (conn, w)) \<leftarrow> run_exchange E (poll E) (send E) timeout (conn, w);
           (cleanup, (conn, w)) \<leftarrow> conn_close E (conn, w);
           w \<leftarrow> conn_drop E conn w;
           Some (finish r cleanup, w) }) }"
    have "runs (?body fb w2) (\<lambda>(r, w'). left E w2 w')"
      if st: "start_ok E tb rb w2" and live: "fabrics w2 (fabric_raw fb) \<noteq> None" "infos w2 (info_raw info) \<noteq> None"
      for fb w2
    proof -
      have s: "inv w2" "tb \<noteq> 0" "rb \<noteq> 0" "tb \<noteq> rb" "mem w2 tb = None" "mem w2 rb = None"
        "clock_advances E" using st by (simp_all add: start_ok_def)
      obtain r3 w3 where con: "connect E tb rb fb info timeout w2 = Some (r3, w3)"
        and c3: "connected_as E w2 (fabric_raw fb) r3 w3"
        using connect_spec [OF s(1) live s(2-6) ok(1,2) s(7), of timeout] by (auto simp: runs_Ex)
      show ?thesis
      proof (cases r3)
        case (Inl e)
        then show ?thesis using con c3 connected_left by auto
      next
        case (Inr c)
        then have "open_conn E w2 (fabric_raw fb) c w3" using c3 by (simp add: connected_as_def)
        from use_connection [OF this ok(1,2) s(7), of timeout] show ?thesis using con Inr by simp
      qed
    qed
    then have "runs (fabric_scope E ?body info w1) (\<lambda>(r, w'). left E w w')"
      by (intro with_fabric [where body = ?body, OF assms post [unfolded Inr]])
    moreover have "client_run E tb rb ip port domain timeout w = fabric_scope E ?body info w1"
      by (simp add: client_run_def info_remote_def fabric_scope_def q Inr case_prod_unfold Option.bind_assoc cong: sum.case_cong)
    ultimately show ?thesis by simp
  qed
qed

lemma client_main_spec:
  assumes "start_ok E tb rb w"
  shows "runs (client_main E tb rb args w) (\<lambda>(r, w'). left E w w')"
proof (cases "parse_timeout ''usage: clients <server-rxe-ip> [port=7471] [local-domain] [timeout-seconds=30]'' args")
  case (Inl e)
  then show ?thesis using quiet_left [OF quietI(1), of w E] assms by (simp add: client_main_def start_ok_def)
next
  case (Inr n)
  let ?w = "println (version_line E) w"
  note st = quiet_start [OF quietI(4) assms]
  obtain r w' where run: "client_run E tb rb (args ! 0) (case arg args 1 of None \<Rightarrow> ''7471'' | Some p \<Rightarrow> p)
      (arg args 2) (from_secs n) ?w = Some (r, w')" and l: "left E ?w w'"
    using client_run_spec [OF st] unfolding runs_Ex by blast
  have "left E w w'" using left_trans [OF quiet_left [OF quietI(4)] l] assms by (simp add: start_ok_def)
  then show ?thesis
    using run Inr left_println by (cases r) (simp_all add: client_main_def Let_def)
qed

end
