(* ===== verification/Listener_Spec.thy ===== *)
theory Listener_Spec
  imports Transport_Spec Timed_Loop
begin

text \<open>
  Listeners and connection requests: what a bound listener owns, that closing it gives
  everything back, that waiting for a request ends by its deadline, and that a request
  hands out exactly one information record.
\<close>

subsection \<open>Closing a listener\<close>

text \<open>A listener relative to the world it was bound in.\<close>

definition listener_ok :: "'p world \<Rightarrow> listener \<Rightarrow> 'p world \<Rightarrow> bool" where
  "listener_ok w0 l w \<longleftrightarrow> scope w0 w \<and>
     (ls_raw l \<noteq> 0 \<longrightarrow> listeners w (ls_raw l) \<noteq> None \<and> listeners w0 (ls_raw l) = None) \<and>
     (ls_eq l \<noteq> 0 \<longrightarrow> eqs w (ls_eq l) \<noteq> None \<and> eqs w0 (ls_eq l) = None)"

lemma listener_ok_scope:
  assumes "listener_ok w0 l w" and "scope w w'"
  shows "listener_ok w0 l w'"
  using assms(1) scope_trans [OF _ assms(2)] scope_live(1,2) [OF assms(2)]
  unfolding listener_ok_def by blast

lemma close_raw_spec:
  assumes "listener_ok w0 l w" and "errno_ok E"
  shows "runs (close_handle E ''shim_listener_close'' (shim_listener_close E) ls_raw (ls_raw_update (\<lambda>_. 0)) (l, w))
    (\<lambda>(r, (l', w')). listener_ok w0 l' w' \<and> ls_eq l' = ls_eq l \<and> ls_fabric l' = ls_fabric l \<and>
      (if is_ok r then ls_raw l' = 0 else l' = l))"
proof (rule runs_close_handle)
  assume z: "ls_raw l \<noteq> 0"
  have i: "inv w" using assms(1) by (simp add: listener_ok_def scope_def)
  obtain y where y: "listeners w (ls_raw l) = Some y" using z assms(1) by (auto simp: listener_ok_def)
  obtain r w' where cs: "close_step E False (l_raw y) (del_listener (ls_raw l) y) w = (r, w')"
    by (metis prod.exhaust)
  from cs have "listener_ok w0 (if r = 0 then l\<lparr>ls_raw := 0\<rparr> else l) w'"
  proof (cases rule: close_step_cases)
    case (refused p)
    then show ?thesis using assms(1) by (simp add: listener_ok_def scope_def)
  next
    case (closed p)
    have "listeners w0 \<subseteq>\<^sub>m (listeners w)(ls_raw l := None)"
      using assms(1) z unfolding listener_ok_def scope_def map_le_def by (metis domIff fun_upd_other)
    then show ?thesis using closed assms(1) inv_del_listener [of "w\<lparr>prov := p\<rparr>"] i y
      by (auto simp: listener_ok_def scope_def del_listener_def)
  qed simp
  then show "runs (shim_listener_close E (ls_raw l) w) (\<lambda>(code, w').
      if code = 0 then (\<lambda>(r, (l', w')). listener_ok w0 l' w' \<and> ls_eq l' = ls_eq l \<and> ls_fabric l' = ls_fabric l \<and>
        (if is_ok r then ls_raw l' = 0 else l' = l)) (Inr (), l\<lparr>ls_raw := 0\<rparr>, w')
      else \<forall>e. (\<lambda>(r, (l', w')). listener_ok w0 l' w' \<and> ls_eq l' = ls_eq l \<and> ls_fabric l' = ls_fabric l \<and>
        (if is_ok r then ls_raw l' = 0 else l' = l)) (Inl e :: unit result, l, w'))"
    by (simp add: shim_listener_close_eq [OF i y] cs split: if_splits)
qed (use assms in simp)

lemma close_eq_spec:
  assumes "listener_ok w0 l w" and "errno_ok E" and "ls_raw l = 0"
  shows "runs (close_handle E ''shim_eq_close'' (shim_eq_close E) ls_eq (ls_eq_update (\<lambda>_. 0)) (l, w))
    (\<lambda>(r, (l', w')). listener_ok w0 l' w' \<and> ls_raw l' = 0 \<and> ls_fabric l' = ls_fabric l \<and>
      (if is_ok r then ls_eq l' = 0 else l' = l))"
proof (rule runs_close_handle)
  assume z: "ls_eq l \<noteq> 0"
  have i: "inv w" using assms(1) by (simp add: listener_ok_def scope_def)
  obtain e where e: "eqs w (ls_eq l) = Some e" using z assms(1) by (auto simp: listener_ok_def)
  obtain r w' where cs: "close_step E (e_users e \<noteq> 0) (e_raw e) (del_eq (ls_eq l) e) w = (r, w')"
    by (metis prod.exhaust)
  from cs have "listener_ok w0 (if r = 0 then l\<lparr>ls_eq := 0\<rparr> else l) w'"
  proof (cases rule: close_step_cases)
    case busy
    then show ?thesis using assms(1,2) by simp
  next
    case (refused p)
    then show ?thesis using assms(1) by (simp add: listener_ok_def scope_def)
  next
    case (closed p)
    have "dom (eqs w0) \<subseteq> dom ((eqs w)(ls_eq l := None))"
      using assms(1) z by (auto simp: listener_ok_def scope_def)
    then show ?thesis using closed assms(1,3) inv_del_eq [of "w\<lparr>prov := p\<rparr>"] i e
      by (auto simp: listener_ok_def scope_def del_eq_def)
  qed
  then show "runs (shim_eq_close E (ls_eq l) w) (\<lambda>(code, w').
      if code = 0 then (\<lambda>(r, (l', w')). listener_ok w0 l' w' \<and> ls_raw l' = 0 \<and> ls_fabric l' = ls_fabric l \<and>
        (if is_ok r then ls_eq l' = 0 else l' = l)) (Inr (), l\<lparr>ls_eq := 0\<rparr>, w')
      else \<forall>x. (\<lambda>(r, (l', w')). listener_ok w0 l' w' \<and> ls_raw l' = 0 \<and> ls_fabric l' = ls_fabric l \<and>
        (if is_ok r then ls_eq l' = 0 else l' = l)) (Inl x :: unit result, l, w'))"
    using assms(3) by (simp add: shim_eq_close_eq [OF i e] cs split: if_splits)
qed (use assms in simp)

lemma listener_close_spec:
  assumes "listener_ok w0 l w" and "errno_ok E"
  shows "runs (listener_close E (l, w)) (\<lambda>(r, (l', w')). listener_ok w0 l' w' \<and>
    (is_ok r \<longrightarrow> ls_raw l' = 0 \<and> ls_eq l' = 0))"
  unfolding listener_close_def
proof (rule runs_qmarkI, rule close_raw_spec [OF assms])
  fix u s'
  assume "case (Inr u :: unit result, s') of (r, (l', w')) \<Rightarrow> listener_ok w0 l' w' \<and> ls_eq l' = ls_eq l \<and>
    ls_fabric l' = ls_fabric l \<and> (if is_ok r then ls_raw l' = 0 else l' = l)"
  then obtain l' w' where s': "s' = (l', w')" and ok: "listener_ok w0 l' w'" "ls_raw l' = 0"
    by (cases s') auto
  show "runs (close_handle E ''shim_eq_close'' (shim_eq_close E) ls_eq (ls_eq_update (\<lambda>_. 0)) s')
     (\<lambda>(r, (l', w')). listener_ok w0 l' w' \<and> (is_ok r \<longrightarrow> ls_raw l' = 0 \<and> ls_eq l' = 0))"
    unfolding s' by (rule runs_conseq [OF close_eq_spec [OF ok(1) assms(2) ok(2)]]) auto
qed auto

lemma listener_drop_spec:
  assumes "listener_ok w0 l w" and "errno_ok E"
  shows "runs (listener_drop E l w) (scope w0)"
proof (rule runs_cases [OF listener_close_spec [OF assms]])
  fix x assume x: "listener_close E (l, w) = Some x" and post: "case x of (r, (l', w')) \<Rightarrow>
    listener_ok w0 l' w' \<and> (is_ok r \<longrightarrow> ls_raw l' = 0 \<and> ls_eq l' = 0)"
  obtain r l' w' where x': "x = (r, l', w')" by (cases x)
  with post have "scope w0 w'" by (simp add: listener_ok_def)
  then show ?thesis using x x'
    by (cases r) (simp_all add: listener_drop_def scope_quiet)
qed

subsection \<open>What binding adds, and closing takes back\<close>

abbreviation new_eq :: "addr \<Rightarrow> addr \<Rightarrow> shim_eq" where
  "new_eq f r \<equiv> \<lparr>e_raw = r, e_fabric = f, e_users = 0\<rparr>"

abbreviation new_listener :: "addr \<Rightarrow> addr \<Rightarrow> addr \<Rightarrow> bool \<Rightarrow> shim_listener" where
  "new_listener f e r rd \<equiv> \<lparr>l_raw = r, l_fabric = f, l_eq = e, l_ready = rd\<rparr>"

text \<open>\<open>bound w0 l w\<close>: exactly the listener's event queue and passive endpoint were added.\<close>

definition bound :: "'p world \<Rightarrow> listener \<Rightarrow> 'p world \<Rightarrow> bool" where
  "bound w0 l w \<longleftrightarrow> (\<exists>er lr rd. inv w0 \<and> fabrics w0 (ls_fabric l) \<noteq> None \<and>
     (if ls_eq l = 0 then ls_raw l = 0 \<and> quiet w0 w
      else \<not> allocated w0 (ls_eq l) \<and>
        (let v = add_eq (ls_eq l) (new_eq (ls_fabric l) er) w0
         in if ls_raw l = 0 then quiet v w
            else \<not> allocated v (ls_raw l) \<and>
              quiet (add_listener (ls_raw l) (new_listener (ls_fabric l) (ls_eq l) lr rd) v) w)))"

lemma close_raw_restored:
  assumes "closes_ok E" and "inv w" and "restored E (add_listener a y v) w"
    and "a \<noteq> 0" "\<not> allocated v a"
  obtains w' where "shim_listener_close E a w = Some (0, w')" "inv w'" "restored E v w'"
proof -
  have n: "listeners v a = None" using fresh_maps [OF assms(5)] by simp
  have y: "listeners w a = Some y" using assms(3) by (simp add: restored_def add_listener_def)
  obtain r p where fi: "fi_close E (l_raw y) (prov w) = (r, p)" by (metis prod.exhaust)
  have r: "r = 0" using closes_okD [OF assms(1) fi] .
  let ?w = "del_listener a y (w\<lparr>prov := p\<rparr>)"
  have "shim_listener_close E a w = Some (0, ?w)"
    by (simp add: shim_listener_close_eq [OF assms(2) y] close_step_def call_def fi r)
  moreover have "inv ?w" using assms(2) y by (intro inv_del_listener) simp_all
  moreover have "restored E v ?w"
    using assms(3) n
    by (simp add: restored_def add_listener_def del_listener_def bump_undo fun_upd_idem)
  ultimately show thesis by (rule that)
qed

lemma close_eq_restored:
  assumes "closes_ok E" and "inv w" and "restored E (add_eq a (new_eq f r) v) w"
    and "a \<noteq> 0" "\<not> allocated v a"
  obtains w' where "shim_eq_close E a w = Some (0, w')" "inv w'" "restored E v w'"
proof -
  have n: "eqs v a = None" using fresh_maps [OF assms(5)] by simp
  have e: "eqs w a = Some (new_eq f r)" using assms(3) by (simp add: restored_def add_eq_def)
  obtain c p where fi: "fi_close E r (prov w) = (c, p)" by (metis prod.exhaust)
  have c: "c = 0" using closes_okD [OF assms(1) fi] .
  let ?w = "del_eq a (new_eq f r) (w\<lparr>prov := p\<rparr>)"
  have "shim_eq_close E a w = Some (0, ?w)"
    by (simp add: shim_eq_close_eq [OF assms(2) e] close_step_def call_def fi c)
  moreover have "inv ?w" using assms(2) e by (intro inv_del_eq) simp_all
  moreover have "restored E v ?w"
    using assms(3) n
    by (simp add: restored_def add_eq_def del_eq_def bump_undo fun_upd_idem)
  ultimately show thesis by (rule that)
qed

lemma listener_close_restored:
  assumes "closes_ok E" and "inv w" and "bound w0 l wb" and "restored E wb w"
  shows "runs (listener_close E (l, w)) (\<lambda>(r, (l', w')). r = Inr () \<and> ls_raw l' = 0 \<and>
    ls_eq l' = 0 \<and> inv w' \<and> restored E w0 w')"
proof (cases "ls_eq l = 0")
  case True
  then have "ls_raw l = 0" "restored E w0 w"
    using assms(3,4) by (auto simp: bound_def intro: restored_trans quiet_restored)
  with True assms(2) show ?thesis
    by (simp add: listener_close_def qmark_def close_handle_def)
next
  case False
  then obtain er lr rd where fe: "\<not> allocated w0 (ls_eq l)"
    and rest: "let v = add_eq (ls_eq l) (new_eq (ls_fabric l) er) w0
         in if ls_raw l = 0 then quiet v wb
            else \<not> allocated v (ls_raw l) \<and>
              quiet (add_listener (ls_raw l) (new_listener (ls_fabric l) (ls_eq l) lr rd) v) wb"
    using assms(3) unfolding bound_def by (simp only: if_False simp_thms) blast
  let ?v = "add_eq (ls_eq l) (new_eq (ls_fabric l) er) w0"
  show ?thesis
  proof (cases "ls_raw l = 0")
    case raw0: True
    then have "restored E ?v w" using rest assms(4) by (auto simp: Let_def intro: restored_trans quiet_restored)
    then obtain w' where "shim_eq_close E (ls_eq l) w = Some (0, w')" "inv w'" "restored E w0 w'"
      by (rule close_eq_restored [OF assms(1,2) _ False fe])
    then show ?thesis using False raw0
      by (simp add: listener_close_def qmark_def close_handle_def check_def)
  next
    case raw: False
    from rest raw have fl: "\<not> allocated ?v (ls_raw l)"
      and q: "quiet (add_listener (ls_raw l) (new_listener (ls_fabric l) (ls_eq l) lr rd) ?v) wb"
      by (simp_all add: Let_def)
    have "restored E (add_listener (ls_raw l) (new_listener (ls_fabric l) (ls_eq l) lr rd) ?v) w"
      using quiet_restored [OF q] assms(4) by (rule restored_trans)
    then obtain w1 where 1: "shim_listener_close E (ls_raw l) w = Some (0, w1)" "inv w1" "restored E ?v w1"
      by (rule close_raw_restored [OF assms(1,2) _ raw fl])
    obtain w2 where "shim_eq_close E (ls_eq l) w1 = Some (0, w2)" "inv w2" "restored E w0 w2"
      by (rule close_eq_restored [OF assms(1) 1(2,3) False fe])
    then show ?thesis using False raw 1
      by (simp add: listener_close_def qmark_def close_handle_def check_def)
  qed
qed

text \<open>What \<open>bind\<close> opened lies above the world it started in: first the queue, then the endpoint.\<close>

lemma scope_new_eq:
  assumes "inv w" and "a \<noteq> 0" and "\<not> allocated w a" and "fabrics w f \<noteq> None"
  shows "scope w (add_eq a (new_eq f er) w)"
proof -
  have "inv (add_eq a (new_eq f er) w)" using assms by (intro inv_add_eq) simp_all
  then show ?thesis using fresh_maps [OF assms(3)] by (auto simp: scope_def add_eq_def)
qed

lemma scope_new_listener:
  assumes "inv w" and "a \<noteq> 0" and "\<not> allocated w a" and "fabrics w f \<noteq> None" and "eqs w e \<noteq> None"
  shows "scope w (add_listener a (new_listener f e lr rd) w)"
proof -
  have "inv (add_listener a (new_listener f e lr rd) w)"
    using inv_add_listener [OF assms(1-3), of "new_listener f e lr rd"] assms(4,5) by simp
  moreover have "listeners w a = None" using fresh_maps [OF assms(3)] by simp
  ultimately show ?thesis by (auto simp: scope_def add_listener_def map_le_def)
qed

lemma bound_listener_ok:
  assumes "bound w0 l w"
  shows "listener_ok w0 l w"
proof -
  obtain er lr rd where i: "inv w0" and f: "fabrics w0 (ls_fabric l) \<noteq> None"
    and b: "if ls_eq l = 0 then ls_raw l = 0 \<and> quiet w0 w
      else \<not> allocated w0 (ls_eq l) \<and>
        (let v = add_eq (ls_eq l) (new_eq (ls_fabric l) er) w0
         in if ls_raw l = 0 then quiet v w
            else \<not> allocated v (ls_raw l) \<and>
              quiet (add_listener (ls_raw l) (new_listener (ls_fabric l) (ls_eq l) lr rd) v) w)"
    using assms unfolding bound_def by blast
  show ?thesis
  proof (cases "ls_eq l = 0")
    case True
    then show ?thesis using b i scope_quiet [OF scope_refl [OF i]] by (auto simp: listener_ok_def)
  next
    case False
    let ?v = "add_eq (ls_eq l) (new_eq (ls_fabric l) er) w0"
    have fe: "\<not> allocated w0 (ls_eq l)" using b False by simp
    have sv: "scope w0 ?v" by (rule scope_new_eq [OF i False fe f])
    have ev: "eqs ?v (ls_eq l) \<noteq> None" "eqs w0 (ls_eq l) = None"
      using fresh_maps [OF fe] by (simp_all add: add_eq_def)
    show ?thesis
    proof (cases "ls_raw l = 0")
      case True
      then have q: "quiet ?v w" using b False by (simp add: Let_def)
      then show ?thesis using scope_quiet [OF sv q] True ev by (simp add: listener_ok_def quiet_same)
    next
      case raw: False
      let ?y = "new_listener (ls_fabric l) (ls_eq l) lr rd"
      have fl: "\<not> allocated ?v (ls_raw l)" and q: "quiet (add_listener (ls_raw l) ?y ?v) w"
        using b False raw by (simp_all add: Let_def)
      have fv: "fabrics ?v (ls_fabric l) \<noteq> None" using f by (simp add: add_eq_def)
      have "inv ?v" using sv by (simp add: scope_def)
      then have sl: "scope ?v (add_listener (ls_raw l) ?y ?v)"
        by (rule scope_new_listener [OF _ raw fl fv ev(1)])
      have "listeners w0 (ls_raw l) = None" using fresh_maps [OF fl] by (simp add: add_eq_def)
      moreover have "listeners w (ls_raw l) \<noteq> None"
        unfolding quiet_same(6) [OF q] by (simp add: add_listener_def)
      moreover have "eqs w (ls_eq l) \<noteq> None"
        unfolding quiet_same(4) [OF q] using ev(1) by (simp add: add_listener_def del: not_None_eq)
      ultimately show ?thesis
        using scope_quiet [OF scope_trans [OF sv sl] q] ev(2) by (simp add: listener_ok_def)
    qed
  qed
qed

lemma bound_drop:
  assumes "bound w0 l w" and "errno_ok E"
  shows "runs (listener_drop E l w) (left E w0)"
proof -
  note ok = bound_listener_ok [OF assms(1)]
  have i: "inv w" using ok by (simp add: listener_ok_def scope_def)
  obtain w' where d: "listener_drop E l w = Some w'" and s: "scope w0 w'"
    using listener_drop_spec [OF ok assms(2)] by (auto simp: runs_Ex)
  have "restored E w0 w'" if "closes_ok E"
    using listener_close_restored [OF that i assms(1) restored_refl] d
    by (auto simp: runs_Ex listener_drop_def)
  with d s show ?thesis by (simp add: left_def)
qed

subsection \<open>Binding\<close>

lemma bound_opened:
  assumes "inv w" and "fabrics w f \<noteq> None" and "eq \<noteq> 0" and "\<not> allocated w eq"
    and "w1 = (add_eq eq (new_eq f er) w)\<lparr>prov := p\<rparr>" and "listener_opened f eq w1 ((code, raw), w2)"
  shows "bound w \<lparr>ls_fabric = f, ls_eq = eq, ls_raw = raw\<rparr> w2"
proof (cases "raw = 0")
  let ?v = "add_eq eq (new_eq f er) w"
  case True
  with assms(6) obtain q where "w2 = w1\<lparr>prov := q\<rparr>" by (auto simp: listener_opened_def same_heap_def)
  then have "quiet ?v w2" using quietI(2) [of ?v q] by (simp add: assms(5))
  with True show ?thesis using assms(1-4)
    by (simp add: bound_def Let_def) blast
next
  let ?v = "add_eq eq (new_eq f er) w"
  case False
  with assms(6) obtain lr q where fl: "\<not> allocated w1 raw" and
    w2: "w2 = add_listener raw (new_listener f eq lr (code = 0)) (w1\<lparr>prov := q\<rparr>)"
    by (auto simp: listener_opened_def)
  have "w2 = (add_listener raw (new_listener f eq lr (code = 0)) ?v)\<lparr>prov := q\<rparr>"
    by (simp add: w2 assms(5) ledger_prov)
  then have "quiet (add_listener raw (new_listener f eq lr (code = 0)) ?v) w2" by simp
  moreover have "\<not> allocated ?v raw" using fl by (simp add: assms(5) allocated_def)
  ultimately show ?thesis using False assms(1-4)
    by (simp add: bound_def Let_def) blast
qed

lemma listener_bind_spec:
  assumes "inv w" and "fabrics w (fabric_raw fb) \<noteq> None" and "infos w (info_raw info) \<noteq> None"
    and "errno_ok E"
  shows "runs (listener_bind E fb info w) (\<lambda>(r, w'). case r of Inl _ \<Rightarrow> left E w w'
    | Inr l \<Rightarrow> bound w l w' \<and> ls_fabric l = fabric_raw fb \<and> ls_eq l \<noteq> 0 \<and> ls_raw l \<noteq> 0)"
proof -
  let ?f = "fabric_raw fb"
  obtain y where y: "fabrics w ?f = Some y" using assms(2) by auto
  obtain code eq w1 where eo: "shim_eq_open E ?f True w = Some ((code, eq), w1)"
    and post: "opened (\<lambda>a r. add_eq a (new_eq ?f r)) w ((code, eq), w1)"
    using shim_eq_open_eq [OF assms(1) y] open_step_opened [OF assms(4)] by (metis prod.exhaust)
  from post show ?thesis
  proof (cases rule: opened_cases)
    case (failed p)
    then have "left E w w1" using quiet_left [of w w1] assms(1) by simp
    with failed eo show ?thesis
      by (simp add: listener_bind_def check_def listener_drop_def listener_close_def qmark_def close_handle_def)
  next
    case (made er p)
    have w1: "w1 = (add_eq eq (new_eq ?f er) w)\<lparr>prov := p\<rparr>" using made(4) by (simp add: ledger_prov)
    have i1: "inv w1" using assms(1,2) made(2,3) by (simp add: w1 inv_add_eq)
    have f1: "fabrics w1 ?f = Some (fabric_inc y)"
      using y by (simp add: w1 add_eq_def bump_apply)
    have inf: "infos w1 (info_raw info) \<noteq> None" using assms(3) by (simp add: w1 add_eq_def)
    have e1: "eqs w1 eq = Some (new_eq ?f er)" by (simp add: w1 add_eq_def)
    obtain code2 raw w2 where lo: "shim_listener_open E ?f (info_raw info) eq True w1 = Some ((code2, raw), w2)"
      and post2: "listener_opened ?f eq w1 ((code2, raw), w2)"
      using shim_listener_open_spec [OF i1 assms(4) f1 inf e1] by (auto simp: runs_Ex)
    note b = bound_opened [OF assms(1,2) made(2,3) w1 post2]
    have nz: "code2 = 0 \<Longrightarrow> raw \<noteq> 0" using post2 by (auto simp: listener_opened_def)
    show ?thesis
      using eo lo made nz b bound_drop [OF b assms(4)]
      by (cases "code2 = 0") (auto simp: listener_bind_def check_def elim!: runs_conseq)
  qed
qed

subsection \<open>Waiting for a request\<close>

text \<open>A request owns one fresh, complete information record; nothing else has changed.\<close>

definition requested :: "listener \<Rightarrow> 'p world \<Rightarrow> request \<Rightarrow> 'p world \<Rightarrow> bool" where
  "requested l w q w' \<longleftrightarrow> rq_listener q = l \<and> \<not> rq_handled q \<and> info_raw (rq_info q) \<noteq> 0 \<and>
     (\<exists>v raw. quiet w v \<and> \<not> allocated v (info_raw (rq_info q)) \<and> info_wf raw \<and>
        w' = add_info (info_raw (rq_info q)) raw (take_info v))"

lemma requested_quiet: "quiet u w \<Longrightarrow> requested l w q w' \<Longrightarrow> requested l u q w'"
  unfolding requested_def by (blast intro: quiet_trans)

lemma listener_poll_spec:
  assumes "inv w" and "eqs w (ls_eq l) \<noteq> None" and "errno_ok E" and "infos_ok E"
  shows "runs (listener_poll E l w) (\<lambda>(r, w'). ticks w' = ticks w \<and>
    (case r of Inr (Some q) \<Rightarrow> requested l w q w' | _ \<Rightarrow> quiet w w'))"
proof -
  obtain z where z: "eqs w (ls_eq l) = Some z" using assms(2) by auto
  obtain r ev w' where poll: "shim_eq_poll E (ls_eq l) True w = Some ((r, ev), w')"
    and post: "eq_polled w ((r, ev), w')"
    using shim_eq_poll_spec [OF assms(1,3,4) z] by (auto simp: runs_Ex)
  from post show ?thesis unfolding eq_polled_def prod.case
  proof (elim disjE conjE exE)
    assume n: "ev_info ev = 0" "ev_type ev \<noteq> SHIM_EVENT_CONNREQ" and same: "same_heap w w'"
    have "quiet w w'" using same by (rule quiet_same_heap)
    moreover have "ticks w' = ticks w" using same by (auto simp: same_heap_def)
    ultimately show ?thesis using poll n
      by (cases "r = 0"; cases "r < 0"; cases "ev_err ev = 0")
        (auto simp: listener_poll_def poll_eq_def check_def)
  next
    fix raw p
    assume ev: "r = 1" "ev_type ev = SHIM_EVENT_CONNREQ" "ev_err ev = 0" "ev_info ev \<noteq> 0"
      and fresh: "\<not> allocated w (ev_info ev)" and wf: "info_wf raw"
      and w': "w' = add_info (ev_info ev) raw (take_info (w\<lparr>prov := p\<rparr>))"
    have "\<not> allocated (w\<lparr>prov := p\<rparr>) (ev_info ev)" using fresh by (simp add: allocated_def)
    then have "requested l w \<lparr>rq_listener = l, rq_info = \<lparr>info_raw = ev_info ev\<rparr>, rq_handled = False\<rparr> w'"
      unfolding requested_def w' using ev(4) wf by (auto intro: quietI(2))
    moreover have "ticks w' = ticks w" by (simp add: w')
    ultimately show ?thesis using poll ev
      by (auto simp: listener_poll_def poll_eq_def)
  qed
qed

definition waited :: "listener \<Rightarrow> 'p world \<Rightarrow> request result \<times> 'p world \<Rightarrow> bool" where
  "waited l w0 = (\<lambda>(r, w). case r of Inr q \<Rightarrow> requested l w0 q w | Inl _ \<Rightarrow> quiet w0 w)"

definition waiting :: "'p lib \<Rightarrow> listener \<Rightarrow> 'p world \<Rightarrow> 'p world \<Rightarrow> bool" where
  "waiting E l w0 w \<longleftrightarrow> errno_ok E \<and> infos_ok E \<and> inv w0 \<and> eqs w0 (ls_eq l) \<noteq> None \<and> quiet w0 w"

lemma waiting_now: "waiting E l w0 w \<Longrightarrow> waiting E l w0 (snd (now E w))"
  unfolding waiting_def by (blast intro: quiet_trans quietI(3))

lemma poll_waits:
  assumes "waiting E l w0 w"
  shows "\<exists>r w'. listener_poll E l w = Some (r, w') \<and> ticks w' = ticks w \<and> (case r of
      Inl e \<Rightarrow> quiet w0 w' | Inr None \<Rightarrow> waiting E l w0 w' | Inr (Some q) \<Rightarrow> requested l w0 q w')"
proof -
  have q: "quiet w0 w" and ok: "errno_ok E" "infos_ok E" "inv w0" "eqs w0 (ls_eq l) \<noteq> None"
    using assms by (simp_all add: waiting_def)
  have "inv w" "eqs w (ls_eq l) \<noteq> None" using ok quiet_same [OF q] by simp_all
  from listener_poll_spec [OF this ok(1,2)] obtain r w' where p: "listener_poll E l w = Some (r, w')"
    "ticks w' = ticks w" "case r of Inr (Some q) \<Rightarrow> requested l w q w' | _ \<Rightarrow> quiet w w'"
    by (auto simp: runs_Ex)
  then show ?thesis
    using ok requested_quiet [OF q] quiet_trans [OF q]
    by (auto simp: waiting_def split: sum.splits option.splits)
qed

definition wait_step :: "'p lib \<Rightarrow> listener \<Rightarrow> 'p world \<Rightarrow> ((request result \<times> 'p world) + 'p world) option" where
  "wait_step E l w = map_option (\<lambda>(r, w). case r of Inl e \<Rightarrow> Inl (Inl e, w) | Inr None \<Rightarrow> Inr w
     | Inr (Some q) \<Rightarrow> Inl (Inr q, w)) (listener_poll E l (snd (now E w)))"

definition wait_late :: "'p lib \<Rightarrow> 'p world \<Rightarrow> request result \<times> 'p world" where
  "wait_late E w = (Inl ''timeout waiting for a connection request'', snd (now E w))"

interpretation request_loop: timed_loop E deadline "wait_loop E l deadline" "wait_step E l" "wait_late E"
  ticks "\<lambda>y. ticks (snd y)" "waiting E l w0" "waited l w0"
  for E deadline l w0
proof
  fix w :: "'a world"
  show "wait_loop E l deadline w = (if clock E (ticks w) < deadline
      then Option.bind (wait_step E l w) (case_sum Some (wait_loop E l deadline)) else Some (wait_late E w))"
    by (subst wait_loop.simps) (auto simp: wait_step_def wait_late_def now_def map_option_case
        split: sum.splits option.splits)
  assume i: "waiting E l w0 w"
  obtain r w' where "listener_poll E l (snd (now E w)) = Some (r, w')" "ticks w' = Suc (ticks w)"
    "case r of Inl e \<Rightarrow> quiet w0 w' | Inr None \<Rightarrow> waiting E l w0 w' | Inr (Some q) \<Rightarrow> requested l w0 q w'"
    using poll_waits [OF waiting_now [OF i]] by (auto simp: now_def)
  then show "\<exists>z. wait_step E l w = Some z \<and> (case z of
      Inl out \<Rightarrow> waited l w0 out \<and> ticks (snd out) = ticks w + 1
    | Inr w' \<Rightarrow> waiting E l w0 w' \<and> ticks w' = ticks w + 1)"
    by (auto simp: wait_step_def waited_def split: sum.splits option.splits)
  show "waited l w0 (wait_late E w) \<and> ticks (snd (wait_late E w)) = ticks w + 1"
    using waiting_now [OF i, unfolded waiting_def] by (simp add: wait_late_def waited_def now_def)
qed

lemma wait_request_on_time:
  assumes "inv w" and "eqs w (ls_eq l) \<noteq> None" and "errno_ok E" "infos_ok E" "clock_advances E"
  shows "\<exists>r w'. wait_request E l timeout w = Some (r, w') \<and> waited l w (r, w') \<and>
    on_time E (clock E (ticks w) + timeout) (ticks w + 1) (ticks w') \<and>
    (clock E (ticks w) + timeout \<le> clock E (ticks w' - 1) \<longrightarrow>
      r = Inl ''timeout waiting for a connection request'')"
proof -
  have "waiting E l w (snd (now E w))" using waiting_now [of E l w w] assms by (simp add: waiting_def)
  from request_loop.ends [OF assms(5) this, of "clock E (ticks w) + timeout"]
  show ?thesis by (auto simp: wait_request_def wait_late_def now_def)
qed

lemma wait_request_spec:
  assumes "inv w" and "eqs w (ls_eq l) \<noteq> None" and "errno_ok E" "infos_ok E" "clock_advances E"
  shows "runs (wait_request E l timeout w) (\<lambda>(r, w'). case r of
      Inr q \<Rightarrow> requested l w q w' | Inl _ \<Rightarrow> quiet w w')"
  using wait_request_on_time [OF assms, of timeout] by (auto simp: runs_Ex waited_def)

end
