(* ===== verification/Server_Spec.thy ===== *)
theory Server_Spec
  imports Client_Spec Listener_Spec
begin

text \<open>
  The server's event loop over an accepted connection, the closure that serves one request,
  and the server program: it always returns, never touches freed memory, and gives everything
  back, whichever of its steps fails.
\<close>

subsection \<open>The event loop\<close>

lemma server_events_quiet:
  "\<exists>r x' w'. Server.handle_events es (x, w) = (r, (x', w')) \<and> quiet w w' \<and> ticks w' = ticks w"
proof (induction es arbitrary: x w)
  case Nil
  then show ?case by simp
next
  case (Cons e es)
  let ?w = "println (''event: '' @ show_event e) w"
  obtain r y where on: "Server.on_event e x = (r, y)" by (cases "Server.on_event e x")
  have t: "ticks ?w = ticks w" by (simp add: println_def)
  show ?case
  proof (cases r)
    case (Inl m)
    then show ?thesis using on t by (auto simp: Let_def)
  next
    case (Inr u)
    obtain r' x' w' where "Server.handle_events es (y, ?w) = (r', (x', w'))" "quiet ?w w'" "ticks w' = ticks ?w"
      using Cons.IH by blast
    then show ?thesis using on Inr t quiet_trans [OF quietI(4)] by (auto simp: Let_def)
  qed
qed

lemma try_reply_keeps:
  assumes "conn_ok E w0 w c" and "errno_ok E"
  shows "runs (try_reply E x (c, w)) (\<lambda>(r, x', (c', w')). conn_ok E w0 w' c' \<and> ticks w' = ticks w)"
proof -
  obtain r1 c1 w1 where arm: "(if receive_pending c then Some (Inr True, c, w) else post_recv E (c, w)) =
      Some (r1, c1, w1)" and ok1: "conn_ok E w0 w1 c1" and t1: "ticks w1 = ticks w"
    using post_recv_spec [OF assms] assms(1) by (cases "receive_pending c") (auto simp: runs_Ex)
  obtain r2 c2 w2 where snd: "send E ''world'' (c1, w1) = Some (r2, c2, w2)" and ok2: "conn_ok E w0 w2 c2"
    and t2: "ticks w2 = ticks w1"
    using send_spec [OF ok1 assms(2), of "''world''"] by (auto simp: runs_Ex)
  show ?thesis
    using arm snd ok1 ok2 t1 t2
    by (cases r1; cases r2) (auto simp: try_reply_def)
qed

lemma server_round_keeps:
  assumes "conn_ok E w0 w c" and "errno_ok E" and "infos_ok E"
  shows "runs (Server.round E x (c, w)) (\<lambda>(r, x', (c', w')). conn_ok E w0 w' c' \<and> ticks w' = ticks w)"
proof -
  obtain r1 c1 w1 where poll: "poll E (c, w) = Some (r1, c1, w1)" and ok1: "conn_ok E w0 w1 c1"
    and t1: "ticks w1 = ticks w"
    using poll_spec [OF assms] by (auto simp: runs_Ex)
  show ?thesis
  proof (cases r1)
    case (Inl e)
    then show ?thesis using poll ok1 t1 by (simp add: Server.round_def)
  next
    case (Inr es)
    obtain r2 x2 w2 where he: "Server.handle_events es (x, w1) = (r2, (x2, w2))"
      and q: "quiet w1 w2" and t2: "ticks w2 = ticks w1"
      using server_events_quiet by blast
    have ok2: "conn_ok E w0 w2 c1" using conn_quiet [OF ok1 q] .
    obtain r3 x3 c3 w3 where "try_reply E x2 (c1, w2) = Some (r3, x3, c3, w3)" "conn_ok E w0 w3 c3"
      "ticks w3 = ticks w2"
      using try_reply_keeps [OF ok2 assms(2), of x2] by (auto simp: runs_Ex)
    then show ?thesis
      using poll Inr he ok2 t1 t2
      by (auto simp: Server.round_def Server.after_events_def split: sum.splits)
  qed
qed

lemma server_round_io:
  assumes "conn_io E w0 s"
  shows "runs (Server.round E x s) (\<lambda>(r, x', s'). conn_io E w0 s' \<and> ticks (snd s') = ticks (snd s))"
  using server_round_keeps [of E w0 "snd s" "fst s" x] assms
  by (cases s) (auto simp: conn_io_def elim!: runs_conseq)

definition server_timeout :: "Server.exchange \<Rightarrow> string" where
  "server_timeout x = ''exchange timeout in '' @ show_phase (phase x) @ ''; peer_closed=''
     @ show_bool (Server.peer_closed x)"

interpretation server_loop: timed_loop E deadline "\<lambda>y. serve_loop E deadline (fst y) (snd y)"
  "\<lambda>y. next_round (Server.round E (fst y) (reading E (snd y)))"
  "\<lambda>y. (Inl (server_timeout (fst y)), reading E (snd y))"
  "\<lambda>y. ticks (snd (snd y))" "\<lambda>y. ticks (snd (snd y))"
  "\<lambda>y. conn_io E w0 (snd y)" "\<lambda>y. conn_io E w0 (snd y)"
  for E deadline w0
proof
  show "serve_loop E deadline (fst y) (snd y) = (if clock E (ticks (snd (snd y))) < deadline
      then Option.bind (next_round (Server.round E (fst y) (reading E (snd y))))
        (case_sum Some (\<lambda>y. serve_loop E deadline (fst y) (snd y)))
      else Some (Inl (server_timeout (fst y)), reading E (snd y)))"
    for y :: "Server.exchange \<times> connection \<times> 'a world"
    by (subst serve_loop.simps) (auto simp: next_round_def reading_def now_def server_timeout_def
        map_option_case split: sum.splits option.splits)
  show "\<exists>z. next_round (Server.round E (fst y) (reading E (snd y))) = Some z \<and> (case z of
      Inl out \<Rightarrow> conn_io E w0 (snd out) \<and> ticks (snd (snd out)) = ticks (snd (snd y)) + 1
    | Inr y' \<Rightarrow> conn_io E w0 (snd y') \<and> ticks (snd (snd y')) = ticks (snd (snd y)) + 1)"
    if "conn_io E w0 (snd y)" for y
    using next_round_keeps [OF server_round_io [OF conn_io.reading_keeps [OF that], of "fst y"]]
    unfolding ticks_reading Suc_eq_plus1 .
qed (simp add: conn_io.reading_keeps)

lemma serve_on_time:
  assumes "conn_ok E w0 w c" and "errno_ok E" and "infos_ok E" and "clock_advances E"
  shows "\<exists>r c' w'. serve E timeout (c, w) = Some (r, (c', w')) \<and> conn_ok E w0 w' c' \<and>
    on_time E (clock E (ticks w) + timeout) (ticks w + 1) (ticks w') \<and>
    (clock E (ticks w) + timeout \<le> clock E (ticks w' - 1) \<longrightarrow> (\<exists>x. r = Inl (server_timeout x)))"
proof -
  have "conn_io E w0 (reading E (c, w))" by (rule conn_io.reading_keeps) (simp add: assms conn_io_def)
  from server_loop.ends [OF assms(4), of w0 "(exchange_new, reading E (c, w))"
      "clock E (ticks w) + timeout"] this
  show ?thesis by (auto simp: serve_def reading_def now_def conn_io_def)
qed

subsection \<open>One request\<close>

lemma serve_connection:
  assumes "open_conn E w0 f c w" and "errno_ok E" "infos_ok E" "clock_advances E"
  shows "runs (do {
     (r, (conn, w)) \<leftarrow> serve E timeout (c, w);
     (cleanup, (conn, w)) \<leftarrow> conn_close E (conn, w);
     w \<leftarrow> conn_drop E conn w;
     Some (finish r cleanup, w) }) (\<lambda>(r, w'). left E w0 w')"
proof -
  have ok: "conn_ok E w0 w c" using assms(1) by (simp add: open_conn_def)
  obtain r1 c1 w1 where run: "serve E timeout (c, w) = Some (r1, c1, w1)" and ok1: "conn_ok E w0 w1 c1"
    using serve_on_time [OF ok assms(2-4), of timeout] by blast
  obtain r2 c2 w2 where cl: "conn_close E (c1, w1) = Some (r2, c2, w2)" and ok2: "conn_ok E w0 w2 c2"
    using conn_close_spec [OF ok1 assms(2)] by (auto simp: runs_Ex attempt_def closing_from_def)
  show ?thesis
    using run cl conn_drop_left [OF ok2 assms(2)] by (auto elim!: runs_conseq)
qed

lemma free_info_undo:
  assumes "infos v i = None"
  shows "free_info i (add_info i raw (take_info v)) = v"
  using assms by (simp add: free_info_def del_info_def fi_freeinfo_def add_info_def take_info_def fun_upd_idem)

lemma connected_free_info:
  assumes "connected_as E w1 f r w"
  shows "connected_as E (free_info i w1) f r (free_info i w)"
  using assms conn_free_info [of E w1 w _ i] restored_free_info [of E w1 w i]
  by (cases r) (auto simp: connected_as_def open_conn_def)

lemma connected_scope:
  assumes "connected_as E w0 f r w"
  shows "scope w0 w"
  using assms conn_scope by (auto simp: connected_as_def open_conn_def split: sum.splits)

text \<open>The request accepted: its query result goes as soon as the connection stands or has failed.\<close>

lemma take_request:
  assumes "requested l w q w1" and "start_ok E tb rb w"
    and "fabrics w (ls_fabric l) \<noteq> None" and "listeners w (ls_raw l) \<noteq> None"
  obtains conn q' v w2 w3 where "from_request E tb rb timeout (q, w1) = Some (conn, q', w2)"
    "request_drop E q' w2 = Some w3" "connected_as E v (ls_fabric l) conn w3" "quiet w v"
proof -
  let ?i = "info_raw (rq_info q)"
  have ok: "errno_ok E" "infos_ok E" "clock_advances E" using assms(2) by (simp_all add: start_ok_def)
  obtain v raw where q: "rq_listener q = l" "\<not> rq_handled q" and nz: "?i \<noteq> 0"
    and v: "quiet w v" and fresh: "\<not> allocated v ?i" and wf: "info_wf raw"
    and w1: "w1 = add_info ?i raw (take_info v)"
    using assms(1) by (auto simp: requested_def)
  note sv = quiet_same [OF v]
  have none: "infos v ?i = None" using fresh_maps [OF fresh] by simp
  have st: "start_ok E tb rb v" using quiet_start [OF v assms(2)] .
  have i1: "inv w1" using nz st wf by (simp add: w1 start_ok_def inv_add_info)
  have live: "infos w1 ?i \<noteq> None" "fabrics w1 (ls_fabric l) \<noteq> None" "listeners w1 (ls_raw l) \<noteq> None"
    "mem w1 tb = None" "mem w1 rb = None"
    using assms(3,4) st sv by (simp_all add: w1 add_info_def take_info_def start_ok_def)
  have bufs: "tb \<noteq> 0" "rb \<noteq> 0" "tb \<noteq> rb" using assms(2) by (simp_all add: start_ok_def)
  obtain conn w2 u where fr: "from_request E tb rb timeout (q, w1) = Some (conn, q\<lparr>rq_handled := True\<rparr>, w2)"
    and u: "rehandled ?i w1 u" and con: "connected_as E u (ls_fabric l) conn w2"
    using from_request_spec [of w1 q ?i tb rb E timeout] q i1 live bufs ok
    by (auto simp: runs_Ex)
  have undo: "free_info ?i u = v" using free_rehandled [OF u] free_info_undo [OF none] by (simp add: w1)
  have "infos w2 ?i \<noteq> None"
    using scope_live(4) [OF connected_scope [OF con]] rehandled_same(4) [OF u live(1)] by blast
  then have "request_drop E (q\<lparr>rq_handled := True\<rparr>) w2 = Some (free_info ?i w2)"
    using con by (simp add: request_drop_handled connected_as_def)
  moreover have "connected_as E v (ls_fabric l) conn (free_info ?i w2)"
    using connected_free_info [OF con, of ?i] by (simp add: undo)
  ultimately show thesis using that fr v by blast
qed

lemma serve_request_spec:
  assumes "start_ok E tb rb w" and "fabrics w (ls_fabric l) \<noteq> None" and "eqs w (ls_eq l) \<noteq> None"
    and "listeners w (ls_raw l) \<noteq> None"
  shows "runs (serve_request E tb rb l timeout w) (\<lambda>(r, w'). left E w w')"
proof -
  have ok: "errno_ok E" "infos_ok E" "clock_advances E" "inv w" using assms(1) by (simp_all add: start_ok_def)
  obtain r w1 where wait: "wait_request E l timeout w = Some (r, w1)"
    and post: "case r of Inr q \<Rightarrow> requested l w q w1 | Inl _ \<Rightarrow> quiet w w1"
    using wait_request_spec [OF ok(4) assms(3) ok(1-3), of timeout] by (auto simp: runs_Ex)
  show ?thesis
  proof (cases r)
    case (Inl e)
    then show ?thesis using wait post quiet_left ok(4) by (simp add: serve_request_def)
  next
    case (Inr q)
    with post have "requested l w q w1" by simp
    then obtain conn q' v w2 w3 where fr: "from_request E tb rb timeout (q, w1) = Some (conn, q', w2)"
      and drop: "request_drop E q' w2 = Some w3" and con: "connected_as E v (ls_fabric l) conn w3"
      and v: "quiet w v"
      by (rule take_request [OF _ assms(1,2,4)])
    have lv: "left E w x" if "left E v x" for x
      using left_trans [OF quiet_left [OF v ok(4)] that] .
    show ?thesis
    proof (cases conn)
      case (Inl e)
      then show ?thesis using wait Inr fr drop lv [OF connected_left] con by (simp add: serve_request_def)
    next
      case c: (Inr c)
      then have "open_conn E v (ls_fabric l) c w3" using con by (simp add: connected_as_def)
      from serve_connection [OF this ok(1-3), of timeout] show ?thesis
        using wait Inr fr drop c by (auto simp: serve_request_def intro: lv elim!: runs_conseq)
    qed
  qed
qed

subsection \<open>The program\<close>

text \<open>The scope of the listener, around whatever kept within it.\<close>

lemma leave_listener:
  assumes "bound w0 l wb" and "left E wb w" and "errno_ok E"
  shows "runs (Option.bind (listener_close E (l, w))
      (\<lambda>(cl, (l, w)). Option.bind (listener_drop E l w) (\<lambda>w. Some (cl, w)))) (\<lambda>(cl, w'). left E w0 w')"
proof -
  have sc: "scope wb w" using assms(2) by (simp add: left_def)
  have i: "inv w" using sc by (simp add: scope_def)
  have ok: "listener_ok w0 l w" using listener_ok_scope [OF bound_listener_ok [OF assms(1)] sc] .
  obtain cl l1 w1 where close: "listener_close E (l, w) = Some (cl, l1, w1)" and ok1: "listener_ok w0 l1 w1"
    using listener_close_spec [OF ok assms(3)] by (auto simp: runs_Ex)
  obtain w2 where drop: "listener_drop E l1 w1 = Some w2" and s2: "scope w0 w2"
    using listener_drop_spec [OF ok1 assms(3)] by (auto simp: runs_Ex)
  have "restored E w0 w2" if c: "closes_ok E"
  proof -
    have "restored E wb w" using assms(2) c by (simp add: left_def)
    from listener_close_restored [OF c i assms(1) this] close
    have "ls_raw l1 = 0" "ls_eq l1 = 0" "restored E w0 w1" by (simp_all add: runs_Ex)
    then show ?thesis using drop
      by (simp add: listener_drop_def listener_close_def qmark_def close_handle_def)
  qed
  then show ?thesis using close drop s2 by (simp add: left_def)
qed

lemma server_body:
  assumes "start_ok E tb rb w" and "fabrics w (fabric_raw fb) \<noteq> None" and "infos w (info_raw info) \<noteq> None"
  shows "runs (do {
      (l, w) \<leftarrow> listener_bind E fb info w;
      (case l of
         Inl e \<Rightarrow> Some (Inl e, w)
       | Inr l \<Rightarrow> do {
           (r, w) \<leftarrow> serve_request E tb rb l timeout (println msg w);
           (cleanup, (l, w)) \<leftarrow> listener_close E (l, w);
           w \<leftarrow> listener_drop E l w;
           Some (finish r cleanup, w) }) }) (\<lambda>(r, w'). left E w w')"
proof -
  have ok: "errno_ok E" "inv w" using assms(1) by (simp_all add: start_ok_def)
  obtain r w1 where bind: "listener_bind E fb info w = Some (r, w1)"
    and post: "case r of Inl _ \<Rightarrow> left E w w1
      | Inr l \<Rightarrow> bound w l w1 \<and> ls_fabric l = fabric_raw fb \<and> ls_eq l \<noteq> 0 \<and> ls_raw l \<noteq> 0"
    using listener_bind_spec [OF ok(2) assms(2,3) ok(1)] by (auto simp: runs_Ex)
  show ?thesis
  proof (cases r)
    case (Inl e)
    then show ?thesis using bind post by simp
  next
    case (Inr l)
    let ?w = "println msg w1"
    have b: "bound w l w1" and l: "ls_fabric l = fabric_raw fb" "ls_eq l \<noteq> 0" "ls_raw l \<noteq> 0"
      using post Inr by simp_all
    have lo: "listener_ok w l w1" by (rule bound_listener_ok [OF b])
    then have sc: "scope w w1" and live: "eqs w1 (ls_eq l) \<noteq> None" "listeners w1 (ls_raw l) \<noteq> None"
      using l by (simp_all add: listener_ok_def)
    have "mem w1 = mem w" using b l by (auto simp: bound_def Let_def quiet_def add_eq_def add_listener_def)
    then have st: "start_ok E tb rb ?w"
      using assms(1) sc by (intro quiet_start [OF quietI(4)]) (simp add: start_ok_def scope_def)
    have "fabrics w1 (ls_fabric l) \<noteq> None" using scope_live(3) [OF sc] assms(2) l by simp
    then obtain r2 w2 where run: "serve_request E tb rb l timeout ?w = Some (r2, w2)" and l2: "left E ?w w2"
      using serve_request_spec [OF st, of l timeout] live by (auto simp: runs_Ex println_def)
    have "inv w1" using sc by (simp add: scope_def)
    from leave_listener [OF b left_trans [OF quiet_left [OF quietI(4) this] l2] ok(1)]
    show ?thesis using bind Inr run by (auto simp: runs_Ex bind_eq_Some_conv)
  qed
qed

lemma server_run_spec:
  assumes "start_ok E tb rb w"
  shows "runs (server_run E tb rb ip port domain timeout w) (\<lambda>(r, w'). left E w w')"
proof -
  have ok: "errno_ok E" "infos_ok E" "inv w" using assms by (simp_all add: start_ok_def)
  obtain r w1 where q: "info_query E ip port domain True w = Some (r, w1)" and post: "queried w r w1"
    using info_query_spec [OF ok(1,2), of ip port domain True w] by (auto simp: runs_Ex)
  show ?thesis
  proof (cases r)
    case (Inl e)
    then show ?thesis using q post queried_failed [of w e w1 E] ok(3)
      by (simp add: server_run_def info_local_def)
  next
    case (Inr info)
    let ?msg = "''listening on '' @ ip @ '':'' @ port @ ''; waiting up to '' @
      show_nat (timeout div 10 ^ 9) @ '' seconds''"
    let ?body = "\<lambda>fb w. do {
      (l, w) \<leftarrow> listener_bind E fb info w;
      (case l of
         Inl e \<Rightarrow> Some (Inl e, w)
       | Inr l \<Rightarrow> do {
           (r, w) \<leftarrow> serve_request E tb rb l timeout (println ?msg w);
           (cleanup, (l, w)) \<leftarrow> listener_close E (l, w);
           w \<leftarrow> listener_drop E l w;
           Some (finish r cleanup, w) }) }"
    have "runs (fabric_scope E ?body info w1) (\<lambda>(r, w'). left E w w')"
      by (rule with_fabric [where body = ?body, OF assms post [unfolded Inr] server_body])
    moreover have "server_run E tb rb ip port domain timeout w = fabric_scope E ?body info w1"
      by (simp add: server_run_def info_local_def fabric_scope_def q Inr case_prod_unfold
          Option.bind_assoc Let_def cong: sum.case_cong)
    ultimately show ?thesis by simp
  qed
qed

lemma server_main_spec:
  assumes "start_ok E tb rb w"
  shows "runs (server_main E tb rb args w) (\<lambda>(r, w'). left E w w')"
proof (cases "parse_timeout ''usage: server <local-rxe-ip> [port=7471] [local-domain] [timeout-seconds=30]'' args")
  case (Inl e)
  then show ?thesis using quiet_left [OF quietI(1), of w E] assms by (simp add: server_main_def start_ok_def)
next
  case (Inr n)
  let ?w = "println (version_line E) w"
  note st = quiet_start [OF quietI(4) assms]
  obtain r w' where run: "server_run E tb rb (args ! 0) (case arg args 1 of None \<Rightarrow> ''7471'' | Some p \<Rightarrow> p)
      (arg args 2) (from_secs n) ?w = Some (r, w')" and l: "left E ?w w'"
    using server_run_spec [OF st] unfolding runs_Ex by blast
  have "left E w w'" using left_trans [OF quiet_left [OF quietI(4)] l] assms by (simp add: start_ok_def)
  then show ?thesis
    using run Inr left_println by (cases r) (simp_all add: server_main_def Let_def)
qed

end
