(* ===== verification/Demo.thy ===== *)
theory Demo
  imports Server_Spec
begin

text \<open>
  A test double of the library: a provider that accepts every call, answers each message
  from a script and completes each posted operation on the next read, with a clock that
  advances by a nanosecond per reading. It satisfies the named hypotheses, and the whole
  client and server can be evaluated over it.
\<close>

text \<open>The recursive functions as they are, for evaluation.\<close>

lemmas [code] = find_link.simps retire_walk.simps drain_cq.simps post_loop.simps wait_loop.simps
  exchange_loop.simps serve_loop.simps

record demo =
  d_next :: addr
  d_events :: "fi_event list"
  d_tx :: addr
  d_rx :: addr
  d_sent :: "addr list"
  d_posted :: "addr list"
  d_inbox :: "bytes list"
  d_peer :: "(bytes \<times> bytes) list"

definition demo_info :: "addr \<Rightarrow> fi_info" where
  "demo_info h = \<lparr>fabric_attr = Some \<lparr>prov_name = Some ''verbs'', fab_name = Some ''IB''\<rparr>,
     domain_attr = Some \<lparr>dom_name = Some ''rxe0'', mr_mode = 0\<rparr>,
     ep_attr = Some \<lparr>ep_type = FI_EP_MSG, max_msg_size = 4096\<rparr>,
     tx_op_flags = Some 0, rx_op_flags = Some 0,
     tx_size = 256, inject_size = 0, rx_size = 256, fi_caps = 2, fi_mode = 0, addr_format = 1,
     src_addr = 4, src_addrlen = 16, dest_addr = 8, dest_addrlen = 16, fi_handle = h\<rparr>"

definition demo_fresh :: "demo \<Rightarrow> addr \<times> demo" where
  "demo_fresh p = (d_next p, p\<lparr>d_next := d_next p + 16\<rparr>)"

definition demo_open :: "demo \<Rightarrow> (int \<times> addr) \<times> demo" where
  "demo_open p = (let (a, p) = demo_fresh p in ((0, a), p))"

fun demo_errno :: "fi_errno \<Rightarrow> int" where
  "demo_errno FI_EINVAL = 22"
| "demo_errno FI_ENOMEM = 12"
| "demo_errno FI_ENODATA = 61"
| "demo_errno FI_ENOSYS = 38"
| "demo_errno FI_EBUSY = 16"
| "demo_errno FI_EAGAIN = 11"
| "demo_errno FI_EAVAIL = 259"
| "demo_errno FI_EIO = 5"
| "demo_errno FI_EACCES = 13"
| "demo_errno FI_EOPBADSTATE = 258"

text \<open>Only a listening provider delivers connection requests.\<close>

definition demo_eq_read :: "bool \<Rightarrow> demo \<Rightarrow> (int \<times> fi_event \<times> eq_cm_entry) \<times> demo" where
  "demo_eq_read srv p =
     (let nothing = \<lparr>cm_source = None, cm_info = None, cm_size_ok = True\<rparr>
      in case d_events p of
           [] \<Rightarrow> ((- 11, FI_SHUTDOWN, nothing), p)
         | e # es \<Rightarrow>
             if e = FI_CONNREQ then
               (if srv then ((16, e, nothing\<lparr>cm_info := Some (demo_info 64)\<rparr>), p\<lparr>d_events := es\<rparr>)
                else ((- 11, FI_SHUTDOWN, nothing), p\<lparr>d_events := es\<rparr>))
             else ((16, e, nothing), p\<lparr>d_events := es\<rparr>))"

definition demo_cq_read :: "addr \<Rightarrow> demo \<Rightarrow> (int \<times> cq_msg_entry) \<times> demo" where
  "demo_cq_read q p =
     (if q = d_tx p \<and> d_sent p \<noteq> []
      then ((1, \<lparr>cm_context = hd (d_sent p), cm_len = 0, cm_data = []\<rparr>), p\<lparr>d_sent := tl (d_sent p)\<rparr>)
      else if q = d_rx p \<and> d_posted p \<noteq> [] \<and> d_inbox p \<noteq> []
      then ((1, \<lparr>cm_context = hd (d_posted p), cm_len = of_nat (length (hd (d_inbox p))),
                 cm_data = hd (d_inbox p)\<rparr>),
            p\<lparr>d_posted := tl (d_posted p), d_inbox := tl (d_inbox p)\<rparr>)
      else ((- 11, \<lparr>cm_context = 0, cm_len = 0, cm_data = []\<rparr>), p))"

definition demo_bind :: "addr \<Rightarrow> u64 \<Rightarrow> demo \<Rightarrow> int \<times> demo" where
  "demo_bind q fl p = (0, if fl = 2048 then p\<lparr>d_tx := q\<rparr> else if fl = 1024 then p\<lparr>d_rx := q\<rparr> else p)"

definition demo_send :: "bytes \<Rightarrow> addr \<Rightarrow> demo \<Rightarrow> int \<times> demo" where
  "demo_send m ctx p = (0, p\<lparr>d_sent := d_sent p @ [ctx],
     d_inbox := d_inbox p @ (case map_of (d_peer p) m of None \<Rightarrow> [] | Some r \<Rightarrow> [r])\<rparr>)"

definition demo_event :: "fi_event \<Rightarrow> demo \<Rightarrow> int \<times> demo" where
  "demo_event e p = (0, p\<lparr>d_events := d_events p @ [e]\<rparr>)"

definition demo_lib :: "bool \<Rightarrow> demo lib" where
  "demo_lib srv = \<lparr>errno = demo_errno, fi_strerror = (\<lambda>e. ''error ''), fi_version = 65547,
     FI_MSG = 2, FI_CONTEXT = 1, FI_LOCAL_MR = 2, FI_SEND = 2048, FI_RECV = 1024, FI_SOURCE = 1,
     FI_TRANSMIT = 2048, FI_MR_LOCAL = 4, FI_MR_ALLOCATED = 8, FI_SOCKADDR_IN = 1,
     c_calloc = demo_fresh, c_malloc = Pair True,
     fi_allocinfo = Pair (Some (demo_info 0)),
     fi_getinfo = (\<lambda>_ _ _ _. Pair (0, [demo_info 0])),
     fi_dupinfo = (\<lambda>i. Pair (Some i)),
     fi_fabric = (\<lambda>_ _. demo_open), fi_domain = (\<lambda>_ _ _. demo_open), fi_eq_open = (\<lambda>_ _. demo_open),
     fi_cq_open = (\<lambda>_ _ _. demo_open), fi_passive_ep = (\<lambda>_ _ _. demo_open),
     fi_pep_bind = (\<lambda>_ _. Pair 0), fi_listen = (\<lambda>_. demo_event FI_CONNREQ),
     fi_endpoint = (\<lambda>_ _ _. demo_open), fi_ep_bind = (\<lambda>_ q fl. demo_bind q fl),
     fi_enable = (\<lambda>_. Pair 0), fi_connect = (\<lambda>_ _. demo_event FI_CONNECTED),
     fi_accept = (\<lambda>_. demo_event FI_CONNECTED), fi_reject = (\<lambda>_ _. Pair 0),
     fi_shutdown = (\<lambda>_. Pair 0), fi_close = (\<lambda>_. Pair 0),
     fi_eq_read = (\<lambda>_. demo_eq_read srv),
     fi_eq_readerr = (\<lambda>_. Pair (- 11, \<lparr>qe_source = None, qe_err = 0, qe_prov_errno = 0\<rparr>)),
     fi_eq_strerror = (\<lambda>_ _. None),
     fi_cq_read = demo_cq_read,
     fi_cq_readerr = (\<lambda>_. Pair (- 11, \<lparr>ce_context = 0, ce_err = 0, ce_prov_errno = 0\<rparr>)),
     fi_cq_strerror = (\<lambda>_ _. None),
     fi_mr_reg = (\<lambda>_ _ _ _ _. demo_open), fi_mr_desc = (\<lambda>a. a),
     fi_send = (\<lambda>_ m _ ctx. demo_send m ctx),
     fi_recv = (\<lambda>_ _ _ _ ctx p. (0, p\<lparr>d_posted := d_posted p @ [ctx]\<rparr>)),
     clock = (\<lambda>n. n)\<rparr>"

definition demo_start :: "bytes list \<Rightarrow> (bytes \<times> bytes) list \<Rightarrow> demo" where
  "demo_start inbox peer = \<lparr>d_next = 4096, d_events = [], d_tx = 0, d_rx = 0, d_sent = [],
     d_posted = [], d_inbox = inbox, d_peer = peer\<rparr>"

definition demo_client :: "demo world" where
  "demo_client = empty_world (demo_start [] [(''hello'', ''world'')])"

definition demo_server :: "demo world" where
  "demo_server = empty_world (demo_start [''hello''] [(''world'', ''ack'')])"

subsection \<open>It satisfies the hypotheses\<close>

lemma demo_errno_ok: "errno_ok (demo_lib s)"
  unfolding errno_ok_def
proof
  have "demo_errno a = demo_errno b \<Longrightarrow> a = b" for a b by (cases a; cases b) simp_all
  then show "inj (errno (demo_lib s))" by (simp add: inj_def demo_lib_def)
  have "0 < demo_errno e \<and> demo_errno e < 2 ^ 31" for e by (cases e) simp_all
  then show "\<forall>e. 0 < errno (demo_lib s) e \<and> errno (demo_lib s) e < 2 ^ 31" by (simp add: demo_lib_def)
qed

lemma demo_infos_ok: "infos_ok (demo_lib s)"
  by (auto simp: infos_ok_def demo_lib_def demo_info_def info_wf_def demo_eq_read_def Let_def
      split: list.splits if_splits)

lemma demo_clock: "clock_advances (demo_lib s)"
proof -
  have "t \<le> clock (demo_lib s) m" if "t \<le> m" for t m using that by (simp add: demo_lib_def)
  then show ?thesis unfolding clock_advances_def by blast
qed

lemma demo_closes_ok: "closes_ok (demo_lib s)"
  by (simp add: closes_ok_def demo_lib_def)

lemma demo_no_requests: "no_requests (demo_lib False)"
  by (auto simp: no_requests_def demo_lib_def demo_eq_read_def Let_def split: list.splits if_splits)

subsection \<open>Evaluation\<close>

text \<open>
  Definitions for evaluating a call over the test double by rewriting; the congruence rules
  keep what follows a call from being rewritten before its result is known.
\<close>

lemma bind_weak: "m = m' \<Longrightarrow> Option.bind m f = Option.bind m' f" by simp
lemmas demo_congs = bind_weak let_weak_cong

lemmas demo_eval = open_handle_def qmark_def check_def  calloc_def malloc_def call_def allocated_def conn_empty_def slot_empty_def 
  demo_lib_def demo_open_def demo_fresh_def demo_client_def empty_world_def demo_start_def demo_info_def
  demo_bind_def demo_event_def demo_send_def demo_cq_read_def demo_eq_read_def
  shim_domain_open_def shim_eq_open_def shim_cq_open_def shim_endpoint_open_def endpoint_args_bad_def bind_endpoint_def shim_mr_register_def shim_op_create_def
  on_tx_def on_rx_def setup_slot_def initialize_def BUFFER_SIZE_def RX_ID_def TX_ID_def SHIM_ACCESS_SEND_def SHIM_ACCESS_RECV_def
  SHIM_COMPLETION_SEND_def SHIM_COMPLETION_RECV_def now_def post_recv_def ensure_open_def shim_post_recv_def post_message_def connect_def shim_connect_def
  shim_error_is_again_def c_int_def read_region_def post_loop.simps
  shim_info_open_def take_info_def fi_freeinfo_def fill_hints_def copy_string_def set_prov_name_def set_dom_name_def query_hints_def wrap_selected_def
  free_query_def info_selectable_def has_nul_def info_query_def info_remote_def info_local_def fabric_open_def shim_fabric_open_def
  send_def shim_post_send_def poll_def poll_tx_def poll_rx_def poll_cm_def poll_cq_def poll_eq_def shim_cq_poll_def shim_eq_poll_def
  cq_read_entry_def deliver_def unlink_op_def release_op_def unborrow_def zero_completion_def zero_event_def source_of_def free_entry_info_def
  find_link.simps SHIM_EVENT_CONNREQ_def SHIM_EVENT_CONNECTED_def SHIM_EVENT_SHUTDOWN_def
  run_exchange_def exchange_loop.simps exchange_default_def Client.round_def Client.after_events_def Client.complete_def next_message_def Client.posted_def message_bytes_def
  Client.on_event_def println_def show_event_def SHIM_ERROR_TEXT_SIZE_def show_nat.simps show_bytes_def
  client_run_def conn_close_def conn_drop_def begin_close_def close_handle_def shim_shutdown_def shim_endpoint_close_def
  retire_cq_def retire_walk.simps drain_cq.simps shim_cq_close_def slot_close_def shim_mr_close_def shim_op_free_def
  shim_eq_close_def shim_domain_close_def shim_fabric_close_def shim_listener_close_def fabric_close_def fabric_drop_def
  info_drop_def shim_info_free_def finish_def free_bytes_def
  server_run_def listener_bind_def listener_close_def listener_drop_def listener_poll_def wait_loop.simps wait_request_def
  shim_listener_open_def serve_request_def from_request_def request_drop_def request_reject_def shim_accept_def
  serve_def serve_loop.simps Server.round_def Server.after_events_def Server.on_event_def Server.complete_def
  try_reply_def exchange_new_def receive_pending_def demo_server_def

subsection \<open>Concrete worlds\<close>

text \<open>One query result and one open fabric; and a session connected over them.\<close>

definition demo_base :: "demo world" where
  "demo_base = add_fabric 32 \<lparr>f_raw = 48, f_children = 0\<rparr> (add_info 16 (demo_info 0) demo_client)"

definition demo_session :: "connection \<times> demo world" where
  "demo_session =
     (case connect (demo_lib False) 1 2 \<lparr>fabric_raw = 32\<rparr> \<lparr>info_raw = 16\<rparr> 30 demo_base of
        Some (Inr c, w) \<Rightarrow> (c, w) | _ \<Rightarrow> conn_empty 1 2 32 demo_base)"

lemma demo_base_inv: "inv demo_base"
proof -
  have "inv (add_info 16 (demo_info 0) demo_client)"
    by (rule inv_add_info) (simp_all add: demo_client_def inv_empty_world demo_info_def info_wf_def)
  then show ?thesis unfolding demo_base_def
    by (rule inv_add_fabric) (simp_all add: allocated_def add_info_def demo_client_def empty_world_def)
qed

lemma demo_base_parts: "fabrics demo_base 32 \<noteq> None" "infos demo_base 16 \<noteq> None"
  "mem demo_base = Map.empty"
  by (simp_all add: demo_base_def add_fabric_def add_info_def demo_client_def empty_world_def)

lemma demo_connects:
  "connect (demo_lib False) 1 2 \<lparr>fabric_raw = 32\<rparr> \<lparr>info_raw = 16\<rparr> 30 demo_base =
     Some (Inr (fst demo_session), snd demo_session)"
proof -
  have "\<exists>c w. connect (demo_lib False) 1 2 \<lparr>fabric_raw = 32\<rparr> \<lparr>info_raw = 16\<rparr> 30 demo_base =
      Some (Inr c, w)"
    by (simp add: demo_eval demo_base_def add_fabric_def add_info_def cong: demo_congs)
  then show ?thesis by (auto simp: demo_session_def)
qed

lemma demo_session_open:
  "open_conn (demo_lib False) demo_base 32 (fst demo_session) (snd demo_session)"
  using connect_spec [of demo_base "\<lparr>fabric_raw = 32\<rparr>" "\<lparr>info_raw = 16\<rparr>" 1 2 "demo_lib False" 30]
    demo_base_inv demo_base_parts demo_errno_ok demo_infos_ok demo_clock demo_connects
  by (auto simp: connected_as_def)

lemma demo_session_ok: "conn_ok (demo_lib False) demo_base (snd demo_session) (fst demo_session)"
  using demo_session_open by (simp add: open_conn_def)

lemma demo_session_inv: "inv (snd demo_session)"
  using conn_ok_inv(1) [OF demo_session_ok] .

lemma demo_start_ok:
  "start_ok (demo_lib s) 1 2 demo_client" "start_ok (demo_lib s) 1 2 demo_server"
  using demo_errno_ok [of s] demo_infos_ok [of s] demo_clock [of s]
    inv_empty_world [of "demo_start [] [(''hello'', ''world'')]"]
    inv_empty_world [of "demo_start [''hello''] [(''world'', ''ack'')]"]
  by (simp_all add: start_ok_def demo_client_def demo_server_def)
    (simp_all add: empty_world_def)

text \<open>A bound listener, and a request waited for on it.\<close>

definition demo_bound :: "listener \<times> demo world" where
  "demo_bound =
     (case listener_bind (demo_lib True) \<lparr>fabric_raw = 32\<rparr> \<lparr>info_raw = 16\<rparr> demo_base of
        Some (Inr l, w) \<Rightarrow> (l, w) | _ \<Rightarrow> (\<lparr>ls_fabric = 0, ls_eq = 0, ls_raw = 0\<rparr>, demo_base))"

definition demo_asked :: "request \<times> demo world" where
  "demo_asked =
     (case wait_request (demo_lib True) (fst demo_bound) 30 (snd demo_bound) of
        Some (Inr q, w) \<Rightarrow> (q, w)
      | _ \<Rightarrow> (\<lparr>rq_listener = fst demo_bound, rq_info = \<lparr>info_raw = 0\<rparr>, rq_handled = False\<rparr>, demo_base))"

lemma demo_binds:
  "listener_bind (demo_lib True) \<lparr>fabric_raw = 32\<rparr> \<lparr>info_raw = 16\<rparr> demo_base =
     Some (Inr (fst demo_bound), snd demo_bound)"
proof -
  have "\<exists>l w. listener_bind (demo_lib True) \<lparr>fabric_raw = 32\<rparr> \<lparr>info_raw = 16\<rparr> demo_base =
      Some (Inr l, w)"
    by (simp add: demo_eval demo_base_def add_fabric_def add_info_def cong: demo_congs)
  then show ?thesis by (auto simp: demo_bound_def)
qed

lemma demo_bound_ok: "bound demo_base (fst demo_bound) (snd demo_bound)"
  "ls_fabric (fst demo_bound) = 32" "ls_eq (fst demo_bound) \<noteq> 0" "ls_raw (fst demo_bound) \<noteq> 0"
  using listener_bind_spec [of demo_base "\<lparr>fabric_raw = 32\<rparr>" "\<lparr>info_raw = 16\<rparr>" "demo_lib True"]
    demo_base_inv demo_base_parts demo_errno_ok demo_binds
  by simp_all

lemma demo_asks:
  "wait_request (demo_lib True) (fst demo_bound) 30 (snd demo_bound) =
     Some (Inr (fst demo_asked), snd demo_asked)"
proof -
  have "\<exists>q w. wait_request (demo_lib True) (fst demo_bound) 30 (snd demo_bound) = Some (Inr q, w)"
    by (simp add: demo_bound_def demo_eval demo_base_def add_fabric_def add_info_def cong: demo_congs)
  then show ?thesis by (auto simp: demo_asked_def)
qed

lemma demo_bound_live: "inv (snd demo_bound)" "fabrics (snd demo_bound) 32 \<noteq> None"
  "eqs (snd demo_bound) (ls_eq (fst demo_bound)) \<noteq> None"
  "listeners (snd demo_bound) (ls_raw (fst demo_bound)) \<noteq> None" "mem (snd demo_bound) = Map.empty"
proof -
  have ok: "listener_ok demo_base (fst demo_bound) (snd demo_bound)"
    by (rule bound_listener_ok [OF demo_bound_ok(1)])
  then have sc: "scope demo_base (snd demo_bound)" by (simp add: listener_ok_def)
  show "inv (snd demo_bound)" using sc by (simp add: scope_def)
  show "fabrics (snd demo_bound) 32 \<noteq> None" using scope_live(3) [OF sc demo_base_parts(1)] .
  show "eqs (snd demo_bound) (ls_eq (fst demo_bound)) \<noteq> None"
    "listeners (snd demo_bound) (ls_raw (fst demo_bound)) \<noteq> None"
    using ok demo_bound_ok(3,4) unfolding listener_ok_def by blast+
  show "mem (snd demo_bound) = Map.empty"
    using demo_bound_ok demo_base_parts(3)
    by (auto simp: bound_def Let_def quiet_def add_eq_def add_listener_def)
qed

lemma demo_asked_ok:
  "requested (fst demo_bound) (snd demo_bound) (fst demo_asked) (snd demo_asked)"
  using wait_request_spec [of "snd demo_bound" "fst demo_bound" "demo_lib True" 30]
    demo_bound_live demo_errno_ok demo_infos_ok demo_clock demo_asks by simp

lemma demo_asked_live: "inv (snd demo_asked)" "\<not> rq_handled (fst demo_asked)"
  "infos (snd demo_asked) (info_raw (rq_info (fst demo_asked))) \<noteq> None"
  "fabrics (snd demo_asked) (ls_fabric (rq_listener (fst demo_asked))) \<noteq> None"
  "listeners (snd demo_asked) (ls_raw (rq_listener (fst demo_asked))) \<noteq> None"
  "mem (snd demo_asked) = Map.empty"
proof -
  let ?q = "fst demo_asked"
  obtain v raw where q: "rq_listener ?q = fst demo_bound" "\<not> rq_handled ?q" "info_raw (rq_info ?q) \<noteq> 0"
    and v: "quiet (snd demo_bound) v" and wf: "info_wf raw"
    and w: "snd demo_asked = add_info (info_raw (rq_info ?q)) raw (take_info v)"
    using demo_asked_ok unfolding requested_def by blast
  note same = quiet_same [OF v]
  show "\<not> rq_handled ?q" by (rule q(2))
  show "inv (snd demo_asked)" using demo_bound_live(1) q(3) wf same by (simp add: w inv_add_info)
  show "infos (snd demo_asked) (info_raw (rq_info ?q)) \<noteq> None" by (simp add: w add_info_def)
  show "fabrics (snd demo_asked) (ls_fabric (rq_listener ?q)) \<noteq> None"
    using demo_bound_live(2) demo_bound_ok(2) same by (simp add: w add_info_def take_info_def q(1))
  show "listeners (snd demo_asked) (ls_raw (rq_listener ?q)) \<noteq> None"
    using demo_bound_live(4) same by (simp add: w add_info_def take_info_def q(1))
  show "mem (snd demo_asked) = Map.empty"
    using demo_bound_live(5) same by (simp add: w add_info_def take_info_def)
qed

subsection \<open>What the session holds\<close>

lemma demo_session_handles:
  "cn_domain (fst demo_session) \<noteq> 0" "cn_eq (fst demo_session) \<noteq> 0" "cn_ep (fst demo_session) \<noteq> 0"
  "cn_tx_cq (fst demo_session) \<noteq> 0" "cn_rx_cq (fst demo_session) \<noteq> 0"
  "sl_mr (cn_tx (fst demo_session)) \<noteq> 0" "sl_op (cn_tx (fst demo_session)) \<noteq> 0"
  using demo_session_open unfolding open_conn_def stage_simps by blast+

lemmas demo_session_live = conn_live [OF demo_session_ok]

lemma demo_session_idle:
  "\<not> sl_pending (cn_tx (fst demo_session))" "sl_bytes (cn_tx (fst demo_session)) = Some 1"
  "ensure_open (fst demo_session) = Inr ()"
proof -
  have "\<not> sl_pending (cn_tx (fst demo_session)) \<and> sl_bytes (cn_tx (fst demo_session)) = Some 1 \<and>
      ensure_open (fst demo_session) = Inr ()"
    by (simp add: demo_session_def demo_base_def demo_eval add_fabric_def add_info_def cong: demo_congs)
  then show "\<not> sl_pending (cn_tx (fst demo_session))" "sl_bytes (cn_tx (fst demo_session)) = Some 1"
    "ensure_open (fst demo_session) = Inr ()" by blast+
qed

end
