(* ===== verification/Shim_Api.thy ===== *)
theory Shim_Api
  imports Shim_Contract Shim_Refine_Open Shim_Refine_Io Shim_Refine_Info Shim_Refine_Cm
begin

text \<open>
  The shim as a whole: its entry points as the alphabet of a step relation, with the caller's
  obligation (every handle passed is live or null) as the guard of a step. Any history of
  calls, with the caller allocating, writing and freeing buffers in between, keeps the object
  graph consistent, and every permitted call returns.
\<close>

datatype api_call =
    InfoOpen "string option" "string option" "string option" int
  | InfoFree addr
  | FabricOpen addr
  | DomainOpen addr addr
  | EqOpen addr
  | CqOpen addr size_t
  | ListenerOpen addr addr addr
  | EndpointOpen addr addr addr addr addr
  | MrRegister addr addr size_t u32
  | OpCreate u64
  | ConnectTo addr addr
  | Accept addr
  | Reject addr addr
  | Shutdown addr
  | EqPoll addr
  | CqPoll addr
  | Post addr addr addr size_t addr bool
  | FabricClose addr
  | DomainClose addr
  | EqClose addr
  | CqClose addr
  | ListenerClose addr
  | EndpointClose addr
  | MrClose addr
  | OpFree addr

definition code_of :: "(int \<times> 'a) \<times> 'p world \<Rightarrow> int \<times> 'p world" where
  "code_of x = (fst (fst x), snd x)"

fun perform :: "'p lib \<Rightarrow> api_call \<Rightarrow> 'p world \<Rightarrow> (int \<times> 'p world) option" where
  "perform E (InfoOpen node service d src) w = map_option code_of (shim_info_open E node service d src True w)"
| "perform E (InfoFree i) w = map_option (Pair 0) (shim_info_free i w)"
| "perform E (FabricOpen i) w = map_option code_of (shim_fabric_open E i True w)"
| "perform E (DomainOpen f i) w = map_option code_of (shim_domain_open E f i True w)"
| "perform E (EqOpen f) w = map_option code_of (shim_eq_open E f True w)"
| "perform E (CqOpen d n) w = map_option code_of (shim_cq_open E d n True w)"
| "perform E (ListenerOpen f i e) w = map_option code_of (shim_listener_open E f i e True w)"
| "perform E (EndpointOpen d i e t r) w = map_option code_of (shim_endpoint_open E d i e t r True w)"
| "perform E (MrRegister d buf n access) w = map_option code_of (shim_mr_register E d buf n access True w)"
| "perform E (OpCreate i) w = map_option code_of (shim_op_create E i True w)"
| "perform E (ConnectTo p i) w = shim_connect E p i w"
| "perform E (Accept p) w = shim_accept E p w"
| "perform E (Reject l i) w = shim_reject E l i w"
| "perform E (Shutdown p) w = shim_shutdown E p w"
| "perform E (EqPoll e) w = map_option code_of (shim_eq_poll E e True w)"
| "perform E (CqPoll q) w = map_option code_of (shim_cq_poll E q True w)"
| "perform E (Post p x m n buf receive) w = (if receive then shim_post_recv E p x m n buf w
     else shim_post_send E p x m n buf w)"
| "perform E (FabricClose a) w = shim_fabric_close E a w"
| "perform E (DomainClose a) w = shim_domain_close E a w"
| "perform E (EqClose a) w = shim_eq_close E a w"
| "perform E (CqClose a) w = shim_cq_close E a w"
| "perform E (ListenerClose a) w = shim_listener_close E a w"
| "perform E (EndpointClose a) w = shim_endpoint_close E a w"
| "perform E (MrClose a) w = shim_mr_close E a w"
| "perform E (OpFree a) w = shim_op_free E a w"

definition alive :: "(addr \<rightharpoonup> 'o) \<Rightarrow> addr \<Rightarrow> bool" where
  "alive m a \<longleftrightarrow> a = 0 \<or> m a \<noteq> None"

text \<open>The caller's obligations: handles it still owns, and a buffer as long as it says.\<close>

fun permitted :: "api_call \<Rightarrow> 'p world \<Rightarrow> bool" where
  "permitted (InfoOpen node service d src) w = True"
| "permitted (InfoFree i) w = alive (infos w) i"
| "permitted (FabricOpen i) w = alive (infos w) i"
| "permitted (DomainOpen f i) w = (alive (fabrics w) f \<and> alive (infos w) i)"
| "permitted (EqOpen f) w = alive (fabrics w) f"
| "permitted (CqOpen d n) w = alive (domains w) d"
| "permitted (ListenerOpen f i e) w = (alive (fabrics w) f \<and> alive (infos w) i \<and> alive (eqs w) e)"
| "permitted (EndpointOpen d i e t r) w = (alive (domains w) d \<and> alive (infos w) i \<and>
     alive (eqs w) e \<and> alive (cqs w) t \<and> alive (cqs w) r)"
| "permitted (MrRegister d buf n access) w = (alive (domains w) d \<and>
     (case mem w buf of None \<Rightarrow> buf = 0 | Some bs \<Rightarrow> unat n \<le> length bs))"
| "permitted (OpCreate i) w = True"
| "permitted (ConnectTo p i) w = (alive (endpoints w) p \<and> alive (infos w) i)"
| "permitted (Accept p) w = alive (endpoints w) p"
| "permitted (Reject l i) w = (alive (listeners w) l \<and> alive (infos w) i)"
| "permitted (Shutdown p) w = alive (endpoints w) p"
| "permitted (EqPoll e) w = alive (eqs w) e"
| "permitted (CqPoll q) w = alive (cqs w) q"
| "permitted (Post p x m n buf receive) w = (alive (endpoints w) p \<and> alive (ops w) x \<and> alive (mrs w) m)"
| "permitted (FabricClose a) w = alive (fabrics w) a"
| "permitted (DomainClose a) w = alive (domains w) a"
| "permitted (EqClose a) w = alive (eqs w) a"
| "permitted (CqClose a) w = alive (cqs w) a"
| "permitted (ListenerClose a) w = alive (listeners w) a"
| "permitted (EndpointClose a) w = alive (endpoints w) a"
| "permitted (MrClose a) w = alive (mrs w) a"
| "permitted (OpFree a) w = alive (ops w) a"

subsection \<open>Each call keeps the graph consistent\<close>

text \<open>A null handle is refused, or ignored by a close, without touching the graph.\<close>

lemma null_calls [simp]:
  "shim_info_free 0 w = Some w"
  "shim_fabric_open E 0 True w = Some ((- errno E FI_EINVAL, 0), w)"
  "shim_domain_open E 0 i True w = Some ((- errno E FI_EINVAL, 0), w)"
  "shim_domain_open E f 0 True w = Some ((- errno E FI_EINVAL, 0), w)"
  "shim_eq_open E 0 True w = Some ((- errno E FI_EINVAL, 0), w)"
  "shim_cq_open E 0 n True w = Some ((- errno E FI_EINVAL, 0), w)"
  "shim_cq_open E d 0 True w = Some ((- errno E FI_EINVAL, 0), w)"
  "shim_listener_open E 0 i e True w = Some ((- errno E FI_EINVAL, 0), w)"
  "shim_listener_open E f 0 e True w = Some ((- errno E FI_EINVAL, 0), w)"
  "shim_listener_open E f i 0 True w = Some ((- errno E FI_EINVAL, 0), w)"
  "d = 0 \<or> i = 0 \<or> e = 0 \<or> t = 0 \<or> r = 0 \<Longrightarrow>
     shim_endpoint_open E d i e t r True w = Some ((- errno E FI_EINVAL, 0), w)"
  "d = 0 \<or> buf = 0 \<or> n = 0 \<Longrightarrow>
     shim_mr_register E d buf n access True w = Some ((- errno E FI_EINVAL, 0), w)"
  by (auto simp: shim_info_free_def shim_fabric_open_def shim_domain_open_def shim_eq_open_def
      shim_cq_open_def shim_listener_open_def shim_endpoint_open_def endpoint_args_bad_def shim_mr_register_def)

lemma null_calls2 [simp]:
  "shim_connect E 0 i w = Some (- errno E FI_EINVAL, w)"
  "shim_accept E 0 w = Some (- errno E FI_EINVAL, w)"
  "shim_reject E 0 i w = Some (- errno E FI_EINVAL, w)"
  "shim_shutdown E 0 w = Some (- errno E FI_EINVAL, w)"
  "shim_eq_poll E 0 True w = Some ((- errno E FI_EINVAL, zero_event), w)"
  "shim_cq_poll E 0 True w = Some ((- errno E FI_EINVAL, zero_completion), w)"
  "p = 0 \<or> x = 0 \<or> m = 0 \<or> buf = 0 \<Longrightarrow> post_message E p x m n buf receive w = Some (- errno E FI_EINVAL, w)"
  "shim_fabric_close E 0 w = Some (0, w)" "shim_domain_close E 0 w = Some (0, w)"
  "shim_eq_close E 0 w = Some (0, w)" "shim_cq_close E 0 w = Some (0, w)"
  "shim_listener_close E 0 w = Some (0, w)" "shim_endpoint_close E 0 w = Some (0, w)"
  "shim_mr_close E 0 w = Some (0, w)" "shim_op_free E 0 w = Some (0, w)"
  by (auto simp: shim_connect_def shim_accept_def shim_reject_def shim_shutdown_def shim_eq_poll_def
      shim_cq_poll_def post_message_def shim_fabric_close_def shim_domain_close_def shim_eq_close_def
      shim_cq_close_def shim_listener_close_def shim_endpoint_close_def shim_mr_close_def shim_op_free_def)

lemma runs_map [simp]: "runs (map_option f m) Q = runs m (\<lambda>x. Q (f x))"
  by (cases m) simp_all

lemma aliveE:
  assumes "alive m a"
  obtains (null) "a = 0" | (live) x where "a \<noteq> 0" "m a = Some x"
  using assms by (auto simp: alive_def)

text \<open>A close on a handle the contract of \<open>closable\<close> covers.\<close>

lemma close_keeps:
  assumes "closable E close live" and "errno_ok E" and "inv w" and "live w a"
  shows "runs (close a w) (\<lambda>(r, w'). inv w')"
  using closable.close_live [OF assms(1-4)] by (auto elim!: runs_conseq)

lemma step_inv:
  assumes "open_step E new add w = ((r, a), w')" and "errno_ok E" and "inv w"
    and "\<And>a raw p. a \<noteq> 0 \<Longrightarrow> \<not> allocated w a \<Longrightarrow> inv (add a raw (w\<lparr>prov := p\<rparr>))"
  shows "inv w'"
proof -
  have "opened add w ((r, a), w')" using open_step_opened [OF assms(2), of add w new] assms(1) by simp
  then show ?thesis by (rule opened_inv) (use assms(3,4) in auto)
qed

lemma same_heap_inv: "same_heap w w' \<Longrightarrow> inv w \<Longrightarrow> inv w'"
  by (auto simp: same_heap_def)

lemma opens_keep:
  assumes "errno_ok E" and "inv w"
  shows "permitted (FabricOpen i) w \<Longrightarrow> runs (shim_fabric_open E i True w) (\<lambda>(_, w'). inv w')"
    and "permitted (DomainOpen f i) w \<Longrightarrow> runs (shim_domain_open E f i True w) (\<lambda>(_, w'). inv w')"
    and "permitted (EqOpen f) w \<Longrightarrow> runs (shim_eq_open E f True w) (\<lambda>(_, w'). inv w')"
    and "permitted (CqOpen d n) w \<Longrightarrow> runs (shim_cq_open E d n True w) (\<lambda>(_, w'). inv w')"
proof -
  have al: "allocated (w\<lparr>prov := p\<rparr>) a = allocated w a" for p a by (simp add: allocated_def)
  show "runs (shim_fabric_open E i True w) (\<lambda>(_, w'). inv w')" if "permitted (FabricOpen i) w"
  proof (cases "i = 0")
    case False
    with that obtain x where x: "infos w i = Some x" by (auto simp: alive_def)
    obtain raw where "i_raw x = Some raw" by (rule info_rawD [OF assms(2) x])
    note eq = shim_fabric_open_eq [OF assms(2) x this]
    show ?thesis unfolding eq runs_Some
      by (auto split: prod.splits elim!: step_inv [OF _ assms] intro!: inv_add_fabric simp: al assms(2))
  qed (simp add: assms)
  show "runs (shim_domain_open E f i True w) (\<lambda>(_, w'). inv w')" if "permitted (DomainOpen f i) w"
  proof (cases "f = 0 \<or> i = 0")
    case False
    with that obtain x y where x: "fabrics w f = Some y" "infos w i = Some x" by (auto simp: alive_def)
    show ?thesis unfolding shim_domain_open_eq [OF assms(2) x] runs_Some
      by (auto split: prod.splits elim!: step_inv [OF _ assms] intro!: inv_add_domain simp: al x assms(2))
  qed (use assms in auto)
  show "runs (shim_eq_open E f True w) (\<lambda>(_, w'). inv w')" if "permitted (EqOpen f) w"
  proof (cases "f = 0")
    case False
    with that obtain y where x: "fabrics w f = Some y" by (auto simp: alive_def)
    show ?thesis unfolding shim_eq_open_eq [OF assms(2) x] runs_Some
      by (auto split: prod.splits elim!: step_inv [OF _ assms] intro!: inv_add_eq simp: al x assms(2))
  qed (simp add: assms)
  show "runs (shim_cq_open E d n True w) (\<lambda>(_, w'). inv w')" if "permitted (CqOpen d n) w"
  proof (cases "d = 0 \<or> n = 0")
    case False
    with that obtain y where x: "domains w d = Some y" "n \<noteq> 0" by (auto simp: alive_def)
    show ?thesis unfolding shim_cq_open_eq [OF assms(2) x] runs_Some
      by (auto split: prod.splits elim!: step_inv [OF _ assms] intro!: inv_add_cq simp: al x assms(2))
  qed (use assms in auto)
qed

lemma access_cases:
  fixes access :: u32
  assumes "access \<noteq> 0" and "access AND NOT (SHIM_ACCESS_SEND OR SHIM_ACCESS_RECV) = 0"
  shows "access = SHIM_ACCESS_SEND \<or> access = SHIM_ACCESS_RECV \<or>
    access = SHIM_ACCESS_SEND OR SHIM_ACCESS_RECV"
proof -
  have m: "access AND NOT (mask 2) = 0"
    using assms(2) by (simp add: SHIM_ACCESS_SEND_def SHIM_ACCESS_RECV_def mask_eq_exp_minus_1)
  have "access = take_bit 2 access"
  proof (rule bit_eqI)
    fix n assume "possible_bit TYPE(32 word) n"
    moreover have "\<not> bit (access AND NOT (mask 2)) n" by (simp add: m)
    ultimately show "bit access n = bit (take_bit 2 access) n"
      by (auto simp: bit_simps)
  qed
  then have "unat access = take_bit 2 (unat access)" by (metis unsigned_take_bit_eq)
  then have "unat access < 4" using take_bit_nat_less_exp [of 2 "unat access"] by simp
  moreover have "unat access \<noteq> 0" using assms(1) by (simp add: unat_eq_zero)
  ultimately have "unat access = 1 \<or> unat access = 2 \<or> unat access = 3" by arith
  moreover have "access = of_nat (unat access)" by simp
  ultimately have "access = 1 \<or> access = 2 \<or> access = 3" by (elim disjE) simp_all
  then show ?thesis by (simp add: SHIM_ACCESS_SEND_def SHIM_ACCESS_RECV_def)
qed


text \<open>One lemma per operation that can fail; bundled, they are the cases of \<open>perform\<close>.\<close>

lemma info_open_keeps:
  assumes "errno_ok E" and "infos_ok E" and "inv w"
  shows "runs (shim_info_open E node service d s True w) (\<lambda>(_, w'). inv w')"
  using shim_info_open_spec [OF assms(1,2), of node service d s w] query_result_inv [OF _ assms(3)]
  by (auto elim!: runs_conseq)

lemma listener_open_keeps:
  assumes "errno_ok E" and "infos_ok E" and "inv w" and p: "permitted (ListenerOpen f i e) w"
  shows "runs (shim_listener_open E f i e True w) (\<lambda>(_, w'). inv w')"
proof (cases "f = 0 \<or> i = 0 \<or> e = 0")
  case False
  with p obtain y z where x: "fabrics w f = Some y" "infos w i \<noteq> None" "eqs w e = Some z"
    by (auto simp: alive_def)
  have "listener_opened f e w ((r, a), w') \<Longrightarrow> inv w'" for r a w'
    using assms(3) x inv_add_listener [of "w\<lparr>prov := p\<rparr>" for p]
    by (auto simp: listener_opened_def same_heap_def allocated_prov)
  then show ?thesis
    using shim_listener_open_spec [OF assms(3,1) x] by (auto elim!: runs_conseq)
qed (use assms in auto)

lemma endpoint_open_keeps:
  assumes "errno_ok E" and "infos_ok E" and "inv w" and p: "permitted (EndpointOpen dm i e t u) w"
  shows "runs (shim_endpoint_open E dm i e t u True w) (\<lambda>(_, w'). inv w')"
proof (cases "dm = 0 \<or> i = 0 \<or> e = 0 \<or> t = 0 \<or> u = 0")
  case False
  with p obtain y z ct cu where x: "domains w dm = Some y" "infos w i \<noteq> None" "eqs w e = Some z"
    "cqs w t = Some ct" "cqs w u = Some cu" by (auto simp: alive_def)
  show ?thesis
    by (rule runs_conseq [OF shim_endpoint_open_spec [OF assms(3,1) x]]) auto
qed (use assms in simp)

lemma mr_register_keeps:
  assumes "errno_ok E" and "infos_ok E" and "inv w" and p: "permitted (MrRegister dm buf n access) w"
  shows "runs (shim_mr_register E dm buf n access True w) (\<lambda>(_, w'). inv w')"
proof -
  consider "dm = 0 \<or> buf = 0 \<or> n = 0"
    | "\<not> (dm = 0 \<or> buf = 0 \<or> n = 0)" "access = 0 \<or> access AND NOT (SHIM_ACCESS_SEND OR SHIM_ACCESS_RECV) \<noteq> 0"
    | "\<not> (dm = 0 \<or> buf = 0 \<or> n = 0)" "access = SHIM_ACCESS_SEND \<or> access = SHIM_ACCESS_RECV \<or>
        access = SHIM_ACCESS_SEND OR SHIM_ACCESS_RECV"
    using access_cases [of access] by blast
  then show ?thesis
  proof cases
    case 3
    then obtain y bs where x: "domains w dm = Some y" "mem w buf = Some bs" "unat n \<le> length bs"
      using p by (auto simp: alive_def split: option.splits)
    from 3(1) have b: "buf \<noteq> 0" "n \<noteq> 0" by simp_all
    show ?thesis unfolding shim_mr_register_eq [OF assms(3) x(1) b 3(2)] runs_Some
      by (auto split: prod.splits elim!: step_inv [OF _ assms(1,3)] intro!: inv_add_mr
          simp: allocated_prov x assms(3) mr_backed_def)
  qed (use assms in \<open>auto simp: shim_mr_register_def\<close>)
qed

lemma op_create_keeps:
  assumes "errno_ok E" and "infos_ok E" and "inv w"
  shows "runs (shim_op_create E k True w) (\<lambda>(_, w'). inv w')"
  by (cases rule: shim_op_create_cases [of E k w])
    (use assms(3) in \<open>auto simp: allocated_prov intro!: inv_add_op\<close>)

lemmas more_opens_keep =
  info_open_keeps listener_open_keeps endpoint_open_keeps mr_register_keeps op_create_keeps

lemma eq_polled_inv:
  assumes "eq_polled w (x, w')" and "inv w"
  shows "inv w'"
  using assms by (auto simp: eq_polled_def same_heap_def intro!: inv_add_info)

lemma io_keeps:
  assumes "errno_ok E" and "infos_ok E" and "inv w"
  shows "alive (eqs w) e \<Longrightarrow> runs (shim_eq_poll E e True w) (\<lambda>(_, w'). inv w')"
    and "alive (cqs w) q \<Longrightarrow> runs (shim_cq_poll E q True w) (\<lambda>(_, w'). inv w')"
    and "permitted (Post p x m n buf receive) w \<Longrightarrow>
      runs (post_message E p x m n buf receive w) (\<lambda>(_, w'). inv w')"
proof -
  show "runs (shim_eq_poll E e True w) (\<lambda>(_, w'). inv w')" if "alive (eqs w) e"
    using that
  proof (cases rule: aliveE)
    case (live z)
    have "eq_polled w (y, w') \<Longrightarrow> inv w'" for y w' using eq_polled_inv assms(3) by blast
    then show ?thesis using shim_eq_poll_spec [OF assms(3,1,2) live(2)] by (auto elim!: runs_conseq)
  qed (simp add: assms)
  show "runs (shim_cq_poll E q True w) (\<lambda>(_, w'). inv w')" if "alive (cqs w) q"
    using that
  proof (cases rule: aliveE)
    case (live c)
    then show ?thesis using shim_cq_poll_spec [OF assms(3) live(2), of E] by (auto elim!: runs_conseq)
  qed (simp add: assms)
  show "runs (post_message E p x m n buf receive w) (\<lambda>(_, w'). inv w')"
    if "permitted (Post p x m n buf receive) w"
  proof (cases "p = 0 \<or> x = 0 \<or> m = 0")
    case False
    with that obtain ep mr op where h: "endpoints w p = Some ep" "mrs w m = Some mr" "ops w x = Some op"
      by (auto simp: alive_def)
    obtain c where c: "cqs w (if receive then p_rx ep else p_tx ep) = Some c"
      using endpoint_parents [OF assms(3) h(1)] by (cases receive) auto
    obtain ret s where eq: "post_message E p x m n buf receive w = Some
      (if post_checks E ep op mr c n buf receive \<noteq> 0 then (post_checks E ep op mr c n buf receive, w)
       else if ret \<noteq> 0 then (c_int ret, w\<lparr>prov := s\<rparr>)
       else (0, start_op x (posted_op op receive n m (if receive then p_rx ep else p_tx ep)
                  (c_pending c) buf) (w\<lparr>prov := s\<rparr>)))"
      using post_message_eq [OF assms(3,1) h c] by blast
    show ?thesis unfolding eq
      using assms(3) inv_posted [OF assms(3,1) h c] by simp
  qed (use assms(3) in auto)
qed


lemma connect_keeps:
  assumes "errno_ok E" and "inv w" and p: "permitted (ConnectTo p i) w"
  shows "runs (shim_connect E p i w) (\<lambda>(_, w'). inv w')"
proof -
  consider "p = 0" | ep where "endpoints w p = Some ep" "i = 0"
    | ep where "endpoints w p = Some ep" "infos w i \<noteq> None"
    using p by (auto simp: alive_def)
  then show ?thesis
  proof cases
    case (2 ep)
    then show ?thesis using assms(2) by (simp add: shim_connect_def)
  next
    case (3 ep)
    then show ?thesis
      using shim_connect_spec [OF assms(2), of p ep i E] same_heap_inv [OF _ assms(2)]
      by (auto elim!: runs_conseq)
  qed (simp add: assms)
qed

lemma accept_keeps:
  assumes "errno_ok E" and "inv w" and "alive (endpoints w) p"
  shows "runs (shim_accept E p w) (\<lambda>(_, w'). inv w')"
  using assms(3)
proof (cases rule: aliveE)
  case (live ep)
  then show ?thesis
    using shim_accept_spec [OF live(2), of E] same_heap_inv [OF _ assms(2)] by (auto elim!: runs_conseq)
qed (simp add: assms)

lemma reject_keeps:
  assumes "errno_ok E" and "inv w" and p: "permitted (Reject l i) w"
  shows "runs (shim_reject E l i w) (\<lambda>(_, w'). inv w')"
proof -
  consider "l = 0" | y where "listeners w l = Some y" "i = 0"
    | y x where "listeners w l = Some y" "infos w i = Some x" "i \<noteq> 0"
    using p by (auto simp: alive_def)
  then show ?thesis
  proof cases
    case (2 y)
    then show ?thesis using assms(2) by (simp add: shim_reject_def)
  next
    case (3 y x)
    then show ?thesis
      using shim_reject_spec [OF assms(2) 3(1,2), of E] assms(2)
      by (auto intro!: inv_add_info elim!: runs_conseq)
  qed (simp add: assms)
qed

lemma shutdown_keeps:
  assumes "errno_ok E" and "inv w" and "alive (endpoints w) p"
  shows "runs (shim_shutdown E p w) (\<lambda>(_, w'). inv w')"
  using assms(3)
proof (cases rule: aliveE)
  case (live ep)
  have "inv (w\<lparr>endpoints := (endpoints w)(p \<mapsto> ep\<lparr>p_closing := True\<rparr>), prov := s\<rparr>)" for s
    using inv_upd_endpoint [OF assms(2) live(2), of "ep\<lparr>p_closing := True\<rparr>"]
      inv_prov [where w = "w\<lparr>endpoints := (endpoints w)(p \<mapsto> ep\<lparr>p_closing := True\<rparr>)\<rparr>" and p = s] by simp
  then show ?thesis using shim_shutdown_spec [OF assms(2) live(2), of E] assms(2)
    by (auto elim!: runs_conseq)
qed (simp add: assms)

lemma info_free_keeps:
  assumes "errno_ok E" and "inv w" and "alive (infos w) i"
  shows "runs (shim_info_free i w) inv"
  using assms(3)
proof (cases rule: aliveE)
  case (live x)
  then show ?thesis using shim_info_free_eq [OF assms(2) live(2)] assms(2) by (simp add: inv_del_info)
qed (simp add: assms)

lemmas cm_keeps = connect_keeps accept_keeps reject_keeps shutdown_keeps info_free_keeps

lemma closes_keep:
  assumes "errno_ok E" and "inv w"
  shows "alive (fabrics w) a \<Longrightarrow> runs (shim_fabric_close E a w) (\<lambda>(_, w'). inv w')"
    and "alive (domains w) a \<Longrightarrow> runs (shim_domain_close E a w) (\<lambda>(_, w'). inv w')"
    and "alive (eqs w) a \<Longrightarrow> runs (shim_eq_close E a w) (\<lambda>(_, w'). inv w')"
    and "alive (cqs w) a \<Longrightarrow> runs (shim_cq_close E a w) (\<lambda>(_, w'). inv w')"
    and "alive (listeners w) a \<Longrightarrow> runs (shim_listener_close E a w) (\<lambda>(_, w'). inv w')"
    and "alive (endpoints w) a \<Longrightarrow> runs (shim_endpoint_close E a w) (\<lambda>(_, w'). inv w')"
    and "alive (mrs w) a \<Longrightarrow> runs (shim_mr_close E a w) (\<lambda>(_, w'). inv w')"
    and "alive (ops w) a \<Longrightarrow> runs (shim_op_free E a w) (\<lambda>(_, w'). inv w')"
  using assms
  by (auto simp: alive_def
      dest: fabric_h.close_live domain_h.close_live eq_h.close_live cq_h.close_live listener_h.close_live
        endpoint_h.close_live mr_h.close_live op_h.close_live
      elim!: runs_conseq)

text \<open>Every permitted call returns, in a consistent world.\<close>

lemma perform_keeps:
  assumes "errno_ok E" and "infos_ok E" and "inv w" and "permitted c w"
  shows "runs (perform E c w) (\<lambda>(r, w'). inv w')"
proof -
  have code: "runs m (\<lambda>x. case code_of x of (r, w') \<Rightarrow> inv w')" if "runs m (\<lambda>(_, w'). inv w')"
    for m :: "((int \<times> 'o) \<times> 'p world) option"
    using that by (auto simp: code_of_def elim!: runs_conseq)
  note k = opens_keep [OF assms(1,3)] more_opens_keep [OF assms(1-3)] io_keeps [OF assms(1-3)]
    cm_keeps [OF assms(1,3)] closes_keep [OF assms(1,3)]
  show ?thesis
    using assms(4)
    by (cases c) (auto intro!: code intro: k simp: shim_post_recv_def shim_post_send_def
        elim!: runs_conseq simp del: null_calls null_calls2)
qed

subsection \<open>Histories\<close>

text \<open>
  What the process does between calls: it boxes a buffer, writes into one without changing
  its length, and frees one that no live registration covers.
\<close>

inductive shim_step :: "'p lib \<Rightarrow> 'p world \<Rightarrow> 'p world \<Rightarrow> bool" for E where
  call: "permitted c w \<Longrightarrow> perform E c w = Some (r, w') \<Longrightarrow> shim_step E w w'"
| boxed: "a \<noteq> 0 \<Longrightarrow> \<not> allocated w a \<Longrightarrow> shim_step E w (w\<lparr>mem := (mem w)(a \<mapsto> bs)\<rparr>)"
| written: "mem w a = Some bs \<Longrightarrow> length bs' = length bs \<Longrightarrow>
    shim_step E w (w\<lparr>mem := (mem w)(a \<mapsto> bs')\<rparr>)"
| unboxed: "\<forall>b m. mrs w b = Some m \<longrightarrow> m_buffer m \<noteq> a \<Longrightarrow>
    shim_step E w (w\<lparr>mem := (mem w)(a := None)\<rparr>)"

lemma inv_box:
  assumes "inv w" and "a \<noteq> 0" and "\<not> allocated w a"
  shows "inv (w\<lparr>mem := (mem w)(a \<mapsto> bs)\<rparr>)"
proof -
  have none: "mem w a = None" using fresh_maps [OF assms(3)] by simp
  have "mrs_backed (mrs w) ((mem w)(a \<mapsto> bs))"
    using assms(1) none by (fastforce simp: inv_def mrs_backed_def mr_backed_def)
  then show ?thesis using assms(1,2) by (simp add: inv_def inv_structure)
qed

lemma inv_unbox:
  assumes "inv w" and "\<forall>b m. mrs w b = Some m \<longrightarrow> m_buffer m \<noteq> a"
  shows "inv (w\<lparr>mem := (mem w)(a := None)\<rparr>)"
proof -
  have "mrs_backed (mrs w) ((mem w)(a := None))"
    using assms by (fastforce simp: inv_def mrs_backed_def mr_backed_def)
  then show ?thesis using assms(1) by (simp add: inv_def inv_structure)
qed

lemma shim_step_inv:
  assumes "shim_step E w w'" and "errno_ok E" and "infos_ok E" and "inv w"
  shows "inv w'"
  using assms(1)
proof (cases rule: shim_step.cases)
  case (call c r)
  then show ?thesis using perform_keeps [OF assms(2-4) call(1)] by simp
next
  case (boxed a bs)
  then show ?thesis using inv_box [OF assms(4)] by simp
next
  case (written a bs bs')
  then show ?thesis using inv_mem [OF assms(4)] by simp
next
  case (unboxed a)
  then show ?thesis using inv_unbox [OF assms(4)] by simp
qed

lemma history_inv:
  assumes "(shim_step E)\<^sup>*\<^sup>* w0 w" and "errno_ok E" and "infos_ok E" and "inv w0"
  shows "inv w"
  using assms(1)
proof (induction rule: rtranclp_induct)
  case base
  show ?case by (rule assms(4))
next
  case (step y z)
  then show ?case by (blast intro: shim_step_inv assms(2,3))
qed

subsection \<open>Reference counts are exact\<close>

lemma kids_none_iff:
  assumes "m 0 = None"
  shows "kids m k a = 0 \<longleftrightarrow> (\<forall>b x. m b = Some x \<longrightarrow> k x \<noteq> a)"
proof
  assume "kids m k a = 0"
  then show "\<forall>b x. m b = Some x \<longrightarrow> k x \<noteq> a"
    using refs_zero1 [of m "\<lambda>x. k x = a"] assms unfolding kids_def by blast
next
  assume "\<forall>b x. m b = Some x \<longrightarrow> k x \<noteq> a"
  then show "kids m k a = 0" unfolding kids_def by (intro refs_none) blast
qed

text \<open>Each counter of the ledger is zero exactly when no live object refers to its owner.\<close>

lemma domain_counter:
  assumes "inv w" and "domains w a = Some d"
  shows "d_children d = 0 \<longleftrightarrow>
      (\<forall>b x. cqs w b = Some x \<longrightarrow> c_domain x \<noteq> a) \<and> (\<forall>b x. mrs w b = Some x \<longrightarrow> m_domain x \<noteq> a) \<and>
      (\<forall>b x. endpoints w b = Some x \<longrightarrow> p_domain x \<noteq> a)"
proof -
  note null = inv_nullD [OF assms(1)]
  have "d_children d = kids (cqs w) c_domain a + kids (mrs w) m_domain a + kids (endpoints w) p_domain a"
    using assms by (simp add: inv_def inv_counts_def counted_def)
  then have "d_children d = 0 \<longleftrightarrow> kids (cqs w) c_domain a = 0 \<and> kids (mrs w) m_domain a = 0 \<and>
      kids (endpoints w) p_domain a = 0"
    using kids_zero3 [of "cqs w" c_domain a "mrs w" m_domain "endpoints w" p_domain] assms(1) null
    by (auto simp: inv_def inv_apart_def)
  then show ?thesis by (simp add: kids_none_iff null)
qed

lemma fabric_counter:
  assumes "inv w" and "fabrics w a = Some f"
  shows "f_children f = 0 \<longleftrightarrow>
      (\<forall>b x. domains w b = Some x \<longrightarrow> d_fabric x \<noteq> a) \<and> (\<forall>b x. eqs w b = Some x \<longrightarrow> e_fabric x \<noteq> a) \<and>
      (\<forall>b x. listeners w b = Some x \<longrightarrow> l_fabric x \<noteq> a)"
proof -
  note null = inv_nullD [OF assms(1)]
  have "f_children f = kids (domains w) d_fabric a + kids (eqs w) e_fabric a + kids (listeners w) l_fabric a"
    using assms by (simp add: inv_def inv_counts_def counted_def)
  then have "f_children f = 0 \<longleftrightarrow> kids (domains w) d_fabric a = 0 \<and> kids (eqs w) e_fabric a = 0 \<and>
      kids (listeners w) l_fabric a = 0"
    using kids_zero3 [of "domains w" d_fabric a "eqs w" e_fabric "listeners w" l_fabric] assms(1) null
    by (auto simp: inv_def inv_apart_def)
  then show ?thesis by (simp add: kids_none_iff null)
qed

lemma eq_counter:
  assumes "inv w" and "eqs w a = Some e"
  shows "e_users e = 0 \<longleftrightarrow>
      (\<forall>b x. listeners w b = Some x \<longrightarrow> l_eq x \<noteq> a) \<and> (\<forall>b x. endpoints w b = Some x \<longrightarrow> p_eq x \<noteq> a)"
proof -
  note null = inv_nullD [OF assms(1)]
  have "e_users e = kids (listeners w) l_eq a + kids (endpoints w) p_eq a"
    using assms by (simp add: inv_def inv_counts_def counted_def)
  then have "e_users e = 0 \<longleftrightarrow> kids (listeners w) l_eq a = 0 \<and> kids (endpoints w) p_eq a = 0"
    using kids_zero2 [of "listeners w" l_eq a "endpoints w" p_eq] assms(1) null
    by (auto simp: inv_def inv_apart_def)
  then show ?thesis by (simp add: kids_none_iff null)
qed

lemma mr_counter:
  assumes "inv w" and "mrs w a = Some r"
  shows "m_pending r = 0 \<longleftrightarrow> (\<forall>b x. ops w b = Some x \<longrightarrow> o_mr x \<noteq> a)"
proof -
  have "m_pending r = kids (ops w) o_mr a"
    using assms by (simp add: inv_def inv_counts_def counted_def)
  then show ?thesis by (simp add: kids_none_iff inv_nullD [OF assms(1)])
qed

lemmas counters_exact = domain_counter fabric_counter eq_counter mr_counter

end
