(* ===== verification/Shim_Facts.thy ===== *)
theory Shim_Facts
  imports Shim_Api
begin

text \<open>
  Consequences of the refinement lemmas that the interface promises to its callers: when a
  close is refused, what closing an endpoint releases, and what posting a message has checked.
\<close>

text \<open>A domain is busy exactly while a queue, a region or an endpoint of it is alive.\<close>

definition domain_in_use :: "'p world \<Rightarrow> addr \<Rightarrow> bool" where
  "domain_in_use w a \<longleftrightarrow> (\<exists>b x. cqs w b = Some x \<and> c_domain x = a) \<or>
     (\<exists>b x. mrs w b = Some x \<and> m_domain x = a) \<or> (\<exists>b x. endpoints w b = Some x \<and> p_domain x = a)"

lemma domain_close_exact:
  assumes "inv w" and "domains w a = Some d"
  shows "shim_domain_close E a w = Some
    (if domain_in_use w a then (- errno E FI_EBUSY, w)
     else (let (r, p) = fi_close E (d_raw d) (prov w)
           in if r = 0 then (0, del_domain a d (w\<lparr>prov := p\<rparr>)) else (r, w\<lparr>prov := p\<rparr>)))"
proof -
  have "d_children d = 0 \<longleftrightarrow> \<not> domain_in_use w a"
    unfolding counters_exact(1) [OF assms] domain_in_use_def by blast
  then show ?thesis
    unfolding shim_domain_close_eq [OF assms]
    by (auto simp: close_step_def call_def split: prod.splits)
qed

text \<open>Closing an endpoint releases the regions its operations borrowed and retires its queues.\<close>

lemma endpoint_close_releases:
  assumes "inv w" and "endpoints w a = Some p" and "shim_endpoint_close E a w = Some (0, w')"
    and "errno_ok E"
  shows "inv w'" and "endpoints w' a = None"
    and "ops w' x = Some op \<Longrightarrow> o_cq op = p_tx p \<or> o_cq op = p_rx p \<Longrightarrow> o_mr op = 0"
    and "cqs w' q = Some c \<Longrightarrow> q = p_tx p \<or> q = p_rx p \<Longrightarrow> c_retired c \<and> \<not> c_attached c"
proof -
  have "runs (shim_endpoint_close E a w) (\<lambda>(r, w'). inv w' \<and>
      (\<forall>b. (endpoints w' b \<noteq> None) = (endpoints w b \<noteq> None \<and> (r = 0 \<longrightarrow> b \<noteq> a))))"
    using endpoint_h.close_live [OF assms(4,1)] assms(2) by simp
  then show "inv w'" and "endpoints w' a = None" using assms(3) by auto
  obtain s where w': "w' = del_endpoint a p
      (w\<lparr>endpoints := (endpoints w)(a \<mapsto> p\<lparr>p_closing := True\<rparr>), prov := s\<rparr>)"
    using assms(3) unfolding shim_endpoint_close_eq [OF assms(1,2)]
    by (auto simp: close_step_def call_def split: prod.splits if_splits)
  show "o_mr op = 0" if "ops w' x = Some op" "o_cq op = p_tx p \<or> o_cq op = p_rx p"
  proof -
    have "retire_ops (p_rx p) (retire_ops (p_tx p) (ops w)) x = Some op"
      using that(1) by (simp add: w' del_endpoint_def Let_def)
    then obtain op' where "op = (if o_cq op' = p_tx p \<or> o_cq op' = p_rx p then op'\<lparr>o_mr := 0\<rparr> else op')"
      by (rule retire2_Some)
    then show ?thesis using that(2) by (auto split: if_splits)
  qed
  show "c_retired c \<and> \<not> c_attached c" if "cqs w' q = Some c" "q = p_tx p \<or> q = p_rx p"
    using that by (auto simp: w' del_endpoint_def Let_def bump_apply split: if_splits)
qed

text \<open>
  Posting either changes nothing but the library's state, or puts one idle operation in
  flight, after every check: a ready endpoint of the region's domain, the access asked for,
  the whole range inside the region and the endpoint's limit, and room in the queue.
\<close>

definition post_admitted :: "shim_endpoint \<Rightarrow> shim_op \<Rightarrow> shim_mr \<Rightarrow> shim_cq \<Rightarrow> size_t \<Rightarrow> addr \<Rightarrow> bool \<Rightarrow> bool" where
  "post_admitted p x m c n buf receive \<longleftrightarrow> p_ready p \<and> \<not> p_closing p \<and> m_domain m = p_domain p \<and>
     o_cq x = 0 \<and> m_access m AND (if receive then SHIM_ACCESS_RECV else SHIM_ACCESS_SEND) \<noteq> 0 \<and>
     m_buffer m \<le> buf \<and> unat (buf - m_buffer m) + unat n \<le> unat (m_capacity m) \<and> n \<le> p_max_msg p \<and>
     c_count c < c_capacity c"

lemma post_checks_admitted:
  assumes "post_checks E p x m c n buf receive = 0" and "errno_ok E"
  shows "post_admitted p x m c n buf receive"
proof -
  have "\<not> buf - m_buffer m > m_capacity m" "\<not> n > m_capacity m - (buf - m_buffer m)"
    using assms by (auto simp: post_checks_def split: if_splits)
  from region_fits [OF this] show ?thesis
    using assms by (auto simp: post_checks_def post_admitted_def not_less split: if_splits)
qed

lemma post_message_exact:
  assumes "inv w" and "errno_ok E" and "endpoints w ep = Some p" and "mrs w mr = Some m"
    and "ops w op = Some x" and "cqs w (if receive then p_rx p else p_tx p) = Some c"
  shows "\<exists>r w'. post_message E ep op mr n buf receive w = Some (r, w') \<and> inv w' \<and>
    (same_heap w w' \<or> r = 0 \<and> post_admitted p x m c n buf receive \<and>
      (\<exists>s. w' = start_op op (posted_op x receive n mr (if receive then p_rx p else p_tx p)
        (c_pending c) buf) (w\<lparr>prov := s\<rparr>)))"
proof -
  obtain ret s where eq: "post_message E ep op mr n buf receive w = Some
    (if post_checks E p x m c n buf receive \<noteq> 0 then (post_checks E p x m c n buf receive, w)
     else if ret \<noteq> 0 then (c_int ret, w\<lparr>prov := s\<rparr>)
     else (0, start_op op (posted_op x receive n mr (if receive then p_rx p else p_tx p)
                (c_pending c) buf) (w\<lparr>prov := s\<rparr>)))"
    using post_message_eq [OF assms] by blast
  consider "post_checks E p x m c n buf receive \<noteq> 0"
    | "post_checks E p x m c n buf receive = 0" "ret \<noteq> 0"
    | "post_checks E p x m c n buf receive = 0" "ret = 0" by blast
  then show ?thesis
  proof cases
    case 3
    show ?thesis unfolding eq using 3 inv_posted [OF assms 3(1)] post_checks_admitted [OF 3(1) assms(2)]
      by auto
  qed (use eq assms(1) in auto)
qed

end
