(* ===== verification/Print_Info.thy ===== *)
theory Print_Info
  imports Shim_Refine_Info Transport
begin

text \<open>
  \<^verbatim>\<open>shim_print_info\<close> of \<^verbatim>\<open>naive/fabric_shim.c\<close> (lines 32 to 113) and its wrapper
  \<open>print_info\<close> of \<^verbatim>\<open>src/fabric.rs\<close>: listing the candidates of one query. What is printed goes
  to the console; nothing is kept.
\<close>

subsection \<open>Printing\<close>

text \<open>\<^verbatim>\<open>PRIx64\<close>: hexadecimal digits without leading zeros.\<close>

definition hex_digit :: "nat \<Rightarrow> char" where
  "hex_digit n = (if n < 10 then char_of (48 + n) else char_of (87 + n))"

fun show_hex :: "nat \<Rightarrow> string" where
  "show_hex n = (if n < 16 then [hex_digit n] else show_hex (n div 16) @ [hex_digit (n mod 16)])"

declare show_hex.simps [simp del]

definition display_name :: "string option \<Rightarrow> string" where
  "display_name s = (case s of Some n \<Rightarrow> n | None \<Rightarrow> ''(null)'')"

text \<open>Lines 83 to 107 for one candidate; every attribute pointer is dereferenced.\<close>

definition candidate_lines :: "nat \<Rightarrow> fi_info \<Rightarrow> string list option" where
  "candidate_lines index p = do {
     fa \<leftarrow> fabric_attr p;
     da \<leftarrow> domain_attr p;
     ea \<leftarrow> ep_attr p;
     _ \<leftarrow> tx_op_flags p;
     _ \<leftarrow> rx_op_flags p;
     Some [''candidate['' @ show_nat index @ '']'',
       ''  provider: '' @ display_name (prov_name fa),
       ''  fabric:   '' @ display_name (fab_name fa),
       ''  domain:   '' @ display_name (dom_name da),
       ''  endpoint: '' @ (if ep_type ea = FI_EP_MSG then ''FI_EP_MSG'' else ''unexpected''),
       ''  caps:     0x'' @ show_hex (unat (fi_caps p)),
       ''  mode:     0x'' @ show_hex (unat (fi_mode p)),
       ''  mr_mode:  0x'' @ show_hex (unat (mr_mode da) mod 2 ^ 32),
       ''  max_msg_size: '' @ show_nat (unat (max_msg_size ea)),
       ''  tx_size:      '' @ show_nat (unat (tx_size p)),
       ''  rx_size:      '' @ show_nat (unat (rx_size p)),
       ''  inject_size:  '' @ show_nat (unat (inject_size p))]
   }"

fun print_candidates :: "nat \<Rightarrow> fi_info list \<Rightarrow> 'p world \<Rightarrow> 'p world option" where
  "print_candidates index [] w = Some w"
| "print_candidates index (p # ps) w = do {
     ls \<leftarrow> candidate_lines index p;
     print_candidates (index + 1) ps (w\<lparr>console := console w @ ls\<rparr>)
   }"

definition print_query :: "'p lib \<Rightarrow> string \<Rightarrow> fi_info \<Rightarrow> 'p world \<Rightarrow> (int \<times> 'p world) option" where
  "print_query E local_ip hints w =
     (let ((ret, results), w) = call (fi_getinfo E local_ip None (FI_SOURCE E) hints) w;
          w = (if results \<noteq> [] then take_info w else w)
      in if ret \<noteq> 0
         then Some (ret, free_query results
                (eprint (''fi_getinfo: '' @ fi_strerror E (- ret) @ '' ('' @ show_int ret @ '')'') w))
         else do {
           w \<leftarrow> print_candidates 0 results w;
           Some (ret, free_query results w)
         })"

definition shim_print_info :: "'p lib \<Rightarrow> string option \<Rightarrow> string option \<Rightarrow> 'p world
    \<Rightarrow> (int \<times> 'p world) option" where
  "shim_print_info E local_ip domain_name w =
     (if local_ip = None \<or> local_ip = Some '''' then
        Some (- errno E FI_EINVAL, eprint ''local_ip is NULL or empty'' w)
      else (let (hints, w) = call (fi_allocinfo E) w in
        case hints of
          None \<Rightarrow> Some (- errno E FI_ENOMEM, w)
        | Some h \<Rightarrow> do {
            let w = take_info w;
            h \<leftarrow> fill_hints E h;
            let (name, w) = copy_string E ''verbs'' w;
            h \<leftarrow> set_prov_name name h;
            if name = None then Some (- errno E FI_ENOMEM, fi_freeinfo w)
            else (case domain_name of
                None \<Rightarrow> print_query E (the local_ip) h w
              | Some d \<Rightarrow> do {
                  let (name, w) = copy_string E d w;
                  h \<leftarrow> set_dom_name name h;
                  if name = None then Some (- errno E FI_ENOMEM, fi_freeinfo w)
                  else print_query E (the local_ip) h w
                })
          }))"

text \<open>The wrapper: \<^verbatim>\<open>CString::new\<close> refuses an embedded NUL, of either argument.\<close>

definition print_info :: "'p lib \<Rightarrow> string \<Rightarrow> string option \<Rightarrow> 'p world \<Rightarrow> (unit result \<times> 'p world) option" where
  "print_info E local_ip domain_name w =
     (if has_nul local_ip then Some (Inl ''local_ip include NUL '', w)
      else if (case domain_name of None \<Rightarrow> False | Some d \<Rightarrow> has_nul d)
      then Some (Inl ''domain_name include NUL '', w)
      else do {
        (ret, w) \<leftarrow> shim_print_info E (Some local_ip) domain_name w;
        Some (if ret \<noteq> 0
          then Inl (''can not print libfabric info, error code:'' @ show_int ret)
          else Inr (), w)
      })"

subsection \<open>Nothing is kept\<close>

text \<open>\<^verbatim>\<open>fi_getinfo(3)\<close>: a returned record carries its attribute structures.\<close>

definition results_ok :: "'p lib \<Rightarrow> bool" where
  "results_ok E \<longleftrightarrow> (\<forall>n s fl h p ret rs p'. fi_getinfo E n s fl h p = ((ret, rs), p') \<longrightarrow>
     (\<forall>r\<in>set rs. info_wf r))"

lemma candidate_lines_total: "info_wf p \<Longrightarrow> \<exists>ls. candidate_lines k p = Some ls \<and> length ls = 12"
  by (auto simp: info_wf_def candidate_lines_def)

lemma print_candidates_total:
  "\<forall>r\<in>set rs. info_wf r \<Longrightarrow>
    \<exists>ms. print_candidates k rs w = Some (w\<lparr>console := console w @ ms\<rparr>) \<and> length ms = 12 * length rs"
proof (induction rs arbitrary: k w)
  case Nil
  show ?case by (intro exI [of _ "[]"]) simp
next
  case (Cons p ps)
  obtain ls where ls: "candidate_lines k p = Some ls" "length ls = 12"
    using candidate_lines_total Cons.prems by (meson list.set_intros(1))
  obtain ms where "print_candidates (k + 1) ps (w\<lparr>console := console w @ ls\<rparr>) =
      Some (w\<lparr>console := console w @ ls @ ms\<rparr>)" "length ms = 12 * length ps"
    using Cons.IH [of "k + 1" "w\<lparr>console := console w @ ls\<rparr>"] Cons.prems by auto
  with ls show ?case by (intro exI [of _ "ls @ ms"]) simp
qed

text \<open>The world after a call that only printed.\<close>

definition printed :: "'p world \<Rightarrow> 'p world \<Rightarrow> bool" where
  "printed w w' \<longleftrightarrow> (\<exists>p ms. w' = w\<lparr>prov := p, console := console w @ ms\<rparr>)"

lemma printedI [simp]:
  "printed w (w\<lparr>prov := p, console := console w @ ms\<rparr>)" "printed w (w\<lparr>prov := p\<rparr>)"
  "printed w (eprint s w)" "printed w w"
proof -
  show all: "printed w (w\<lparr>prov := p, console := console w @ ms\<rparr>)" for p ms by (auto simp: printed_def)
  from all [of "[]" p] all [of "[s]" "prov w"] all [of "[]" "prov w"]
  show "printed w (w\<lparr>prov := p\<rparr>)" "printed w (eprint s w)" "printed w w" by (simp_all add: eprint_def)
qed

lemma print_query_spec:
  assumes "results_ok E" and "w' = (take_info w)\<lparr>prov := p\<rparr>"
  shows "runs (print_query E ip h w') (\<lambda>(r, v). printed w v)"
proof -
  obtain ret rs q where gi: "fi_getinfo E ip None (FI_SOURCE E) h p = ((ret, rs), q)"
    by (metis prod.exhaust)
  have wf: "\<forall>r\<in>set rs. info_wf r" using assms(1) gi unfolding results_ok_def by blast
  define u where "u = (if rs \<noteq> [] then take_info (w'\<lparr>prov := q\<rparr>) else w'\<lparr>prov := q\<rparr>)"
  have pq: "print_query E ip h w' =
     (if ret \<noteq> 0 then Some (ret, free_query rs
         (eprint (''fi_getinfo: '' @ fi_strerror E (- ret) @ '' ('' @ show_int ret @ '')'') u))
      else Option.bind (print_candidates 0 rs u) (\<lambda>w. Some (ret, free_query rs w)))"
    by (simp add: print_query_def call_def gi assms(2) u_def)
  have free: "free_query rs (u\<lparr>console := console u @ ms\<rparr>) = w\<lparr>prov := q, console := console w @ ms\<rparr>" for ms
    by (simp add: free_query_def take_info_def fi_freeinfo_def u_def assms(2))
  obtain ms where pr: "print_candidates 0 rs u = Some (u\<lparr>console := console u @ ms\<rparr>)"
    using print_candidates_total [OF wf] by blast
  show ?thesis unfolding pq pr by (simp add: eprint_def free)
qed

text \<open>The domain name, where one is given, is copied into the hints before the query.\<close>

lemma print_hints_spec:
  fixes w :: "'a world"
  assumes "results_ok E" and "info_wf h" and "v = (take_info (w\<lparr>prov := p\<rparr>))\<lparr>prov := p1\<rparr>"
  shows "runs (case d of
      None \<Rightarrow> print_query E i h v
    | Some d \<Rightarrow> do {
        let (name, w) = copy_string E d v;
        h \<leftarrow> set_dom_name name h;
        if name = None then Some (- errno E FI_ENOMEM, fi_freeinfo w)
        else print_query E i h w
      }) (\<lambda>(r, v). printed w v)"
proof -
  have freed: "fi_freeinfo ((take_info (w\<lparr>prov := p\<rparr>))\<lparr>prov := q\<rparr>) = w\<lparr>prov := q\<rparr>" for q
    by (simp add: take_info_def fi_freeinfo_def)
  have query: "runs (print_query E i h' ((take_info (w\<lparr>prov := p\<rparr>))\<lparr>prov := q\<rparr>)) (\<lambda>(r, v). printed w v)" for h' q
    by (rule print_query_spec [OF assms(1), where w = w and p = q]) (simp add: take_info_def)
  show ?thesis
  proof (cases d)
    case None
    then show ?thesis using query [of h p1] assms(3) by simp
  next
    case (Some dn)
    obtain ok2 p2 where m2: "c_malloc E p1 = (ok2, p2)" by (metis prod.exhaust)
    obtain h3 where h3: "set_dom_name (if ok2 then Some dn else None) h = Some h3"
      using assms(2) by (auto simp: set_dom_name_def info_wf_def)
    show ?thesis
      using Some m2 h3 query [of h3 p2] freed [of p2] assms(3)
      by (cases ok2) (simp_all add: call_def copy_string_def malloc_def Let_def)
  qed
qed

lemma shim_print_info_spec:
  fixes w :: "'a world"
  assumes "results_ok E" and "infos_ok E"
  shows "runs (shim_print_info E ip d w) (\<lambda>(r, v). printed w v)"
proof (cases "ip = None \<or> ip = Some ''''")
  case True
  then show ?thesis by (auto simp: shim_print_info_def)
next
  case False
  then obtain i where ip: "ip = Some i" "i \<noteq> ''''" by auto
  obtain ho p where al: "fi_allocinfo E (prov w) = (ho, p)" by (metis prod.exhaust)
  show ?thesis
  proof (cases ho)
    case None
    then show ?thesis using ip al by (simp add: shim_print_info_def call_def)
  next
    case (Some h)
    then have wf: "info_wf h" using infos_okD(1) [OF assms(2)] al by blast
    obtain h1 where h1: "fill_hints E h = Some h1" "info_wf h1"
      using wf by (auto simp: fill_hints_def info_wf_def)
    obtain ok1 p1 where m1: "c_malloc E p = (ok1, p1)" by (metis prod.exhaust)
    obtain h2 where h2: "set_prov_name (if ok1 then Some ''verbs'' else None) h1 = Some h2" "info_wf h2"
      using h1(2) by (auto simp: set_prov_name_def info_wf_def)
    note copied = copy_string_def malloc_def call_def
    have freed: "fi_freeinfo ((take_info (w\<lparr>prov := p\<rparr>))\<lparr>prov := p1\<rparr>) = w\<lparr>prov := p1\<rparr>"
      and prov_take: "prov (take_info (w\<lparr>prov := p\<rparr>)) = p"
      by (simp_all add: take_info_def fi_freeinfo_def)
    show ?thesis
      unfolding shim_print_info_def ip(1) option.sel
      using ip al Some h1(1) h2(1) m1 freed prov_take print_hints_spec [OF assms(1) h2(2) refl, where w = w and p = p and ?p1.0 = p1 and d = d and i = i]
      by (cases ok1; cases d) (simp_all add: copied Let_def)
  qed
qed

lemma print_info_spec:
  assumes "results_ok E" and "infos_ok E"
  shows "runs (print_info E ip d w) (\<lambda>(r, v). printed w v)"
  using shim_print_info_spec [OF assms, of "Some ip" d w]
  by (auto simp: print_info_def elim!: runs_conseq split: option.splits)

end
