(* ===== verification/Text_Spec.thy ===== *)
theory Text_Spec
  imports Fabric Transport
begin

text \<open>
  Text and numbers on their way through the program: the timeout argument, the error texts
  that cross from C to Rust, and how two errors are combined.
\<close>

subsection \<open>The timeout argument\<close>

lemma show_nat_digits: "list_all is_digit (show_nat n) \<and> show_nat n \<noteq> []"
proof (induction n rule: show_nat.induct)
  case (1 n)
  have d: "is_digit (char_of (48 + k))" if "k < 10" for k :: nat using that by (simp add: is_digit_def)
  show ?case
  proof (cases "n < 10")
    case True
    then show ?thesis using d [of n] by (simp add: show_nat.simps [of n])
  next
    case False
    then show ?thesis using 1 d [of "n mod 10"] by (simp add: show_nat.simps [of n])
  qed
qed

lemma parse_show_u64:
  assumes "n < 2 ^ 64"
  shows "parse_u64 (show_nat n) = Some n" and "parse_u64 (CHR ''+'' # show_nat n) = Some n"
proof -
  have d: "list_all is_digit (show_nat n)" "show_nat n \<noteq> []" using show_nat_digits by simp_all
  obtain c cs where s: "show_nat n = c # cs" using d(2) by (cases "show_nat n") auto
  have "c \<noteq> CHR ''+''" using d(1) s by (auto simp: is_digit_def)
  then show "parse_u64 (show_nat n) = Some n"
    using assms d read_show_nat [of n] by (simp add: parse_u64_def s)
  show "parse_u64 (CHR ''+'' # show_nat n) = Some n"
    using assms d read_show_nat [of n] by (simp add: parse_u64_def)
qed

lemma parse_u64_bound: "parse_u64 s = Some n \<Longrightarrow> n < 2 ^ 64"
  by (auto simp: parse_u64_def Let_def split: if_splits)

lemma parse_timeout_bounds:
  assumes "parse_timeout usage args = Inr n"
  shows "1 \<le> n" and "n \<le> 3600" and "1 \<le> length args" and "length args \<le> 4"
    and "length args < 4 \<longrightarrow> n = 30"
  using assms by (auto simp: parse_timeout_def arg_def Suc_le_eq split: if_splits option.splits)

text \<open>Every timeout in range is accepted as it is written.\<close>

lemma parse_timeout_accepts:
  assumes "1 \<le> n" and "n \<le> 3600" and "length args = 4" and "args ! 3 = show_nat n"
  shows "parse_timeout usage args = Inr n"
  using assms parse_show_u64(1) [of n] by (auto simp: parse_timeout_def arg_def)

subsection \<open>Error text\<close>

text \<open>An accepted sequence is accepted again in front of anything.\<close>

lemma utf8_tail_again:
  assumes "utf8_tail b bs = (n, True)"
  shows "n \<le> length bs" and "utf8_tail b (take n bs @ rest) = (n, True)"
  using assms
  by (auto simp: utf8_tail_def Let_def split: if_splits list.splits)

lemma lossy_accepted:
  assumes "utf8_tail b bs = (n, True)"
  shows "from_utf8_lossy (b # take n bs @ rest) = b # take n bs @ from_utf8_lossy rest"
  using utf8_tail_again(1) [OF assms] utf8_tail_again(2) [OF assms, of rest] by simp

lemma lossy_replacement: "from_utf8_lossy (replacement @ rest) = replacement @ from_utf8_lossy rest"
proof -
  let ?b = "char_of (0xEF :: nat)" and ?t = "[char_of (0xBF :: nat), char_of (0xBD :: nat)]"
  have "utf8_tail ?b ?t = (2, True)"
    by (simp add: utf8_tail_def utf8_width_def utf8_second_def byte_in_def)
  from lossy_accepted [OF this, of rest] show ?thesis by (simp add: replacement_def)
qed

text \<open>So what the conversion produces is well-formed: converting it again changes nothing.\<close>

lemma lossy_idempotent: "from_utf8_lossy (from_utf8_lossy s) = from_utf8_lossy s"
proof (induction s rule: from_utf8_lossy.induct)
  case 1
  show ?case by simp
next
  case (2 b bs)
  obtain n ok where t: "utf8_tail b bs = (n, ok)" by (metis prod.exhaust)
  have ih: "from_utf8_lossy (from_utf8_lossy (drop n bs)) = from_utf8_lossy (drop n bs)"
    using "2.IH" [of "(n, ok)" n ok] t by simp
  show ?case
  proof (cases ok)
    case True
    with t have "utf8_tail b bs = (n, True)" by simp
    from lossy_accepted [OF this, of "from_utf8_lossy (drop n bs)"] show ?thesis
      using t True ih by simp
  next
    case False
    then show ?thesis using t ih lossy_replacement by simp
  qed
qed

definition ascii :: "string \<Rightarrow> bool" where
  "ascii s = list_all (\<lambda>c. (of_char c :: nat) < 0x80) s"

lemma lossy_ascii: "ascii s \<Longrightarrow> from_utf8_lossy s = s"
proof (induction s)
  case (Cons c cs)
  then have "utf8_tail c cs = (0, True)" by (simp add: ascii_def utf8_tail_def utf8_width_def byte_in_def)
  then show ?case using Cons by (simp add: ascii_def)
qed simp

text \<open>What the shim copies into a completion or event is what Rust reads out of it.\<close>

lemma takeWhile_c_text:
  assumes "CHR 0x00 \<notin> set s"
  shows "take_until_nul (c_text s) = take (SHIM_ERROR_TEXT_SIZE - 1) s"
proof -
  let ?t = "take (SHIM_ERROR_TEXT_SIZE - 1) s"
  have n: "SHIM_ERROR_TEXT_SIZE - length ?t > 0" by (simp add: SHIM_ERROR_TEXT_SIZE_def)
  have "CHR 0x00 \<notin> set ?t" using assms by (meson in_set_takeD)
  then have "takeWhile (\<lambda>c. c \<noteq> CHR 0x00) (?t @ replicate (SHIM_ERROR_TEXT_SIZE - length ?t) (CHR 0x00)) = ?t"
    using n by (subst takeWhile_append2) (auto simp: takeWhile_replicate)
  then show ?thesis by (simp add: take_until_nul_def c_text_def)
qed

lemma text_crosses:
  assumes "CHR 0x00 \<notin> set s" and "ascii s" and "length s < SHIM_ERROR_TEXT_SIZE"
  shows "error_text (c_text s) = s"
proof -
  have "take_until_nul (c_text s) = s" using takeWhile_c_text [OF assms(1)] assms(3) by simp
  then show ?thesis using lossy_ascii [OF assms(2)] by (simp add: error_text_def)
qed

subsection \<open>Combining results\<close>

lemma finish_ok: "finish r c = Inr () \<longleftrightarrow> r = Inr () \<and> c = Inr ()"
  by (cases r; cases c) (simp_all add: finish_def)

text \<open>The primary error comes first, and a cleanup error is never hidden.\<close>

lemma finish_error:
  assumes "finish r c = Inl e"
  shows "(\<exists>a. r = Inl a \<and> take (length a) e = a) \<or> r = Inr () \<and> c = Inl e"
    and "\<forall>b. c = Inl b \<longrightarrow> (\<exists>pre. e = pre @ b)"
  using assms by (cases r; cases c; auto simp: finish_def)+

lemma check_ok: "check E code name = Inr () \<longleftrightarrow> code = 0"
  by (simp add: check_def)

end
