(* ===== verification/Client_Double.thy ===== *)
theory Client_Double
  imports Client_Spec
begin

text \<open>
  The scripted transports that drive the client's event loop without a device
  (\<^verbatim>\<open>src/bin/clients.rs\<close>, tests): they implement the \<open>ClientIo\<close> trait over a script, so the
  loop's behaviour over them can be stated for every clock.
\<close>

record fake_io =
  events :: "event list list"
  attempts :: "bytes list"
  again :: bool

definition fake_poll :: "(fake_io \<times> 'p world, event list) rust" where
  "fake_poll = (\<lambda>(io, w). Some (case events io of
       [] \<Rightarrow> (Inr [], (io, w))
     | es # rest \<Rightarrow> (Inr es, (io\<lparr>events := rest\<rparr>, w))))"

text \<open>An unexpected payload is a panic.\<close>

definition fake_send :: "bytes \<Rightarrow> (fake_io \<times> 'p world, bool) rust" where
  "fake_send m = (\<lambda>(io, w).
     let io = io\<lparr>attempts := attempts io @ [m]\<rparr>
     in if again io then Some (Inr False, (io\<lparr>again := False\<rparr>, w))
        else if m = ''hello''
        then Some (Inr True, (io\<lparr>events := events io @ [[Received ''world''], [Sent]]\<rparr>, w))
        else if m = ''ack''
        then Some (Inr True, (io\<lparr>events := events io @ [[PeerClosed], [Sent]]\<rparr>, w))
        else None)"

definition fake_start :: "event list list \<Rightarrow> bool \<Rightarrow> fake_io" where
  "fake_start es b = \<lparr>events = es, attempts = [], again = b\<rparr>"

definition broken_poll :: "(unit \<times> 'p world, event list) rust" where
  "broken_poll s = Some (Inl ''injected CQ error'', s)"

definition broken_send :: "bytes \<Rightarrow> (unit \<times> 'p world, bool) rust" where
  "broken_send m s = None"

subsection \<open>Retrying and draining\<close>

text \<open>With a refused first attempt the exchange takes seven rounds.\<close>

lemmas fake_eval = fake_poll_def fake_send_def fake_start_def now_def Client.round_def
  Client.after_events_def Client.complete_def next_message_def Client.posted_def message_bytes_def
  Client.on_event_def println_def exchange_default_def

lemma retries_and_drains:
  assumes "\<forall>i<8. clock E (ticks w + 1 + i) < clock E (ticks w) + timeout"
  shows "\<exists>w'. run_exchange E fake_poll fake_send timeout (fake_start [[Connected]] b, w) =
    Some (Inr (), \<lparr>events = [], attempts = (if b then [''hello''] else []) @ [''hello'', ''ack''], again = False\<rparr>, w')"
proof -
  have c: "clock E (ticks w + 1 + i) < clock E (ticks w) + timeout" if "i < 8" for i
    using assms that by blast
  note cs = c [of 0, simplified] c [of 1, simplified] c [of 2, simplified] c [of 3, simplified]
    c [of 4, simplified] c [of 5, simplified] c [of 6, simplified] c [of 7, simplified]
  have weak: "Option.bind m f = Option.bind m' f" if "m = m'" for m m' :: "'x option" and f :: "'x \<Rightarrow> 'y option"
    using that by simp
  show ?thesis
    using cs by (cases b; simp add: run_exchange_def exchange_loop.simps fake_eval numeral_eq_Suc cong: weak let_weak_cong)
qed

subsection \<open>Nothing to do until the deadline\<close>

text \<open>
  A client that is not connected, or whose peer has closed, and that hears nothing more,
  submits nothing and ends at the deadline, with its state in the error.
\<close>

lemma silent_round:
  assumes "\<forall>es\<in>set (events io). es = []" and "\<not> Client.complete x" and "next_message x = None"
  shows "Client.round fake_poll fake_send x (io, w) = Some (Inr False, x, io\<lparr>events := tl (events io)\<rparr>, w)"
  using assms by (cases "events io") (simp_all add: Client.round_def fake_poll_def Client.after_events_def)

lemma silent_loop:
  assumes "\<forall>m\<ge>n. \<not> clock E m < dl" and "\<not> Client.complete x" and "next_message x = None"
  shows "\<forall>es\<in>set (events io). es = [] \<Longrightarrow> \<exists>io' w'. exchange_loop E fake_poll fake_send dl x (io, w) =
    Some (Inl (''client exchange timeout: '' @ show_exchange x), (io', w')) \<and> attempts io' = attempts io"
proof (induction "n - ticks w" arbitrary: io w rule: less_induct)
  case less
  show ?case
  proof (cases "clock E (ticks w) < dl")
    case False
    then show ?thesis by (subst exchange_loop.simps) simp
  next
    case True
    let ?w = "snd (now E w)" and ?io = "io\<lparr>events := tl (events io)\<rparr>"
    have lt: "n - ticks ?w < n - ticks w"
      using assms(1) [rule_format, of "ticks w"] True by (cases "ticks w < n") auto
    have "\<forall>es\<in>set (events ?io). es = []" using less.prems by (cases "events io") auto
    from less.hyps [OF lt this] obtain io' w' where
      "exchange_loop E fake_poll fake_send dl x (?io, ?w) =
        Some (Inl (''client exchange timeout: '' @ show_exchange x), (io', w'))" "attempts io' = attempts ?io"
      by blast
    then show ?thesis
      using True silent_round [OF less.prems assms(2,3), of ?w] by (subst exchange_loop.simps) simp
  qed
qed

lemma stalled_times_out:
  assumes "clock_advances E" and "es \<in> {[], [Connected, PeerClosed]}"
  shows "\<exists>x io w'. run_exchange E fake_poll fake_send timeout (fake_start [es] False, w) =
    Some (Inl (''client exchange timeout: '' @ show_exchange x), (io, w')) \<and> attempts io = []"
proof -
  let ?dl = "clock E (ticks w) + timeout" and ?w = "snd (now E w)" and ?io = "fake_start [es] False"
  obtain n where n: "\<forall>m\<ge>n. \<not> clock E m < ?dl" using clock_deadline [OF assms(1)] by blast
  have run: "run_exchange E fake_poll fake_send timeout (?io, w) =
      exchange_loop E fake_poll fake_send ?dl exchange_default (?io, ?w)"
    by (simp add: run_exchange_def now_def)
  show ?thesis
  proof (cases "es = []")
    case True
    have "\<not> Client.complete exchange_default" "next_message exchange_default = None"
      by (simp_all add: exchange_default_def Client.complete_def next_message_def)
    from silent_loop [OF n this, of ?io ?w] True show ?thesis unfolding run by (auto simp: fake_start_def)
  next
    case False
    then have es: "es = [Connected, PeerClosed]" using assms(2) by simp
    show ?thesis
    proof (cases "clock E (ticks ?w) < ?dl")
      case stop: False
      then show ?thesis unfolding run by (subst exchange_loop.simps) (auto simp: fake_start_def)
    next
      case True
      let ?x = "exchange_default\<lparr>Client.connected := True, Client.peer_closed := True\<rparr>"
      obtain w2 where rd: "Client.round fake_poll fake_send exchange_default (?io, snd (now E ?w)) =
          Some (Inr False, ?x, fake_start [] False, w2)"
        by (simp add: es fake_eval)
      have "\<not> Client.complete ?x" "next_message ?x = None"
        by (simp_all add: exchange_default_def Client.complete_def next_message_def)
      from silent_loop [OF n this, of "fake_start [] False" w2] show ?thesis
        unfolding run using True rd by (subst exchange_loop.simps) (auto simp: fake_start_def)
    qed
  qed
qed

subsection \<open>Transport errors\<close>

text \<open>An error of the transport is the result, as it is; nothing is sent after it.\<close>

lemma transport_error:
  assumes "p (fst s, snd (now E (snd (now E (snd s))))) = Some (Inl e, s')"
    and "clock E (ticks (snd s) + 1) < clock E (ticks (snd s)) + timeout"
  shows "run_exchange E p q timeout s = Some (Inl e, s')"
  using assms by (cases s')
    (simp add: run_exchange_def now_def exchange_loop.simps [of E p q] Client.round_def)

end
