(* ===== verification/Unit_Tests.thy ===== *)
theory Unit_Tests
  imports Client_Double Server
begin

text \<open>
  The unit tests of both programs (\<^verbatim>\<open>mod tests\<close> of \<^verbatim>\<open>src/bin/clients.rs\<close> and
  \<^verbatim>\<open>src/bin/server.rs\<close>) over the model, assertion by assertion: a test that passes is
  \<open>Some ()\<close>, a failed assertion or an unwrapped error is \<open>None\<close>.
\<close>

definition require :: "bool \<Rightarrow> unit option" where
  "require b = (if b then Some () else None)"

definition unwrap :: "unit result \<times> 'x \<Rightarrow> 'x option" where
  "unwrap y = (if is_ok (fst y) then Some (snd y) else None)"

fun unwrap_each :: "('e \<Rightarrow> 'x \<Rightarrow> unit result \<times> 'x) \<Rightarrow> 'e list \<Rightarrow> 'x \<Rightarrow> 'x option" where
  "unwrap_each f [] x = Some x"
| "unwrap_each f (e # es) x = Option.bind (unwrap (f e x)) (unwrap_each f es)"

fun contains_text :: "string \<Rightarrow> string \<Rightarrow> bool" where
  "contains_text p [] = (p = [])"
| "contains_text p (c # s) = (take (length p) (c # s) = p \<or> contains_text p s)"

lemma contains_text_iff: "contains_text p s \<longleftrightarrow> (\<exists>as bs. s = as @ p @ bs)"
proof (induction s)
  case (Cons c s)
  have "take (length p) (c # s) = p \<longleftrightarrow> (\<exists>bs. c # s = p @ bs)"
    by (metis append_eq_conv_conj append_take_drop_id)
  moreover have "(\<exists>as bs. c # s = as @ p @ bs) \<longleftrightarrow> (\<exists>bs. c # s = p @ bs) \<or> (\<exists>as bs. s = as @ p @ bs)"
    by (metis append_Cons append_Nil list.exhaust_sel list.inject)
  ultimately show ?case using Cons.IH by simp
qed simp

subsection \<open>The client's tests\<close>

definition reply_and_hello_completion_can_arrive_in_either_order :: "bool \<Rightarrow> unit option" where
  "reply_and_hello_completion_can_arrive_in_either_order reply_first = do {
     let state = exchange_default;
     _ \<leftarrow> require (next_message state = None);
     state \<leftarrow> unwrap (Client.on_event Connected state);
     _ \<leftarrow> require (next_message state = Some Hello);
     let state = Client.posted Hello state;
     let reply = Received ''world'';
     let events = (if reply_first then [reply, Sent] else [Sent, reply]);
     state \<leftarrow> unwrap_each Client.on_event events state;
     _ \<leftarrow> require (next_message state = Some Ack);
     let state = Client.posted Ack state;
     _ \<leftarrow> require (\<not> Client.complete state);
     state \<leftarrow> unwrap (Client.on_event Sent state);
     require (Client.complete state)
   }"

definition invalid_or_duplicate_reply_is_rejected :: "unit option" where
  "invalid_or_duplicate_reply_is_rejected = do {
     let start = exchange_default\<lparr>hello_posted := True\<rparr>;
     _ \<leftarrow> require (list_all (\<lambda>m. \<not> is_ok (fst (Client.on_event (Received m) start)))
       [''hello'', ''world'' @ [CHR 0x00], '''', ''wor'']);
     state \<leftarrow> unwrap (Client.on_event (Received ''world'') start);
     require (\<not> is_ok (fst (Client.on_event (Received ''world'') state)))
   }"

definition event_loop_retries_eagain_and_drains_ack_after_shutdown ::
    "'p lib \<Rightarrow> 'p world \<Rightarrow> unit option" where
  "event_loop_retries_eagain_and_drains_ack_after_shutdown E w = do {
     let io = \<lparr>events = [[Connected]], attempts = [], again = True\<rparr>;
     (r, (io, w)) \<leftarrow> run_exchange E fake_poll fake_send (from_secs 1) (io, w);
     _ \<leftarrow> require (is_ok r);
     require (attempts io = [''hello'', ''hello'', ''ack''])
   }"

definition stalled_or_closed_peer_reaches_deadline_without_sending ::
    "'p lib \<Rightarrow> event list \<Rightarrow> 'p world \<Rightarrow> unit option" where
  "stalled_or_closed_peer_reaches_deadline_without_sending E es w = do {
     let io = \<lparr>events = [es], attempts = [], again = False\<rparr>;
     (r, (io, w)) \<leftarrow> run_exchange E fake_poll fake_send (5 * 10 ^ 6) (io, w);
     shown \<leftarrow> (case r of Inl e \<Rightarrow> Some e | Inr _ \<Rightarrow> None);
     _ \<leftarrow> require (contains_text ''timeout'' shown);
     require (attempts io = [])
   }"

definition transport_error_is_not_reported_as_timeout_or_success ::
    "'p lib \<Rightarrow> 'p world \<Rightarrow> unit option" where
  "transport_error_is_not_reported_as_timeout_or_success E w = do {
     (r, s) \<leftarrow> run_exchange E broken_poll broken_send (from_secs 1) ((), w);
     require (r = Inl ''injected CQ error'')
   }"

subsection \<open>The server's tests\<close>

definition ack_and_tx_completion_can_arrive_in_either_order :: "bool \<Rightarrow> unit option" where
  "ack_and_tx_completion_can_arrive_in_either_order ack_first = do {
     let exchange = exchange_new;
     exchange \<leftarrow> unwrap (Server.on_event (Received ''hello'') exchange);
     exchange \<leftarrow> unwrap (Server.on_event Connected exchange);
     _ \<leftarrow> require (phase exchange = P_Reply);
     let exchange = exchange\<lparr>phase := P_Ack\<rparr>;
     exchange \<leftarrow> (if ack_first then do {
         exchange \<leftarrow> unwrap (Server.on_event (Received ''ack'') exchange);
         _ \<leftarrow> require (\<not> Server.complete exchange);
         unwrap (Server.on_event Sent exchange)
       } else do {
         exchange \<leftarrow> unwrap (Server.on_event Sent exchange);
         _ \<leftarrow> require (\<not> Server.complete exchange);
         unwrap (Server.on_event (Received ''ack'') exchange)
       });
     require (Server.complete exchange)
   }"

definition invalid_message_or_disconnect_does_not_complete_exchange :: "unit option" where
  "invalid_message_or_disconnect_does_not_complete_exchange = do {
     let exchange = exchange_new;
     let (r, exchange) = Server.on_event (Received ''ack'') exchange;
     _ \<leftarrow> require (\<not> is_ok r);
     exchange \<leftarrow> unwrap (Server.on_event PeerClosed exchange);
     _ \<leftarrow> require (Server.peer_closed exchange);
     require (\<not> Server.complete exchange)
   }"

subsection \<open>They pass\<close>

lemmas test_steps = Let_def require_def unwrap_def exchange_default_def exchange_new_def next_message_def
  Client.posted_def Client.complete_def Client.on_event_def Server.complete_def Server.on_event_def

lemma client_event_tests:
  "reply_and_hello_completion_can_arrive_in_either_order b = Some ()"
  "invalid_or_duplicate_reply_is_rejected = Some ()"
  by (cases b, simp_all add: reply_and_hello_completion_can_arrive_in_either_order_def
      invalid_or_duplicate_reply_is_rejected_def test_steps)

lemma server_event_tests:
  "ack_and_tx_completion_can_arrive_in_either_order b = Some ()"
  "invalid_message_or_disconnect_does_not_complete_exchange = Some ()"
  by (cases b, simp_all add: ack_and_tx_completion_can_arrive_in_either_order_def
      invalid_message_or_disconnect_does_not_complete_exchange_def test_steps)

lemma client_loop_tests:
  assumes "clock_advances E" and "\<forall>i<8. clock E (ticks w + 1 + i) < clock E (ticks w) + 10 ^ 9"
  shows "event_loop_retries_eagain_and_drains_ack_after_shutdown E w = Some ()"
    and "es \<in> {[], [Connected, PeerClosed]} \<Longrightarrow>
      stalled_or_closed_peer_reaches_deadline_without_sending E es w = Some ()"
    and "transport_error_is_not_reported_as_timeout_or_success E w = Some ()"
proof -
  have secs: "from_secs (Suc 0) = 1000000000" by (simp add: from_secs_def)
  show "event_loop_retries_eagain_and_drains_ack_after_shutdown E w = Some ()"
    using retries_and_drains [OF assms(2), of True]
    by (auto simp: event_loop_retries_eagain_and_drains_ack_after_shutdown_def fake_start_def
        secs require_def)
  show "stalled_or_closed_peer_reaches_deadline_without_sending E es w = Some ()"
    if es: "es \<in> {[], [Connected, PeerClosed]}"
  proof -
    obtain x io w' where run: "run_exchange E fake_poll fake_send (5 * 10 ^ 6) (fake_start [es] False, w) =
        Some (Inl (''client exchange timeout: '' @ show_exchange x), (io, w'))" "attempts io = []"
      using stalled_times_out [OF assms(1) es] by blast
    have "contains_text ''timeout'' (''client exchange timeout: '' @ show_exchange x)"
      unfolding contains_text_iff
      by (intro exI [of _ "''client exchange ''"] exI [of _ "'': '' @ show_exchange x"]) simp
    with run show ?thesis
      by (simp add: stalled_or_closed_peer_reaches_deadline_without_sending_def fake_start_def require_def)
  qed
  have "clock E (ticks w + 1) < clock E (ticks w) + 10 ^ 9" using assms(2) [rule_format, of 0] by simp
  with transport_error [of broken_poll "((), w)" E] show
    "transport_error_is_not_reported_as_timeout_or_success E w = Some ()"
    by (simp add: transport_error_is_not_reported_as_timeout_or_success_def secs broken_poll_def require_def)
qed

end
