(* ===== verification/Session.thy ===== *)
theory Session
  imports Server_Spec
begin

text \<open>
  What crosses a transport while a program runs over it, as an inductive log, and the two
  programs' exchanges as step relations over such logs: a run that reports success leaves a
  log that is a complete trace of the program's side of the protocol. For a \<open>Connection\<close>
  the log is exact: completions never outnumber accepted sends.
\<close>

subsection \<open>The log of a transport\<close>

text \<open>
  \<open>io_log p q R s0 ls s\<close>: from \<open>s0\<close>, calls of \<open>p\<close> (poll), \<open>q\<close> (send) and \<open>R\<close> (any
  other operation), with quiet steps of the program in between, lead to \<open>s\<close>; \<open>ls\<close> is what
  the successful polls returned and the sends that were accepted.
\<close>

inductive io_log for p :: "('io \<times> 'p world, event list) rust"
    and q :: "bytes \<Rightarrow> ('io \<times> 'p world, bool) rust"
    and R :: "'io \<times> 'p world \<Rightarrow> 'io \<times> 'p world \<Rightarrow> bool" and s0 where
  start: "io_log p q R s0 [] s0"
| idle: "io_log p q R s0 ls (c, w) \<Longrightarrow> quiet w w' \<Longrightarrow> io_log p q R s0 ls (c, w')"
| polled: "io_log p q R s0 ls s \<Longrightarrow> p s = Some (Inr es, s') \<Longrightarrow> io_log p q R s0 (ls @ map Got es) s'"
| accepted: "io_log p q R s0 ls s \<Longrightarrow> q m s = Some (Inr True, s') \<Longrightarrow> io_log p q R s0 (ls @ [Put m]) s'"
| refused: "io_log p q R s0 ls s \<Longrightarrow> q m s = Some (Inr False, s') \<Longrightarrow> io_log p q R s0 ls s'"
| other: "io_log p q R s0 ls s \<Longrightarrow> R s s' \<Longrightarrow> io_log p q R s0 ls s'"

text \<open>The messages of a log, in the order they crossed.\<close>

definition is_message :: "label \<Rightarrow> bool" where
  "is_message l = (case l of Put _ \<Rightarrow> True | Got (Received _) \<Rightarrow> True | _ \<Rightarrow> False)"

definition messages :: "label list \<Rightarrow> label list" where
  "messages ls = filter is_message ls"

lemma messages_simps [simp]:
  "messages [] = []" "messages (ls @ ls') = messages ls @ messages ls'"
  "messages [Put m] = [Put m]" "messages [Got (Received m)] = [Got (Received m)]"
  "messages [Got Sent] = []" "messages [Got Connected] = []" "messages [Got PeerClosed] = []"
  by (simp_all add: messages_def is_message_def)

subsection \<open>The client over a logged transport\<close>

text \<open>The client's messages come in the only order the protocol allows.\<close>

definition client_messages :: "Client.exchange \<Rightarrow> label list" where
  "client_messages x = (if hello_posted x then [Put ''hello''] else []) @
     (if world_received x then [Got (Received ''world'')] else []) @
     (if ack_posted x then [Put ''ack''] else [])"

lemma client_step_messages:
  assumes "client_inv ls x" and "client_step x l y"
  shows "client_messages y = client_messages x @ messages [l]"
  using assms(2)
proof cases
  case (got e)
  show ?thesis
  proof (cases e)
    case (Received m)
    with got have y: "hello_posted x" "\<not> world_received x" "m = ''world''" "y = x\<lparr>world_received := True\<rparr>"
      by (simp_all add: Client.on_event_def split: if_splits)
    then have "\<not> ack_posted x" using assms(1) unfolding client_inv_def by argo
    with y got Received show ?thesis by (simp add: client_messages_def)
  next
    case Sent
    then have "y = x\<lparr>ack_completed := True\<rparr> \<or> y = x\<lparr>hello_completed := True\<rparr>"
      using got by (simp add: Client.on_event_def split: if_splits)
    then show ?thesis using got Sent by (auto simp: client_messages_def)
  next
    case Connected
    with got show ?thesis by (auto simp: Client.on_event_def client_messages_def)
  next
    case PeerClosed
    with got show ?thesis by (auto simp: Client.on_event_def client_messages_def)
  qed
next
  case (put m)
  then show ?thesis using assms(1)
    by (cases m)
      (auto simp: client_messages_def client_inv_def next_message_def posted_def message_bytes_def split: if_splits)
qed

lemma client_trace_messages: "client_trace ls x \<Longrightarrow> messages ls = client_messages x"
proof (induction rule: client_trace.induct)
  case start
  show ?case by (simp add: client_messages_def exchange_default_def)
next
  case (step ls x l y)
  then show ?case using client_step_messages [OF client_trace_inv [OF step.hyps(1)] step.hyps(2)] by simp
qed

lemma client_round_log:
  assumes "io_log p q R s0 ls s" and "client_trace ls x"
    and "Client.round p q x s = Some (Inr fin, x', s')"
  shows "\<exists>ls'. io_log p q R s0 ls' s' \<and> client_trace ls' x' \<and> (fin \<longrightarrow> Client.complete x')"
proof -
  obtain r io1 w1 where poll: "p s = Some (r, io1, w1)"
    using assms(3) by (auto simp: Client.round_def split: bind_splits)
  then obtain es where es: "r = Inr es"
    using assms(3) by (cases r) (auto simp: Client.round_def)
  obtain r2 x1 w2 where he: "Client.handle_events es (x, w1) = (r2, (x1, w2))" and qt: "quiet w1 w2"
    using conn_io.events_quiet by blast
  then have r2: "r2 = Inr ()" using assms(3) poll es
    by (cases r2) (auto simp: Client.round_def)
  have log: "io_log p q R s0 (ls @ map Got es) (io1, w2)"
    using io_log.polled [OF assms(1)] poll es by (blast intro: io_log.idle [OF _ qt])
  have tr: "client_trace (ls @ map Got es) x1"
    using handle_events_trace [OF assms(2)] he r2 by simp
  have after: "Client.after_events q x1 (io1, w2) = Some (Inr fin, x', s')"
    using assms(3) poll es he r2 by (simp add: Client.round_def)
  consider "Client.complete x1" | "\<not> Client.complete x1" "next_message x1 = None"
    | m where "\<not> Client.complete x1" "next_message x1 = Some m" by auto
  then show ?thesis
  proof cases
    case (3 m)
    obtain b s3 where snd: "q (message_bytes m) (io1, w2) = Some (Inr b, s3)" and "s' = s3" "\<not> fin"
      and x': "x' = (if b then posted m x1 else x1)"
      using after 3 by (auto simp: Client.after_events_def split: bind_splits sum.splits)
    show ?thesis
    proof (cases b)
      case True
      then show ?thesis
        using io_log.accepted [OF log, of "message_bytes m" s3] snd step [OF tr put [OF 3]] x'
          \<open>s' = s3\<close> \<open>\<not> fin\<close> by auto
    next
      case False
      then show ?thesis using io_log.refused [OF log, of "message_bytes m" s3] snd tr x' \<open>s' = s3\<close> \<open>\<not> fin\<close> by auto
    qed
  qed (use after tr log in \<open>auto simp: Client.after_events_def\<close>)
qed

lemma client_loop_log:
  assumes "exchange_loop E p q dl x s = Some y" and "fst y = Inr ()"
    and "io_log p q R s0 ls s" and "client_trace ls x"
  shows "\<exists>ls' x'. io_log p q R s0 ls' (snd y) \<and> client_trace ls' x' \<and> Client.complete x'"
  using assms
proof (induction arbitrary: ls s0 R rule: exchange_loop_induct)
  case (round rec E p q dl x s y)
  let ?s = "(fst s, snd (now E (snd s)))"
  have log: "io_log p q R s0 ls ?s" using io_log.idle [of p q R s0 ls "fst s" "snd s"] round.prems(2) by simp
  show ?case
  proof (cases "fst (now E (snd s)) < dl")
    case False
    then show ?thesis using round(2) round.prems(1) by auto
  next
    case True
    from round(2) True obtain r x1 s1 where rd: "Client.round p q x ?s = Some (r, x1, s1)"
      and k: "(case r of Inl e \<Rightarrow> Some (Inl e, s1)
        | Inr fin \<Rightarrow> if fin then Some (Inr (), s1) else rec E p q dl x1 s1) = Some y"
      by (auto split: bind_splits)
    then obtain fin where r: "r = Inr fin" using round.prems(1) by (cases r) auto
    obtain ls1 where l1: "io_log p q R s0 ls1 s1" "client_trace ls1 x1" "fin \<longrightarrow> Client.complete x1"
      using client_round_log [OF log round.prems(3)] rd r by blast
    show ?thesis
    proof (cases fin)
      case True
      then show ?thesis using k r l1 by auto
    next
      case False
      then have "rec E p q dl x1 s1 = Some y" using k r by simp
      from round(1) [OF this round.prems(1) l1(1,2)] show ?thesis .
    qed
  qed
qed

lemma client_run_log:
  assumes "run_exchange E p q timeout s = Some (Inr (), s')"
  shows "\<exists>ls x. io_log p q R s ls s' \<and> client_trace ls x \<and> Client.complete x"
proof -
  let ?s = "(fst s, snd (now E (snd s)))"
  have "io_log p q R s [] (fst s, snd s)" by (simp add: io_log.start)
  then have "io_log p q R s [] ?s" by (rule io_log.idle) simp
  then show ?thesis
    using client_loop_log [of E p q _ exchange_default ?s "(Inr (), s')"] assms client_trace.start
    by (auto simp: run_exchange_def now_def)
qed


subsection \<open>The server over its connection\<close>

inductive server_step :: "Server.exchange \<Rightarrow> label \<Rightarrow> Server.exchange \<Rightarrow> bool" where
  heard: "Server.on_event e x = (Inr (), x') \<Longrightarrow> server_step x (Got e) x'"
| reply: "\<not> Server.complete x \<Longrightarrow> Server.connected x \<Longrightarrow> \<not> Server.peer_closed x \<Longrightarrow>
    phase x = P_Reply \<Longrightarrow> server_step x (Put ''world'') (x\<lparr>phase := P_Ack\<rparr>)"

inductive server_trace :: "label list \<Rightarrow> Server.exchange \<Rightarrow> bool" where
  init: "server_trace [] exchange_new"
| move: "server_trace ls x \<Longrightarrow> server_step x l y \<Longrightarrow> server_trace (ls @ [l]) y"

text \<open>The phases only advance.\<close>

lemma server_phase_mono:
  assumes "server_step x l y"
  shows "phase x \<le> phase y"
  using assms
proof cases
  case (heard e)
  then show ?thesis
    by (cases e) (auto simp: Server.on_event_def less_eq_phase_def phase_rank_def split: if_splits)
qed (simp add: less_eq_phase_def phase_rank_def)

text \<open>The phase counts the messages of the protocol that have crossed, in their order.\<close>

definition server_inv :: "label list \<Rightarrow> Server.exchange \<Rightarrow> bool" where
  "server_inv ls x \<longleftrightarrow>
     messages ls = take (phase_rank (phase x))
       [Got (Received ''hello''), Put ''world'', Got (Received ''ack'')] \<and>
     (Server.connected x \<longleftrightarrow> Got Connected \<in> set ls) \<and>
     (sent x \<longleftrightarrow> Got Sent \<in> set ls) \<and>
     (Server.peer_closed x \<longleftrightarrow> Got PeerClosed \<in> set ls) \<and>
     (P_Reply < phase x \<longrightarrow> Server.connected x)"

lemma server_step_inv:
  assumes "server_inv ls x" and "server_step x l y"
  shows "server_inv (ls @ [l]) y"
  using assms(2)
proof cases
  case (heard e)
  show ?thesis
  proof (cases e)
    case (Received m)
    then consider "phase x = P_Hello" "m = ''hello''" "y = x\<lparr>phase := P_Reply\<rparr>"
      | "phase x = P_Ack" "m = ''ack''" "y = x\<lparr>phase := P_Done\<rparr>"
      using heard by (auto simp: Server.on_event_def split: if_splits)
    then show ?thesis using assms(1) heard Received
      by cases (auto simp: server_inv_def less_phase_def phase_rank_def)
  qed (use heard assms(1) in \<open>auto simp: server_inv_def Server.on_event_def\<close>)
next
  case reply
  then show ?thesis using assms(1)
    by (simp add: server_inv_def less_phase_def phase_rank_def)
qed

lemma server_trace_inv: "server_trace ls x \<Longrightarrow> server_inv ls x"
proof (induction rule: server_trace.induct)
  case init
  show ?case by (simp add: server_inv_def exchange_new_def phase_rank_def less_phase_def)
next
  case (move ls x l y)
  then show ?case by (blast intro: server_step_inv)
qed

lemma server_complete:
  assumes "server_trace ls x" and "Server.complete x"
  shows "messages ls = [Got (Received ''hello''), Put ''world'', Got (Received ''ack'')] \<and>
    Got Connected \<in> set ls \<and> Got Sent \<in> set ls"
  using server_trace_inv [OF assms(1)] assms(2)
  by (auto simp: server_inv_def Server.complete_def phase_rank_def less_phase_def)

text \<open>Posting the receive for the acknowledgement is the server's other use of its connection.\<close>

definition arms :: "'p lib \<Rightarrow> connection \<times> 'p world \<Rightarrow> connection \<times> 'p world \<Rightarrow> bool" where
  "arms E s s' \<longleftrightarrow> (\<exists>b. post_recv E s = Some (Inr b, s'))"

lemma server_events_trace:
  "server_trace ls x \<Longrightarrow> Server.handle_events es (x, w) = (Inr (), (x', w')) \<Longrightarrow>
    server_trace (ls @ map Got es) x'"
proof (induction es arbitrary: ls x w)
  case Nil
  then show ?case by simp
next
  case (Cons e es)
  obtain r y where on: "Server.on_event e x = (r, y)" by (cases "Server.on_event e x")
  with Cons.prems(2) have "r = Inr ()" and rest:
    "Server.handle_events es (y, println (''event: '' @ show_event e) w) = (Inr (), (x', w'))"
    by (auto simp: Let_def split: sum.splits)
  then have "server_step x (Got e) y" using on by (auto intro: heard)
  with Cons.prems(1) have "server_trace (ls @ [Got e]) y" by (rule move)
  from Cons.IH [OF this rest] show ?case by simp
qed

lemma try_reply_log:
  assumes "io_log p (send E) (arms E) s0 ls s" and "server_trace ls x"
    and "\<not> Server.complete x" "Server.connected x" "\<not> Server.peer_closed x" "phase x = P_Reply"
    and "try_reply E x s = Some (Inr (), x', s')"
  shows "\<exists>ls'. io_log p (send E) (arms E) s0 ls' s' \<and> server_trace ls' x'"
proof -
  obtain r s1 where arm: "(if receive_pending (fst s) then Some (Inr True, s) else post_recv E s) = Some (r, s1)"
    using assms(7) by (auto simp: try_reply_def split: bind_splits)
  then obtain ready where r: "r = Inr ready" using assms(7) by (cases r) (auto simp: try_reply_def)
  have log: "io_log p (send E) (arms E) s0 ls s1"
    using arm r assms(1) io_log.other [OF assms(1), of s1]
    by (auto simp: arms_def split: if_splits)
  show ?thesis
  proof (cases ready)
    case False
    then show ?thesis using assms(2,7) arm r log by (auto simp: try_reply_def)
  next
    case True
    obtain b s2 where snd: "send E ''world'' s1 = Some (Inr b, s2)" and "s' = s2"
      and x': "x' = (if b then x\<lparr>phase := P_Ack\<rparr> else x)"
      using assms(7) arm r True by (auto simp: try_reply_def split: bind_splits sum.splits)
    show ?thesis
    proof (cases b)
      case True
      then show ?thesis
        using io_log.accepted [OF log, of "''world''" s2] snd move [OF assms(2) reply [OF assms(3-6)]] x'
          \<open>s' = s2\<close> by auto
    next
      case False
      then show ?thesis using io_log.refused [OF log, of "''world''" s2] snd assms(2) x' \<open>s' = s2\<close> by auto
    qed
  qed
qed

lemma server_round_log:
  assumes "io_log (poll E) (send E) (arms E) s0 ls s" and "server_trace ls x"
    and "Server.round E x s = Some (Inr fin, x', s')"
  shows "\<exists>ls'. io_log (poll E) (send E) (arms E) s0 ls' s' \<and> server_trace ls' x' \<and>
    (fin \<longrightarrow> Server.complete x')"
proof -
  obtain r c1 w1 where poll: "poll E s = Some (r, c1, w1)"
    using assms(3) by (auto simp: Server.round_def split: bind_splits)
  then obtain es where es: "r = Inr es"
    using assms(3) by (cases r) (auto simp: Server.round_def)
  obtain r2 x1 w2 where he: "Server.handle_events es (x, w1) = (r2, (x1, w2))" and qt: "quiet w1 w2"
    using server_events_quiet by blast
  then have r2: "r2 = Inr ()" using assms(3) poll es
    by (cases r2) (auto simp: Server.round_def)
  have log: "io_log (poll E) (send E) (arms E) s0 (ls @ map Got es) (c1, w2)"
    using io_log.polled [OF assms(1)] poll es by (blast intro: io_log.idle [OF _ qt])
  have tr: "server_trace (ls @ map Got es) x1"
    using server_events_trace [OF assms(2)] he r2 by simp
  have after: "Server.after_events E x1 (c1, w2) = Some (Inr fin, x', s')"
    using assms(3) poll es he r2 by (simp add: Server.round_def)
  consider "Server.complete x1"
    | "\<not> Server.complete x1" "\<not> (Server.connected x1 \<and> \<not> Server.peer_closed x1 \<and> phase x1 = P_Reply)"
    | "\<not> Server.complete x1" "Server.connected x1" "\<not> Server.peer_closed x1" "phase x1 = P_Reply" by auto
  then show ?thesis
  proof cases
    case 3
    then have "try_reply E x1 (c1, w2) = Some (Inr (), x', s') \<and> \<not> fin"
      using after by (auto simp: Server.after_events_def split: bind_splits sum.splits)
    then show ?thesis using try_reply_log [OF log tr 3] by blast
  qed (use after tr log in \<open>auto simp: Server.after_events_def\<close>)
qed

lemma serve_loop_induct [consumes 1, case_names round]:
  assumes "serve_loop E dl x s = Some y"
    and "\<And>rec E dl x s y. (\<And>E dl x s y. rec E dl x s = Some y \<Longrightarrow> P E dl x s y) \<Longrightarrow>
      (if fst (now E (snd s)) < dl
       then Option.bind (Server.round E x (fst s, snd (now E (snd s)))) (\<lambda>(r, x, s).
         case r of Inl e \<Rightarrow> Some (Inl e, s)
         | Inr fin \<Rightarrow> if fin then Some (Inr (), s) else rec E dl x s)
       else Some (Inl (''exchange timeout in '' @ show_phase (phase x) @ ''; peer_closed=''
                    @ show_bool (Server.peer_closed x)), (fst s, snd (now E (snd s))))) = Some y
      \<Longrightarrow> P E dl x s y"
  shows "P E dl x s y"
  using serve_loop.raw_induct [of P "(((E, dl), x), s)" y, unfolded prod.case] assms
  by blast

lemma serve_loop_log:
  assumes "serve_loop E dl x s = Some y" and "fst y = Inr ()"
    and "io_log (poll E) (send E) (arms E) s0 ls s" and "server_trace ls x"
  shows "\<exists>ls' x'. io_log (poll E) (send E) (arms E) s0 ls' (snd y) \<and> server_trace ls' x' \<and> Server.complete x'"
  using assms
proof (induction arbitrary: ls s0 rule: serve_loop_induct)
  case (round rec E dl x s y)
  let ?s = "(fst s, snd (now E (snd s)))"
  have log: "io_log (poll E) (send E) (arms E) s0 ls ?s"
    using io_log.idle [of "poll E" "send E" "arms E" s0 ls "fst s" "snd s"] round.prems(2) by simp
  show ?case
  proof (cases "fst (now E (snd s)) < dl")
    case False
    then show ?thesis using round(2) round.prems(1) by auto
  next
    case True
    from round(2) True obtain r x1 s1 where rd: "Server.round E x ?s = Some (r, x1, s1)"
      and k: "(case r of Inl e \<Rightarrow> Some (Inl e, s1)
        | Inr fin \<Rightarrow> if fin then Some (Inr (), s1) else rec E dl x1 s1) = Some y"
      by (auto split: bind_splits)
    then obtain fin where r: "r = Inr fin" using round.prems(1) by (cases r) auto
    obtain ls1 where l1: "io_log (poll E) (send E) (arms E) s0 ls1 s1" "server_trace ls1 x1"
      "fin \<longrightarrow> Server.complete x1"
      using server_round_log [OF log round.prems(3)] rd r by blast
    show ?thesis
    proof (cases fin)
      case True
      then show ?thesis using k r l1 by auto
    next
      case False
      then have "rec E dl x1 s1 = Some y" using k r by simp
      from round(1) [OF this round.prems(1) l1(1,2)] show ?thesis .
    qed
  qed
qed

lemma serve_log:
  assumes "serve E timeout s = Some (Inr (), s')"
  shows "\<exists>ls x. io_log (poll E) (send E) (arms E) s ls s' \<and> server_trace ls x \<and> Server.complete x"
proof -
  let ?s = "(fst s, snd (now E (snd s)))"
  have "io_log (poll E) (send E) (arms E) s [] (fst s, snd s)" by (simp add: io_log.start)
  then have "io_log (poll E) (send E) (arms E) s [] ?s" by (rule io_log.idle) simp
  then show ?thesis
    using serve_loop_log [of E _ exchange_new ?s "(Inr (), s')"] assms server_trace.init
    by (auto simp: serve_def now_def)
qed

subsection \<open>Accounting on a connection\<close>

text \<open>
  On a connection, every send that was accepted is completed at most once: the log holds as
  many completions as accepted sends, less the one that may still be in flight.
\<close>

definition balanced :: "label list \<Rightarrow> connection \<Rightarrow> bool" where
  "balanced ls c \<longleftrightarrow> length (puts ls) = sents ls + (if sl_pending (cn_tx c) then 1 else 0)"

lemma counts_append [simp]:
  "puts (ls @ ls') = puts ls @ puts ls'" "sents (ls @ ls') = sents ls + sents ls'"
  "puts (map Got es) = []" "sents (map Got es) = length (filter (\<lambda>e. e = Sent) es)"
  "puts [Put m] = [m]" "sents [Put m] = 0"
  by (induction es) (simp_all add: puts_def sents_def)

lemma polled_events_sents:
  assumes "polled_events c c' es"
  shows "length (filter (\<lambda>e. e = Sent) es) + (if sl_pending (cn_tx c') then 1 else 0) =
    (if sl_pending (cn_tx c) then 1 else 0)"
proof -
  obtain t r m where es: "es = t @ r @ m"
    and t: "t = [Sent] \<and> sl_pending (cn_tx c) \<and> \<not> sl_pending (cn_tx c') \<or>
      t = [] \<and> sl_pending (cn_tx c') = sl_pending (cn_tx c)"
    and r: "(\<exists>b. r = [Received b]) \<or> r = []" and m: "m \<in> {[], [Connected], [PeerClosed]}"
    using assms unfolding polled_events_def by blast
  have "filter (\<lambda>e. e = Sent) r = []" "filter (\<lambda>e. e = Sent) m = []" using r m by auto
  then show ?thesis using t by (auto simp: es)
qed

lemma conn_log_balanced:
  assumes "io_log (poll E) (send E) (arms E) s0 ls s" and "conn_ok E w0 (snd s0) (fst s0)"
    and "\<not> sl_pending (cn_tx (fst s0))" and "errno_ok E" and "infos_ok E"
  shows "conn_ok E w0 (snd s) (fst s) \<and> balanced ls (fst s)"
  using assms(1)
proof (induction rule: io_log.induct)
  case start
  then show ?case using assms(2,3) by (simp add: balanced_def puts_def sents_def)
next
  case (idle ls c w w')
  then show ?case by (auto intro: conn_quiet)
next
  case (polled ls s es s')
  then obtain c' w' where s': "s' = (c', w')" and ok: "conn_ok E w0 w' c'" and p: "polled (fst s) (Inr es) c'"
    using poll_spec [of E w0 "snd s" "fst s"] assms(4,5) by (auto simp: runs_Ex)
  from p have "polled_events (fst s) c' es" by (simp add: polled_def)
  from polled_events_sents [OF this] polled.IH ok show ?case by (auto simp: s' balanced_def)
next
  case (accepted ls s m s')
  then obtain c' w' where s': "s' = (c', w')" and ok: "conn_ok E w0 w' c'" and p: "posted_by True (fst s) (Inr True) c'"
    using send_spec [of E w0 "snd s" "fst s" m] assms(4) by (auto simp: runs_Ex)
  with accepted.IH show ?case by (auto simp: balanced_def posted_by_def slot_of_def with_slot_def)
next
  case (refused ls s m s')
  then obtain c' w' where s': "s' = (c', w')" and ok: "conn_ok E w0 w' c'" and p: "posted_by True (fst s) (Inr False) c'"
    using send_spec [of E w0 "snd s" "fst s" m] assms(4) by (auto simp: runs_Ex)
  with refused.IH show ?case by (auto simp: posted_by_def)
next
  case (other ls s s')
  then obtain b where b: "post_recv E s = Some (Inr b, s')" by (auto simp: arms_def)
  then obtain c' w' where s': "s' = (c', w')" and ok: "conn_ok E w0 w' c'" and p: "posted_by False (fst s) (Inr b) c'"
    using post_recv_spec [of E w0 "snd s" "fst s"] other.IH assms(4) by (auto simp: runs_Ex)
  with other.IH show ?case by (auto simp: balanced_def posted_by_def slot_of_def with_slot_def split: if_splits)
qed

text \<open>
  So a completion polled from a connection is never refused by the client: what its
  exchange state can reject is a received message.
\<close>

lemma client_accepts_sent:
  assumes "client_trace ls x" and "sents ls < length (puts ls)"
  shows "\<exists>y. client_step x (Got Sent) y"
proof -
  have "client_inv ls x" by (rule client_trace_inv [OF assms(1)])
  then have "ack_posted x \<and> \<not> ack_completed x \<or> hello_posted x \<and> \<not> hello_completed x"
    using assms(2) by (cases "hello_posted x"; cases "ack_posted x"; cases "hello_completed x"; cases "ack_completed x")
      (simp_all add: client_inv_def)
  then show ?thesis by (auto simp: got_step_simp Client.on_event_def)
qed

lemma client_accepts_other: "e \<in> {Connected, PeerClosed} \<Longrightarrow> \<exists>y. client_step x (Got e) y"
  by (auto simp: got_step_simp Client.on_event_def)

lemma client_events_refused:
  assumes "Client.handle_events es (x, w) = (Inl e, y)" and "client_trace ls x"
  shows "\<exists>as d bs x1. es = as @ d # bs \<and> client_trace (ls @ map Got as) x1 \<and>
    fst (Client.on_event d x1) = Inl e"
  using assms
proof (induction es arbitrary: ls x w)
  case Nil
  then show ?case by simp
next
  case (Cons d es)
  obtain r x1 where on: "Client.on_event d x = (r, x1)" by (cases "Client.on_event d x")
  show ?case
  proof (cases r)
    case (Inl m)
    then have "fst (Client.on_event d x) = Inl e" using Cons.prems(1) on by (simp add: Let_def)
    moreover have "client_trace (ls @ map Got []) x" using Cons.prems(2) by simp
    ultimately show ?thesis by (metis append_Nil)
  next
    case (Inr u)
    then have "client_step x (Got d) x1" using on by (auto intro: got)
    with Cons.prems(2) have "client_trace (ls @ [Got d]) x1" by (rule step)
    moreover have "Client.handle_events es (x1, println (''event: '' @ show_event d) w) = (Inl e, y)"
      using Cons.prems(1) on Inr by (simp add: Let_def)
    ultimately obtain as d' bs x2 where "es = as @ d' # bs"
      "client_trace ((ls @ [Got d]) @ map Got as) x2" "fst (Client.on_event d' x2) = Inl e"
      using Cons.IH by blast
    then show ?thesis by (intro exI [of _ "d # as"] exI [of _ d'] exI [of _ bs] exI [of _ x2]) simp
  qed
qed

lemma client_refuses_only_replies:
  assumes "client_trace ls x" and "balanced ls c" and "polled_events c c' es"
    and "Client.handle_events es (x, w) = (Inl e, y)"
  shows "\<exists>m. Received m \<in> set es \<and>
    e = ''unexpected reply: '' @ show_bytes m @ ''; expected one world message''"
proof -
  obtain as d bs x1 where es: "es = as @ d # bs" and tr: "client_trace (ls @ map Got as) x1"
    and ref: "fst (Client.on_event d x1) = Inl e"
    using client_events_refused [OF assms(4,1)] by blast
  show ?thesis
  proof (cases d)
    case (Received m)
    then show ?thesis using ref es by (auto simp: Client.on_event_def split: if_splits)
  next
    case Sent
    obtain t r m where trm: "es = t @ r @ m"
      and t: "t = [Sent] \<and> sl_pending (cn_tx c) \<or> t = []"
      and r: "(\<exists>b. r = [Received b]) \<or> r = []" and m: "m \<in> {[], [Connected], [PeerClosed]}"
      using assms(3) unfolding polled_events_def by blast
    have no: "Sent \<notin> set (r @ m)" using r m by auto
    have "Sent \<in> set (t @ r @ m)" using es Sent by (simp flip: trm)
    with no t have t': "t = [Sent]" "sl_pending (cn_tx c)" by auto
    have "as = []" using es trm t'(1) no Sent by (cases as) auto
    with tr have "client_trace ls x1" by simp
    moreover have "sents ls < length (puts ls)" using assms(2) t'(2) by (simp add: balanced_def)
    ultimately obtain y' where "client_step x1 (Got Sent) y'" using client_accepts_sent by blast
    then show ?thesis using ref Sent by (auto simp: got_step_simp)
  qed (use ref in \<open>auto simp: Client.on_event_def\<close>)
qed

text \<open>Nor does the client ever submit to a send slot that is still in flight.\<close>

lemma client_sends_free:
  assumes "client_trace ls x" and "balanced ls c" and "next_message x = Some m"
  shows "\<not> sl_pending (cn_tx c)"
proof -
  have i: "client_inv ls x" by (rule client_trace_inv [OF assms(1)])
  have "\<not> hello_posted x \<or> hello_posted x \<and> hello_completed x \<and> \<not> ack_posted x"
    using assms(3) by (auto simp: next_message_def split: if_splits)
  then have "length (puts ls) \<le> sents ls"
  proof (elim disjE conjE)
    assume h: "\<not> hello_posted x"
    then have "\<not> ack_posted x" using i unfolding client_inv_def by argo
    then have "puts ls = []" using h i unfolding client_inv_def by simp
    then show ?thesis by simp
  next
    assume h: "hello_posted x" "hello_completed x" "\<not> ack_posted x"
    then have "puts ls = [''hello'']" and "1 \<le> sents ls" using i unfolding client_inv_def by simp_all
    then show ?thesis by simp
  qed
  then show ?thesis using assms(2) by (simp add: balanced_def split: if_splits)
qed

end
