(* ===== verification/Protocol.thy ===== *)
theory Protocol
  imports Session
begin

text \<open>
  The two programs together: their step relations composed over two reliable, ordered
  channels, with the receive credits of the connection and the completions of submitted
  sends as separate steps, in every interleaving. No message is refused or arrives without a
  posted receive, no state but the final one is stuck, and every run ends.
\<close>

record net =
  cl :: Client.exchange
  cl_up :: bool
  cl_armed :: bool
  cl_flight :: nat
  to_cl :: "bytes list"
  sv :: Server.exchange
  sv_up :: bool
  sv_armed :: bool
  sv_flight :: nat
  to_sv :: "bytes list"

text \<open>Both sides have posted their receive before the connection is made.\<close>

definition net_start :: net where
  "net_start = \<lparr>cl = exchange_default, cl_up = False, cl_armed = True, cl_flight = 0, to_cl = [],
     sv = exchange_new, sv_up = False, sv_armed = True, sv_flight = 0, to_sv = []\<rparr>"

inductive net_step :: "net \<Rightarrow> net \<Rightarrow> bool" where
  cl_connected: "\<not> cl_up n \<Longrightarrow> client_step (cl n) (Got Connected) x \<Longrightarrow>
    net_step n (n\<lparr>cl := x, cl_up := True\<rparr>)"
| cl_put: "client_step (cl n) (Put m) x \<Longrightarrow>
    net_step n (n\<lparr>cl := x, cl_flight := cl_flight n + 1, to_sv := to_sv n @ [m]\<rparr>)"
| cl_sent: "cl_flight n = Suc k \<Longrightarrow> client_step (cl n) (Got Sent) x \<Longrightarrow>
    net_step n (n\<lparr>cl := x, cl_flight := k\<rparr>)"
| cl_hear: "to_cl n = m # ms \<Longrightarrow> cl_armed n \<Longrightarrow> client_step (cl n) (Got (Received m)) x \<Longrightarrow>
    net_step n (n\<lparr>cl := x, cl_armed := False, to_cl := ms\<rparr>)"
| sv_connected: "\<not> sv_up n \<Longrightarrow> server_step (sv n) (Got Connected) y \<Longrightarrow>
    net_step n (n\<lparr>sv := y, sv_up := True\<rparr>)"
| sv_put: "server_step (sv n) (Put m) y \<Longrightarrow>
    net_step n (n\<lparr>sv := y, sv_armed := True, sv_flight := sv_flight n + 1, to_cl := to_cl n @ [m]\<rparr>)"
| sv_sent: "sv_flight n = Suc k \<Longrightarrow> server_step (sv n) (Got Sent) y \<Longrightarrow>
    net_step n (n\<lparr>sv := y, sv_flight := k\<rparr>)"
| sv_hear: "to_sv n = m # ms \<Longrightarrow> sv_armed n \<Longrightarrow> server_step (sv n) (Got (Received m)) y \<Longrightarrow>
    net_step n (n\<lparr>sv := y, sv_armed := False, to_sv := ms\<rparr>)"

subsection \<open>Invariant\<close>

definition client_part :: "net \<Rightarrow> bool" where
  "client_part n \<longleftrightarrow> (let x = cl n in
     Client.connected x = cl_up n \<and> \<not> Client.peer_closed x \<and>
     (hello_posted x \<longrightarrow> cl_up n) \<and> (hello_completed x \<longrightarrow> hello_posted x) \<and>
     (ack_posted x \<longrightarrow> hello_completed x \<and> world_received x) \<and> (ack_completed x \<longrightarrow> ack_posted x) \<and>
     cl_flight n = (if hello_posted x \<and> \<not> hello_completed x then 1 else 0) +
       (if ack_posted x \<and> \<not> ack_completed x then 1 else 0) \<and>
     cl_armed n = (\<not> world_received x))"

definition server_part :: "net \<Rightarrow> bool" where
  "server_part n \<longleftrightarrow> (let y = sv n in
     Server.connected y = sv_up n \<and> \<not> Server.peer_closed y \<and>
     (P_Ack \<le> phase y \<longrightarrow> sv_up n) \<and> (sent y \<longrightarrow> P_Ack \<le> phase y) \<and>
     sv_flight n = (if P_Ack \<le> phase y \<and> \<not> sent y then 1 else 0) \<and>
     sv_armed n = (phase y = P_Hello \<or> phase y = P_Ack))"

definition channels :: "net \<Rightarrow> bool" where
  "channels n \<longleftrightarrow> (let x = cl n; y = sv n in
     to_sv n = (if hello_posted x \<and> phase y = P_Hello then [''hello''] else []) @
       (if ack_posted x \<and> phase y \<noteq> P_Done then [''ack''] else []) \<and>
     to_cl n = (if P_Ack \<le> phase y \<and> \<not> world_received x then [''world''] else []) \<and>
     (phase y \<noteq> P_Hello \<longrightarrow> hello_posted x) \<and> (world_received x \<longrightarrow> P_Ack \<le> phase y) \<and>
     (phase y = P_Done \<longrightarrow> ack_posted x))"

definition net_inv :: "net \<Rightarrow> bool" where
  "net_inv n \<longleftrightarrow> client_part n \<and> server_part n \<and> channels n"

lemmas net_inv_defs = net_inv_def client_part_def server_part_def channels_def Let_def

lemmas phase_order = less_eq_phase_def less_phase_def phase_rank_def

inductive_simps heard_simp: "server_step y (Got e) z"
inductive_simps reply_simp: "server_step y (Put m) z"
inductive_simps put_simp: "client_step x (Put m) z"

lemma net_start_inv: "net_inv net_start"
  by (simp add: net_inv_defs net_start_def exchange_default_def exchange_new_def phase_order)

lemma cl_put_inv:
  assumes "net_inv n" and "client_step (cl n) (Put m) x"
  shows "net_inv (n\<lparr>cl := x, cl_flight := cl_flight n + 1, to_sv := to_sv n @ [m]\<rparr>)"
proof -
  obtain k where k: "next_message (cl n) = Some k" "m = message_bytes k" "x = posted k (cl n)"
    using assms(2) by (auto simp: put_simp)
  show ?thesis
  proof (cases k)
    case Hello
    with k have h: "\<not> hello_posted (cl n)" "Client.connected (cl n)" by (auto simp: next_message_def split: if_splits)
    then have "\<not> hello_completed (cl n) \<and> \<not> ack_posted (cl n) \<and> phase (sv n) = P_Hello \<and> \<not> world_received (cl n)"
      using assms(1) unfolding net_inv_defs by (cases "phase (sv n)"; simp add: phase_order; blast)
    then show ?thesis using assms(1) k Hello h
      by (simp add: net_inv_defs posted_def message_bytes_def phase_order; blast)
  next
    case Ack
    with k have h: "hello_completed (cl n)" "world_received (cl n)" "\<not> ack_posted (cl n)"
      by (auto simp: next_message_def split: if_splits)
    then have "hello_posted (cl n) \<and> \<not> ack_completed (cl n) \<and> phase (sv n) = P_Ack"
      using assms(1) unfolding net_inv_defs by (cases "phase (sv n)"; simp add: phase_order; blast)
    then show ?thesis using assms(1) k Ack h
      by (simp add: net_inv_defs posted_def message_bytes_def phase_order; blast)
  qed
qed

lemma cl_sent_inv:
  assumes "net_inv n" and "cl_flight n = Suc k" and "client_step (cl n) (Got Sent) x"
  shows "net_inv (n\<lparr>cl := x, cl_flight := k\<rparr>)"
proof -
  consider "ack_posted (cl n)" "\<not> ack_completed (cl n)" "x = (cl n)\<lparr>ack_completed := True\<rparr>"
    | "\<not> (ack_posted (cl n) \<and> \<not> ack_completed (cl n))" "hello_posted (cl n)" "\<not> hello_completed (cl n)"
      "x = (cl n)\<lparr>hello_completed := True\<rparr>"
    using assms(3) by (auto simp: got_step_simp Client.on_event_def split: if_splits)
  then show ?thesis
  proof cases
    case 1
    then show ?thesis using assms by (simp add: net_inv_defs; blast)
  next
    case 2
    then have "\<not> ack_posted (cl n)" using assms(1) unfolding net_inv_defs by argo
    with 2 show ?thesis using assms by (simp add: net_inv_defs; blast)
  qed
qed

lemma sv_sent_inv:
  assumes "net_inv n" and "sv_flight n = Suc k" and "server_step (sv n) (Got Sent) y"
  shows "net_inv (n\<lparr>sv := y, sv_flight := k\<rparr>)"
proof -
  have y: "y = (sv n)\<lparr>sent := True\<rparr>" using assms(3) by (simp add: heard_simp Server.on_event_def)
  have "sv_flight n = (if P_Ack \<le> phase (sv n) \<and> \<not> sent (sv n) then 1 else 0)"
    using assms(1) unfolding net_inv_defs by argo
  then have "P_Ack \<le> phase (sv n)" "\<not> sent (sv n)" "k = 0" using assms(2) by (simp_all split: if_splits)
  then show ?thesis using assms y by (simp add: net_inv_defs)
qed

lemma sv_hear_inv:
  assumes "net_inv n" and "to_sv n = m # ms" and "server_step (sv n) (Got (Received m)) y"
  shows "net_inv (n\<lparr>sv := y, sv_armed := False, to_sv := ms\<rparr>)"
proof -
  consider "phase (sv n) = P_Hello" "m = ''hello''" "y = (sv n)\<lparr>phase := P_Reply\<rparr>"
    | "phase (sv n) = P_Ack" "m = ''ack''" "y = (sv n)\<lparr>phase := P_Done\<rparr>"
    using assms(3) by (auto simp: heard_simp Server.on_event_def split: if_splits)
  then show ?thesis
    by cases (use assms(1,2) in \<open>simp add: net_inv_defs phase_order split: if_splits; blast\<close>)+
qed

lemma net_step_inv:
  assumes "net_step n n'" and "net_inv n"
  shows "net_inv n'"
  using assms(1)
proof cases
  case (cl_connected x)
  then have "x = (cl n)\<lparr>Client.connected := True\<rparr>" by (simp add: got_step_simp Client.on_event_def)
  then show ?thesis using assms(2) cl_connected by (simp add: net_inv_defs; blast)
next
  case (cl_hear m ms x)
  then have x: "\<not> world_received (cl n)" "m = ''world''" "hello_posted (cl n)" "x = (cl n)\<lparr>world_received := True\<rparr>"
    by (auto simp: got_step_simp Client.on_event_def split: if_splits)
  then show ?thesis using assms(2) cl_hear
    by (cases "phase (sv n)"; simp add: net_inv_defs phase_order; blast)
next
  case (sv_connected y)
  then have "y = (sv n)\<lparr>Server.connected := True\<rparr>" by (simp add: heard_simp Server.on_event_def)
  then show ?thesis using assms(2) sv_connected by (simp add: net_inv_defs; blast)
next
  case (sv_put m y)
  then have y: "m = ''world''" "phase (sv n) = P_Reply" "Server.connected (sv n)" "y = (sv n)\<lparr>phase := P_Ack\<rparr>"
    by (auto simp: reply_simp)
  then show ?thesis using assms(2) sv_put by (simp add: net_inv_defs phase_order; blast)
qed (use assms(2) cl_put_inv cl_sent_inv sv_sent_inv sv_hear_inv in blast)+

lemma net_reach_inv: "net_step\<^sup>*\<^sup>* net_start n \<Longrightarrow> net_inv n"
  by (induction rule: rtranclp_induct) (auto intro: net_start_inv net_step_inv)

subsection \<open>No refusal\<close>

text \<open>
  Whatever is in flight is welcome: the receiver has a receive posted, and its exchange state
  accepts the message; a completion that is due is accepted too.
\<close>

lemma net_welcome:
  assumes "net_inv n"
  shows "to_cl n = m # ms \<Longrightarrow> cl_armed n \<and> (\<exists>x. client_step (cl n) (Got (Received m)) x)"
    and "to_sv n = m # ms \<Longrightarrow> sv_armed n \<and> (\<exists>y. server_step (sv n) (Got (Received m)) y)"
    and "0 < cl_flight n \<Longrightarrow> \<exists>x. client_step (cl n) (Got Sent) x"
proof -
  show "cl_armed n \<and> (\<exists>x. client_step (cl n) (Got (Received m)) x)" if h: "to_cl n = m # ms"
  proof -
    have "to_cl n = (if P_Ack \<le> phase (sv n) \<and> \<not> world_received (cl n) then [''world''] else [])"
      using assms unfolding net_inv_defs by argo
    with h have p: "P_Ack \<le> phase (sv n)" "\<not> world_received (cl n)" "m = ''world''"
      by (simp_all split: if_splits)
    have "phase (sv n) \<noteq> P_Hello" using p(1) by (auto simp: phase_order)
    then have "hello_posted (cl n)" "cl_armed n" using assms p(2) unfolding net_inv_defs by argo+
    with p show ?thesis by (auto simp: got_step_simp Client.on_event_def)
  qed
  show "sv_armed n \<and> (\<exists>y. server_step (sv n) (Got (Received m)) y)" if h: "to_sv n = m # ms"
  proof -
    have "to_sv n = (if hello_posted (cl n) \<and> phase (sv n) = P_Hello then [''hello''] else []) @
       (if ack_posted (cl n) \<and> phase (sv n) \<noteq> P_Done then [''ack''] else [])"
      using assms unfolding net_inv_defs by argo
    moreover have "ack_posted (cl n) \<longrightarrow> phase (sv n) \<noteq> P_Hello"
      using assms unfolding net_inv_defs by (cases "phase (sv n)"; simp add: phase_order; blast)
    ultimately consider "phase (sv n) = P_Hello" "m = ''hello''"
      | "phase (sv n) \<noteq> P_Hello" "phase (sv n) \<noteq> P_Done" "ack_posted (cl n)" "m = ''ack''"
      using h by (auto split: if_splits)
    then show ?thesis
    proof cases
      case 1
      moreover have "sv_armed n" using 1 assms unfolding net_inv_defs by argo
      ultimately show ?thesis by (auto simp: heard_simp Server.on_event_def)
    next
      case 2
      have "P_Ack \<le> phase (sv n)" using 2(3) assms unfolding net_inv_defs by argo
      then have "phase (sv n) = P_Ack" using 2(2) by (cases "phase (sv n)") (simp_all add: phase_order)
      moreover from this have "sv_armed n" using assms unfolding net_inv_defs by argo
      ultimately show ?thesis using 2(4) by (auto simp: heard_simp Server.on_event_def)
    qed
  qed
  show "\<exists>x. client_step (cl n) (Got Sent) x" if h: "0 < cl_flight n"
  proof -
    have "cl_flight n = (if hello_posted (cl n) \<and> \<not> hello_completed (cl n) then 1 else 0) +
       (if ack_posted (cl n) \<and> \<not> ack_completed (cl n) then 1 else 0)"
      using assms unfolding net_inv_defs by argo
    with h have "hello_posted (cl n) \<and> \<not> hello_completed (cl n) \<or> ack_posted (cl n) \<and> \<not> ack_completed (cl n)"
      by (simp split: if_splits)
    then show ?thesis by (auto simp: got_step_simp Client.on_event_def)
  qed
qed

subsection \<open>Progress and termination\<close>

fun tick :: "bool \<Rightarrow> nat" where
  "tick True = 1"
| "tick False = 0"

definition weight :: "net \<Rightarrow> nat" where
  "weight n = tick (cl_up n) + tick (hello_posted (cl n)) + tick (hello_completed (cl n)) +
     tick (world_received (cl n)) + tick (ack_posted (cl n)) + tick (ack_completed (cl n)) +
     tick (sv_up n) + phase_rank (phase (sv n)) + tick (sent (sv n))"

lemma weight_step:
  assumes "net_step n n'" and "net_inv n"
  shows "weight n' = Suc (weight n)"
  using assms(1)
proof cases
  case (cl_connected x)
  then show ?thesis by (auto simp: weight_def got_step_simp Client.on_event_def)
next
  case (cl_put m x)
  then show ?thesis
    by (auto simp: weight_def put_simp next_message_def posted_def split: if_splits)
next
  case (cl_sent k x)
  then show ?thesis by (auto simp: weight_def got_step_simp Client.on_event_def split: if_splits)
next
  case (cl_hear m ms x)
  then show ?thesis by (auto simp: weight_def got_step_simp Client.on_event_def split: if_splits)
next
  case (sv_connected y)
  then show ?thesis by (auto simp: weight_def heard_simp Server.on_event_def)
next
  case (sv_put m y)
  then show ?thesis by (auto simp: weight_def reply_simp phase_rank_def)
next
  case (sv_sent k y)
  have "sv_flight n = (if P_Ack \<le> phase (sv n) \<and> \<not> sent (sv n) then 1 else 0)"
    using assms(2) unfolding net_inv_defs by argo
  then have "\<not> sent (sv n)" using sv_sent(2) by (simp split: if_splits)
  then show ?thesis using sv_sent by (auto simp: weight_def heard_simp Server.on_event_def)
next
  case (sv_hear m ms y)
  then show ?thesis
    by (auto simp: weight_def heard_simp Server.on_event_def phase_rank_def split: if_splits)
qed

lemma weight_bound: "weight n \<le> 11"
proof -
  have r: "phase_rank (phase (sv n)) \<le> 3" by (simp add: phase_rank_def split: phase.split)
  have t: "tick b \<le> 1" for b by (cases b) simp_all
  show ?thesis
    using r t [of "cl_up n"] t [of "hello_posted (cl n)"] t [of "hello_completed (cl n)"]
      t [of "world_received (cl n)"] t [of "ack_posted (cl n)"] t [of "ack_completed (cl n)"]
      t [of "sv_up n"] t [of "sent (sv n)"]
    unfolding weight_def by linarith
qed

definition both_complete :: "net \<Rightarrow> bool" where
  "both_complete n \<longleftrightarrow> Client.complete (cl n) \<and> Server.complete (sv n)"

text \<open>When nothing is under way and neither side can submit, the exchange is over.\<close>

lemma quiet_complete:
  assumes "net_inv n" and "cl_flight n = 0" and "to_sv n = []" and "to_cl n = []" and "sv_flight n = 0"
    and "hello_posted (cl n)" and "phase (sv n) \<noteq> P_Reply"
    and "\<not> (hello_completed (cl n) \<and> world_received (cl n) \<and> \<not> ack_posted (cl n))"
  shows "both_complete n"
proof -
  let ?x = "cl n" and ?y = "sv n"
  have flight: "cl_flight n = (if hello_posted ?x \<and> \<not> hello_completed ?x then 1 else 0) +
       (if ack_posted ?x \<and> \<not> ack_completed ?x then 1 else 0)"
    and sv_flight: "sv_flight n = (if P_Ack \<le> phase ?y \<and> \<not> sent ?y then 1 else 0)"
    and to_sv: "to_sv n = (if hello_posted ?x \<and> phase ?y = P_Hello then [''hello''] else []) @
       (if ack_posted ?x \<and> phase ?y \<noteq> P_Done then [''ack''] else [])"
    and to_cl: "to_cl n = (if P_Ack \<le> phase ?y \<and> \<not> world_received ?x then [''world''] else [])"
    using assms(1) unfolding net_inv_defs by argo+
  have c: "hello_completed ?x" using assms(2,6) flight by (simp split: if_splits)
  have "phase ?y \<noteq> P_Hello" using assms(3,6) to_sv by (simp split: if_splits)
  then have a: "P_Ack \<le> phase ?y" using assms(7) by (cases "phase ?y") (simp_all add: phase_order)
  then have w: "world_received ?x" using assms(4) to_cl by (simp split: if_splits)
  then have p: "ack_posted ?x" using assms(8) c by simp
  then have "phase ?y = P_Done" using assms(3) to_sv by (simp split: if_splits)
  moreover have "sent ?y" using assms(5) a sv_flight by (simp split: if_splits)
  moreover have "ack_completed ?x" using assms(2) p flight by (simp split: if_splits)
  ultimately show ?thesis using c w
    by (simp add: both_complete_def Client.complete_def Server.complete_def)
qed

lemma cl_put_next:
  "next_message (cl n) = Some m \<Longrightarrow> \<not> Client.complete (cl n) \<Longrightarrow> \<exists>n'. net_step n n'"
  using net_step.cl_put [of n "message_bytes m"] put by blast

lemma net_progress:
  assumes "net_inv n" and "\<not> both_complete n"
  shows "\<exists>n'. net_step n n'"
proof -
  let ?x = "cl n" and ?y = "sv n"
  have up: "Client.connected ?x = cl_up n" "\<not> Client.peer_closed ?x" "Server.connected ?y = sv_up n"
      "\<not> Server.peer_closed ?y"
    using assms(1) unfolding net_inv_defs by argo+
  have hear_sv: "\<exists>n'. net_step n n'" if "to_sv n \<noteq> []"
    using net_welcome(2) [OF assms(1)] that by (metis list.exhaust sv_hear)
  have hear_cl: "\<exists>n'. net_step n n'" if "to_cl n \<noteq> []"
    using net_welcome(1) [OF assms(1)] that by (metis list.exhaust cl_hear)
  have done_cl: "\<exists>n'. net_step n n'" if "0 < cl_flight n"
    using net_welcome(3) [OF assms(1) that] that by (metis gr0_implies_Suc cl_sent)
  have done_sv: "\<exists>n'. net_step n n'" if f: "0 < sv_flight n"
  proof -
    obtain k where "sv_flight n = Suc k" using f by (metis gr0_implies_Suc)
    then show ?thesis
      using net_step.sv_sent [of n k "?y\<lparr>sent := True\<rparr>"] by (auto simp: heard_simp Server.on_event_def)
  qed
  have open': "\<not> Client.complete ?x" if "\<not> hello_posted ?x \<or> \<not> ack_posted ?x"
    using that assms(1) unfolding Client.complete_def net_inv_defs by argo
  consider "\<not> cl_up n" | "\<not> sv_up n" | "cl_up n" "\<not> hello_posted ?x" | "sv_up n" "phase ?y = P_Reply"
    | "cl_up n" "hello_posted ?x" "hello_completed ?x" "world_received ?x" "\<not> ack_posted ?x"
    | "0 < cl_flight n \<or> to_sv n \<noteq> [] \<or> to_cl n \<noteq> [] \<or> 0 < sv_flight n"
    using quiet_complete [OF assms(1)] assms(2) by blast
  then show ?thesis
  proof cases
    case 1
    then show ?thesis
      using cl_connected [of n "?x\<lparr>Client.connected := True\<rparr>"] by (auto simp: got_step_simp Client.on_event_def)
  next
    case 2
    then show ?thesis
      using sv_connected [of n "?y\<lparr>Server.connected := True\<rparr>"] by (auto simp: heard_simp Server.on_event_def)
  next
    case 4
    then have "\<not> Server.complete ?y" by (simp add: Server.complete_def)
    then show ?thesis using net_step.sv_put [of n "''world''"] reply 4 up by blast
  qed (use cl_put_next [of n] open' up hear_sv hear_cl done_cl done_sv in \<open>auto simp: next_message_def\<close>)
qed

lemma net_runs: "(net_step ^^ k) net_start n \<Longrightarrow> net_inv n \<and> weight n = k"
proof (induction k arbitrary: n)
  case 0
  then have "n = net_start" by simp
  then show ?case using net_start_inv
    by (simp add: weight_def net_start_def exchange_default_def exchange_new_def phase_rank_def)
next
  case (Suc k)
  then obtain m where "(net_step ^^ k) net_start m" "net_step m n" by auto
  with Suc.IH show ?case using net_step_inv weight_step by blast
qed

lemma complete_weight:
  assumes "net_inv n" and "both_complete n"
  shows "weight n = 11"
proof -
  have c: "world_received (cl n)" "hello_completed (cl n)" "ack_completed (cl n)"
    "phase (sv n) = P_Done" "sent (sv n)"
    using assms(2) by (simp_all add: both_complete_def Client.complete_def Server.complete_def)
  moreover have "ack_posted (cl n)" "hello_posted (cl n)" "cl_up n"
    using c assms(1) unfolding net_inv_defs by argo+
  moreover have "sv_up n" using c assms(1) unfolding net_inv_defs by (simp add: phase_order)
  ultimately show ?thesis by (simp add: weight_def phase_rank_def)
qed

text \<open>
  Every run has at most eleven steps, whichever way its steps interleave, and it can be
  extended until both sides are complete, and only until then.
\<close>

lemma net_exact:
  assumes "(net_step ^^ k) net_start n"
  shows "k \<le> 11" and "(\<exists>n'. net_step n n') \<longleftrightarrow> \<not> both_complete n" and "both_complete n \<longleftrightarrow> k = 11"
proof -
  have i: "net_inv n" and w: "weight n = k" using net_runs [OF assms] by simp_all
  show le: "k \<le> 11" using weight_bound [of n] w by simp
  have stuck: "\<nexists>n'. net_step n n'" if "weight n = 11"
    using weight_step [OF _ i] weight_bound that by (metis Suc_n_not_le_n)
  show "(\<exists>n'. net_step n n') \<longleftrightarrow> \<not> both_complete n"
    using net_progress [OF i] stuck complete_weight [OF i] by blast
  show "both_complete n \<longleftrightarrow> k = 11"
    using net_progress [OF i] stuck complete_weight [OF i] w by blast
qed

end
