(* ===== verification/Shutdown.thy ===== *)
theory Shutdown
  imports Protocol
begin

text \<open>
  The composition with shutdowns: a side that is complete leaves its loop and closes its
  connection at any later time, and the other side, while it still polls, may then observe
  \<open>PeerClosed\<close>, which stops it from submitting anything new. Forgetting the closed flags is a
  stuttering refinement onto the composition without shutdowns, so its invariant and its
  progress carry over: closing early never costs the other side its exchange.
\<close>

record pair =
  net :: net
  cl_shut :: bool
  sv_shut :: bool
  cl_told :: bool
  sv_told :: bool

definition pair_start :: pair where
  "pair_start = \<lparr>net = net_start, cl_shut = False, sv_shut = False, cl_told = False, sv_told = False\<rparr>"

inductive pair_step :: "pair \<Rightarrow> pair \<Rightarrow> bool" where
  exchanges: "net_step (net p) n \<Longrightarrow> pair_step p (p\<lparr>net := n\<rparr>)"
| cl_shuts: "Client.complete (cl (net p)) \<Longrightarrow> \<not> cl_shut p \<Longrightarrow> pair_step p (p\<lparr>cl_shut := True\<rparr>)"
| sv_shuts: "Server.complete (sv (net p)) \<Longrightarrow> \<not> sv_shut p \<Longrightarrow> pair_step p (p\<lparr>sv_shut := True\<rparr>)"
| cl_tells: "cl_shut p \<Longrightarrow> \<not> sv_told p \<Longrightarrow> \<not> Server.complete (sv (net p)) \<Longrightarrow>
    server_step (sv (net p)) (Got PeerClosed) y \<Longrightarrow>
    pair_step p (p\<lparr>net := (net p)\<lparr>sv := y\<rparr>, sv_told := True\<rparr>)"
| sv_tells: "sv_shut p \<Longrightarrow> \<not> cl_told p \<Longrightarrow> \<not> Client.complete (cl (net p)) \<Longrightarrow>
    client_step (cl (net p)) (Got PeerClosed) x \<Longrightarrow>
    pair_step p (p\<lparr>net := (net p)\<lparr>cl := x\<rparr>, cl_told := True\<rparr>)"

subsection \<open>Forgetting the closed flags\<close>

definition unclosed :: "net \<Rightarrow> net" where
  "unclosed n = n\<lparr>cl := (cl n)\<lparr>Client.peer_closed := False\<rparr>, sv := (sv n)\<lparr>Server.peer_closed := False\<rparr>\<rparr>"

lemma unclosed_simps [simp]:
  "cl (unclosed n) = (cl n)\<lparr>Client.peer_closed := False\<rparr>"
  "sv (unclosed n) = (sv n)\<lparr>Server.peer_closed := False\<rparr>"
  "cl_up (unclosed n) = cl_up n" "cl_armed (unclosed n) = cl_armed n" "cl_flight (unclosed n) = cl_flight n"
  "to_cl (unclosed n) = to_cl n" "sv_up (unclosed n) = sv_up n" "sv_armed (unclosed n) = sv_armed n"
  "sv_flight (unclosed n) = sv_flight n" "to_sv (unclosed n) = to_sv n"
  by (simp_all add: unclosed_def)

lemma complete_unclosed [simp]:
  "Client.complete (x\<lparr>Client.peer_closed := b\<rparr>) = Client.complete x"
  "Server.complete (y\<lparr>Server.peer_closed := b\<rparr>) = Server.complete y"
  by (simp_all add: Client.complete_def Server.complete_def)

lemma client_step_unclosed:
  assumes "client_step x l z" and "l \<noteq> Got PeerClosed"
  shows "client_step (x\<lparr>Client.peer_closed := False\<rparr>) l (z\<lparr>Client.peer_closed := False\<rparr>)"
  using assms
proof cases
  case (got e)
  then show ?thesis using assms(2)
    by (auto simp: got_step_simp Client.on_event_def split: event.splits if_splits)
next
  case (put m)
  then have "next_message (x\<lparr>Client.peer_closed := False\<rparr>) = Some m"
    by (auto simp: next_message_def split: if_splits)
  with put show ?thesis
    using client_step.put [of "x\<lparr>Client.peer_closed := False\<rparr>" m]
    by (cases x; cases m) (simp_all add: Client.posted_def Client.complete_def)
qed

lemma server_step_unclosed:
  assumes "server_step y l z" and "l \<noteq> Got PeerClosed"
  shows "server_step (y\<lparr>Server.peer_closed := False\<rparr>) l (z\<lparr>Server.peer_closed := False\<rparr>)"
  using assms
proof cases
  case (heard e)
  then show ?thesis using assms(2)
    by (auto simp: heard_simp Server.on_event_def split: event.splits if_splits)
next
  case reply
  then show ?thesis using server_step.reply [of "y\<lparr>Server.peer_closed := False\<rparr>"] by (cases y) (simp add: Server.complete_def)
qed

lemma net_step_unclosed:
  assumes "net_step n n'"
  shows "net_step (unclosed n) (unclosed n')"
  using assms
proof cases
  case (cl_connected x)
  then show ?thesis
    using net_step.cl_connected [of "unclosed n"] client_step_unclosed [OF cl_connected(3)]
    by (cases n) (simp add: unclosed_def)
next
  case (cl_put m x)
  then show ?thesis
    using net_step.cl_put [of "unclosed n"] client_step_unclosed [OF cl_put(2)]
    by (cases n) (simp add: unclosed_def)
next
  case (cl_sent k x)
  then show ?thesis
    using net_step.cl_sent [of "unclosed n"] client_step_unclosed [OF cl_sent(3)]
    by (cases n) (simp add: unclosed_def)
next
  case (cl_hear m ms x)
  then show ?thesis
    using net_step.cl_hear [of "unclosed n"] client_step_unclosed [OF cl_hear(4)]
    by (cases n) (simp add: unclosed_def)
next
  case (sv_connected y)
  then show ?thesis
    using net_step.sv_connected [of "unclosed n"] server_step_unclosed [OF sv_connected(3)]
    by (cases n) (simp add: unclosed_def)
next
  case (sv_put m y)
  then show ?thesis
    using net_step.sv_put [of "unclosed n"] server_step_unclosed [OF sv_put(2)]
    by (cases n) (simp add: unclosed_def)
next
  case (sv_sent k y)
  then show ?thesis
    using net_step.sv_sent [of "unclosed n"] server_step_unclosed [OF sv_sent(3)]
    by (cases n) (simp add: unclosed_def)
next
  case (sv_hear m ms y)
  then show ?thesis
    using net_step.sv_hear [of "unclosed n"] server_step_unclosed [OF sv_hear(4)]
    by (cases n) (simp add: unclosed_def)
qed

lemma told_unclosed:
  "client_step (cl n) (Got PeerClosed) x \<Longrightarrow> unclosed (n\<lparr>cl := x\<rparr>) = unclosed n"
  "server_step (sv n) (Got PeerClosed) y \<Longrightarrow> unclosed (n\<lparr>sv := y\<rparr>) = unclosed n"
  by (auto simp: got_step_simp heard_simp Client.on_event_def Server.on_event_def unclosed_def)

subsection \<open>Invariant\<close>

lemma client_step_monotone:
  assumes "client_step x l y"
  shows "Client.complete x \<Longrightarrow> Client.complete y"
    and "l \<noteq> Got PeerClosed \<Longrightarrow> Client.peer_closed y = Client.peer_closed x"
  using assms
  by (cases; auto simp: Client.complete_def Client.on_event_def Client.posted_def
      split: event.splits if_splits message.splits)+

lemma server_step_monotone:
  assumes "server_step x l y"
  shows "Server.complete x \<Longrightarrow> Server.complete y"
    and "l \<noteq> Got PeerClosed \<Longrightarrow> Server.peer_closed y = Server.peer_closed x"
  using assms
  by (cases; auto simp: Server.complete_def Server.on_event_def split: event.splits if_splits)+

definition pair_inv :: "pair \<Rightarrow> bool" where
  "pair_inv p \<longleftrightarrow> net_inv (unclosed (net p)) \<and>
     Client.peer_closed (cl (net p)) = cl_told p \<and> Server.peer_closed (sv (net p)) = sv_told p \<and>
     (cl_shut p \<longrightarrow> Client.complete (cl (net p))) \<and> (sv_shut p \<longrightarrow> Server.complete (sv (net p))) \<and>
     (cl_told p \<longrightarrow> sv_shut p) \<and> (sv_told p \<longrightarrow> cl_shut p) \<and> \<not> (cl_told p \<and> sv_told p)"

lemma pair_start_inv: "pair_inv pair_start"
proof -
  have "unclosed net_start = net_start"
    by (simp add: unclosed_def net_start_def exchange_default_def exchange_new_def)
  then show ?thesis using net_start_inv
    by (simp add: pair_inv_def pair_start_def) (simp add: net_start_def exchange_default_def exchange_new_def)
qed

lemma net_step_monotone:
  assumes "net_step n n'"
  shows "Client.complete (cl n) \<Longrightarrow> Client.complete (cl n')" "Server.complete (sv n) \<Longrightarrow> Server.complete (sv n')"
    and "Client.peer_closed (cl n') = Client.peer_closed (cl n)"
    "Server.peer_closed (sv n') = Server.peer_closed (sv n)"
  using assms by (cases; auto dest: client_step_monotone server_step_monotone)+

lemma pair_step_inv:
  assumes "pair_step p q" and "pair_inv p"
  shows "pair_inv q"
  using assms(1)
proof cases
  case (exchanges n)
  have "net_inv (unclosed n)"
    using net_step_inv [OF net_step_unclosed [OF exchanges(2)]] assms(2) by (simp add: pair_inv_def)
  then show ?thesis
    using assms(2) exchanges(1) net_step_monotone [OF exchanges(2)] by (auto simp: pair_inv_def)
next
  case (cl_tells y)
  have "unclosed ((net p)\<lparr>sv := y\<rparr>) = unclosed (net p)" using told_unclosed(2) [OF cl_tells(5)] .
  moreover have "Server.peer_closed y" using cl_tells(5) by (auto simp: heard_simp Server.on_event_def)
  ultimately show ?thesis
    using assms(2) cl_tells server_step_monotone(1) [OF cl_tells(5)] by (auto simp: pair_inv_def)
next
  case (sv_tells x)
  have "unclosed ((net p)\<lparr>cl := x\<rparr>) = unclosed (net p)" using told_unclosed(1) [OF sv_tells(5)] .
  moreover have "Client.peer_closed x" using sv_tells(5) by (auto simp: got_step_simp Client.on_event_def)
  ultimately show ?thesis
    using assms(2) sv_tells client_step_monotone(1) [OF sv_tells(5)] by (auto simp: pair_inv_def)
qed (use assms(2) in \<open>auto simp: pair_inv_def\<close>)

lemma pair_reach_inv: "pair_step\<^sup>*\<^sup>* pair_start p \<Longrightarrow> pair_inv p"
  by (induction rule: rtranclp_induct) (auto intro: pair_start_inv pair_step_inv)

text \<open>The refinement: each step is one of the composition without shutdowns, or none.\<close>

lemma pair_step_refines:
  assumes "pair_step p q"
  shows "net_step (unclosed (net p)) (unclosed (net q)) \<or> unclosed (net q) = unclosed (net p)"
  using assms by cases (auto dest: net_step_unclosed told_unclosed)

subsection \<open>Progress and termination\<close>

definition closed_down :: "pair \<Rightarrow> bool" where
  "closed_down p \<longleftrightarrow> both_complete (net p) \<and> cl_shut p \<and> sv_shut p"

text \<open>A side that was told of the close has nothing left to submit.\<close>

lemma told_nothing_to_put:
  assumes "pair_inv p"
  shows "cl_told p \<Longrightarrow> hello_posted (cl (net p)) \<and> ack_posted (cl (net p))"
    and "sv_told p \<Longrightarrow> phase (sv (net p)) \<noteq> P_Reply"
proof -
  have i: "net_inv (unclosed (net p))" using assms by (simp add: pair_inv_def)
  show "hello_posted (cl (net p)) \<and> ack_posted (cl (net p))" if "cl_told p"
  proof -
    have "phase (sv (net p)) = P_Done" using that assms by (auto simp: pair_inv_def Server.complete_def)
    then show ?thesis using i by (simp add: net_inv_defs phase_order)
  qed
  show "phase (sv (net p)) \<noteq> P_Reply" if "sv_told p"
  proof -
    have "world_received (cl (net p))" using that assms by (auto simp: pair_inv_def Client.complete_def)
    then show ?thesis using i by (auto simp: net_inv_defs phase_order)
  qed
qed

lemma client_step_lift:
  assumes "client_step (x\<lparr>Client.peer_closed := False\<rparr>) l z"
    and "\<And>m. l = Put m \<Longrightarrow> Client.peer_closed x \<Longrightarrow> hello_posted x \<and> ack_posted x"
  shows "\<exists>z. client_step x l z"
proof (cases l)
  case (Got e)
  then show ?thesis using assms(1)
    by (cases e) (auto simp: got_step_simp Client.on_event_def split: if_splits)
next
  case (Put m)
  obtain k where k: "next_message (x\<lparr>Client.peer_closed := False\<rparr>) = Some k" "m = message_bytes k"
    "\<not> Client.complete x"
    using assms(1) Put by (auto simp: put_simp)
  then have "\<not> (hello_posted x \<and> ack_posted x)" by (auto simp: next_message_def split: if_splits)
  then have "\<not> Client.peer_closed x" using assms(2) [OF Put] by blast
  then have "next_message x = Some k" using k(1) by (auto simp: next_message_def split: if_splits)
  with k show ?thesis using client_step.put [of x k] Put by blast
qed

lemma server_step_lift:
  assumes "server_step (y\<lparr>Server.peer_closed := False\<rparr>) l z"
    and "\<And>m. l = Put m \<Longrightarrow> Server.peer_closed y \<Longrightarrow> phase y \<noteq> P_Reply"
  shows "\<exists>z. server_step y l z"
proof (cases l)
  case (Got e)
  then show ?thesis using assms(1)
    by (cases e) (auto simp: heard_simp Server.on_event_def split: if_splits)
next
  case (Put m)
  then have r: "m = ''world''" "\<not> Server.complete y" "Server.connected y" "phase y = P_Reply"
    using assms(1) by (auto simp: reply_simp)
  then have "\<not> Server.peer_closed y" using assms(2) [OF Put] by blast
  with r show ?thesis using server_step.reply [of y] Put by blast
qed

lemma net_step_lift:
  assumes "net_step (unclosed n) n'"
    and "Client.peer_closed (cl n) \<Longrightarrow> hello_posted (cl n) \<and> ack_posted (cl n)"
    and "Server.peer_closed (sv n) \<Longrightarrow> phase (sv n) \<noteq> P_Reply"
  shows "\<exists>n'. net_step n n'"
proof -
  note c = client_step_lift [of "cl n"] assms(2) and s = server_step_lift [of "sv n"] assms(3)
  show ?thesis
    using assms(1)
  proof cases
    case (cl_connected x)
    then show ?thesis using c net_step.cl_connected [of n] by (metis label.distinct(1) unclosed_simps(1,3))
  next
    case (cl_put m x)
    then show ?thesis using c net_step.cl_put [of n] by (metis unclosed_simps(1))
  next
    case (cl_sent k x)
    then show ?thesis using c net_step.cl_sent [of n] by (metis label.distinct(1) unclosed_simps(1,5))
  next
    case (cl_hear m ms x)
    then show ?thesis using c net_step.cl_hear [of n] by (metis label.distinct(1) unclosed_simps(1,4,6))
  next
    case (sv_connected y)
    then show ?thesis using s net_step.sv_connected [of n] by (metis label.distinct(1) unclosed_simps(2,7))
  next
    case (sv_put m y)
    then show ?thesis using s net_step.sv_put [of n] by (metis unclosed_simps(2))
  next
    case (sv_sent k y)
    then show ?thesis using s net_step.sv_sent [of n] by (metis label.distinct(1) unclosed_simps(2,9))
  next
    case (sv_hear m ms y)
    then show ?thesis using s net_step.sv_hear [of n] by (metis label.distinct(1) unclosed_simps(2,8,10))
  qed
qed

lemma pair_progress:
  assumes "pair_inv p" and "\<not> closed_down p"
  shows "\<exists>q. pair_step p q"
proof (cases "both_complete (net p)")
  case True
  then show ?thesis
    using assms(2) pair_step.cl_shuts [of p] pair_step.sv_shuts [of p]
    by (auto simp: closed_down_def both_complete_def)
next
  case False
  then have "\<not> both_complete (unclosed (net p))" by (simp add: both_complete_def)
  then obtain n' where "net_step (unclosed (net p)) n'"
    using net_progress assms(1) by (auto simp: pair_inv_def)
  then have "\<exists>n'. net_step (net p) n'"
    by (rule net_step_lift) (use told_nothing_to_put [OF assms(1)] assms(1) in \<open>auto simp: pair_inv_def\<close>)
  then show ?thesis using pair_step.exchanges by blast
qed

definition pair_weight :: "pair \<Rightarrow> nat" where
  "pair_weight p = weight (net p) + tick (cl_shut p) + tick (sv_shut p) + tick (cl_told p) + tick (sv_told p)"

lemma weight_unclosed [simp]: "weight (unclosed n) = weight n"
  by (simp add: weight_def)

lemma told_weight:
  "client_step (cl n) (Got PeerClosed) x \<Longrightarrow> weight (n\<lparr>cl := x\<rparr>) = weight n"
  "server_step (sv n) (Got PeerClosed) y \<Longrightarrow> weight (n\<lparr>sv := y\<rparr>) = weight n"
  using told_unclosed weight_unclosed by metis+

lemma pair_weight_step:
  assumes "pair_step p q" and "pair_inv p"
  shows "pair_weight q = Suc (pair_weight p)"
  using assms(1)
proof cases
  case (exchanges n)
  have "weight n = Suc (weight (net p))"
    using weight_step [OF net_step_unclosed [OF exchanges(2)]] assms(2) by (simp add: pair_inv_def)
  with exchanges show ?thesis by (simp add: pair_weight_def)
next
  case (cl_tells y)
  then show ?thesis using told_weight by (simp add: pair_weight_def)
next
  case (sv_tells x)
  then show ?thesis using told_weight by (simp add: pair_weight_def)
qed (simp_all add: pair_weight_def)

lemma pair_runs: "(pair_step ^^ k) pair_start p \<Longrightarrow> pair_inv p \<and> pair_weight p = k"
proof (induction k arbitrary: p)
  case 0
  then show ?case using pair_start_inv
    by (auto simp: pair_weight_def weight_def pair_start_def net_start_def exchange_default_def
        exchange_new_def phase_rank_def)
next
  case (Suc k)
  then obtain m where "(pair_step ^^ k) pair_start m" "pair_step m p" by auto
  with Suc.IH show ?case using pair_step_inv pair_weight_step by blast
qed

lemma pair_weight_bound:
  assumes "pair_inv p"
  shows "pair_weight p \<le> 14" and "closed_down p \<Longrightarrow> 13 \<le> pair_weight p"
proof -
  have t: "tick b \<le> 1" for b by (cases b) simp_all
  have "tick (cl_told p) + tick (sv_told p) \<le> 1"
    using assms by (cases "cl_told p"; cases "sv_told p") (auto simp: pair_inv_def)
  then show "pair_weight p \<le> 14"
    using weight_bound [of "net p"] t [of "cl_shut p"] t [of "sv_shut p"] by (simp add: pair_weight_def)
  assume d: "closed_down p"
  have "weight (net p) = 11"
    using complete_weight [of "unclosed (net p)"] assms d
    by (simp add: closed_down_def pair_inv_def both_complete_def)
  with d show "13 \<le> pair_weight p" by (simp add: pair_weight_def closed_down_def)
qed

text \<open>Nothing moves once both sides are closed.\<close>

lemma closed_stuck:
  assumes "pair_inv p" and "closed_down p"
  shows "\<not> pair_step p q"
proof
  assume "pair_step p q"
  then show False
  proof cases
    case (exchanges n)
    have i: "net_inv (unclosed (net p))" using assms(1) by (simp add: pair_inv_def)
    have "weight (unclosed (net p)) = 11"
      using complete_weight [OF i] assms(2) by (simp add: closed_down_def both_complete_def)
    then show False
      using weight_step [OF net_step_unclosed [OF exchanges(2)] i] weight_bound [of "unclosed n"] by simp
  qed (use assms(2) in \<open>auto simp: closed_down_def both_complete_def\<close>)
qed

lemma pair_exact:
  assumes "(pair_step ^^ k) pair_start p"
  shows "k \<le> 14" and "(\<exists>q. pair_step p q) \<longleftrightarrow> \<not> closed_down p" and "closed_down p \<Longrightarrow> 13 \<le> k"
proof -
  have i: "pair_inv p" and w: "pair_weight p = k" using pair_runs [OF assms] by simp_all
  show "k \<le> 14" "closed_down p \<Longrightarrow> 13 \<le> k" using pair_weight_bound [OF i] w by simp_all
  show "(\<exists>q. pair_step p q) \<longleftrightarrow> \<not> closed_down p"
    using pair_progress [OF i] closed_stuck [OF i] by blast
qed

subsection \<open>Every message is welcome\<close>

lemma exchange_runs: "net_step\<^sup>*\<^sup>* (net p) n \<Longrightarrow> pair_step\<^sup>*\<^sup>* p (p\<lparr>net := n\<rparr>)"
proof (induction rule: rtranclp_induct)
  case base
  then show ?case by simp
next
  case (step m n)
  then have "pair_step (p\<lparr>net := m\<rparr>) (p\<lparr>net := n\<rparr>)" using exchanges [of "p\<lparr>net := m\<rparr>" n] by simp
  with step.IH show ?case by (rule rtranclp.rtrancl_into_rtrancl)
qed

lemma client_accepts_unclosed:
  "client_step (x\<lparr>Client.peer_closed := False\<rparr>) (Got e) y \<Longrightarrow> fst (Client.on_event e x) = Inr ()"
  by (cases e) (auto simp: got_step_simp Client.on_event_def split: if_splits)

lemma server_accepts_unclosed:
  "server_step (x\<lparr>Server.peer_closed := False\<rparr>) (Got e) y \<Longrightarrow> fst (Server.on_event e x) = Inr ()"
  by (cases e) (auto simp: heard_simp Server.on_event_def split: if_splits)

lemma unclosed_welcome:
  assumes "net_inv (unclosed n)"
  shows "to_cl n = m # ms \<Longrightarrow> cl_armed n \<and> fst (Client.on_event (Received m) (cl n)) = Inr ()"
    and "to_sv n = m # ms \<Longrightarrow> sv_armed n \<and> fst (Server.on_event (Received m) (sv n)) = Inr ()"
    and "0 < cl_flight n \<Longrightarrow> fst (Client.on_event Sent (cl n)) = Inr ()"
proof -
  note w = net_welcome [OF assms, unfolded unclosed_simps]
  show "to_cl n = m # ms \<Longrightarrow> cl_armed n \<and> fst (Client.on_event (Received m) (cl n)) = Inr ()"
    and "0 < cl_flight n \<Longrightarrow> fst (Client.on_event Sent (cl n)) = Inr ()"
    using w(1,3) client_accepts_unclosed by blast+
  show "to_sv n = m # ms \<Longrightarrow> sv_armed n \<and> fst (Server.on_event (Received m) (sv n)) = Inr ()"
    using w(2) server_accepts_unclosed by blast
qed

end
