(* ===== verification/Event_Order.thy ===== *)
theory Event_Order
  imports Shutdown
begin

text \<open>
  Independence of the order of observation. A round of either program reads three queues, and
  nothing fixes which of them a completion, a message or a connection event reaches first:
  any two different events that a program accepts can be taken in either order with the same
  result. Hence the final state of a composed exchange does not depend on its interleaving.
\<close>

lemma client_events_commute:
  assumes "client_step x (Got e) y" and "client_step x (Got e') z" and "e \<noteq> e'"
  shows "\<exists>u. client_step y (Got e') u \<and> client_step z (Got e) u"
  using assms by (cases x; cases e; cases e') (auto simp: got_step_simp Client.on_event_def split: if_splits)

lemma server_events_commute:
  assumes "server_step x (Got e) y" and "server_step x (Got e') z" and "e \<noteq> e'"
  shows "\<exists>u. server_step y (Got e') u \<and> server_step z (Got e) u"
  using assms by (cases x; cases e; cases e') (auto simp: heard_simp Server.on_event_def split: if_splits)

subsection \<open>The final state\<close>

definition net_final :: net where
  "net_final = \<lparr>cl = \<lparr>Client.exchange.connected = True, hello_posted = True, hello_completed = True, world_received = True,
       ack_posted = True, ack_completed = True, Client.exchange.peer_closed = False\<rparr>,
     cl_up = True, cl_armed = False, cl_flight = 0, to_cl = [],
     sv = \<lparr>phase = P_Done, Server.exchange.connected = True, sent = True, Server.exchange.peer_closed = False\<rparr>,
     sv_up = True, sv_armed = False, sv_flight = 0, to_sv = []\<rparr>"

lemma final_unique:
  assumes "net_inv n" and "both_complete n"
  shows "n = net_final"
proof -
  have c: "world_received (cl n)" "hello_completed (cl n)" "ack_completed (cl n)"
    "phase (sv n) = P_Done" "sent (sv n)"
    using assms(2) by (simp_all add: both_complete_def Client.complete_def Server.complete_def)
  moreover have "ack_posted (cl n)" "hello_posted (cl n)" "cl_up n" "Client.connected (cl n)"
    "\<not> Client.peer_closed (cl n)"
    using c assms(1) unfolding net_inv_defs by argo+
  moreover from this have "sv_up n" "Server.connected (sv n)" "\<not> Server.peer_closed (sv n)" "to_sv n = []"
    "to_cl n = []" "cl_flight n = 0" "sv_flight n = 0" "\<not> cl_armed n" "\<not> sv_armed n"
    using c assms(1) by (simp_all add: net_inv_defs phase_order)
  ultimately show ?thesis
    by (intro net.equality Client.exchange.equality Server.exchange.equality) (simp_all add: net_final_def)
qed

lemma pair_final:
  assumes "pair_inv p" and "closed_down p"
  shows "unclosed (net p) = net_final"
  using final_unique [of "unclosed (net p)"] assms
  by (simp add: pair_inv_def closed_down_def both_complete_def)

end
