(* ===== verification/Replay.thy ===== *)
theory Replay
  imports Protocol
begin

text \<open>
  The composition as a function of the move that is made, so that a given run can be evaluated:
  the step relation is exactly the union of its moves.
\<close>

datatype move = Cl label | Sv label

definition client_do :: "label \<Rightarrow> Client.exchange \<Rightarrow> Client.exchange option" where
  "client_do l x = (case l of
     Got e \<Rightarrow> (case Client.on_event e x of (Inl _, _) \<Rightarrow> None | (Inr _, x') \<Rightarrow> Some x')
   | Put b \<Rightarrow> (if Client.complete x then None else case next_message x of None \<Rightarrow> None
       | Some m \<Rightarrow> if b = message_bytes m then Some (posted m x) else None))"

definition server_do :: "label \<Rightarrow> Server.exchange \<Rightarrow> Server.exchange option" where
  "server_do l y = (case l of
     Got e \<Rightarrow> (case Server.on_event e y of (Inl _, _) \<Rightarrow> None | (Inr _, y') \<Rightarrow> Some y')
   | Put b \<Rightarrow> (if Server.complete y \<or> \<not> Server.connected y \<or> Server.peer_closed y \<or> phase y \<noteq> P_Reply \<or> b \<noteq> ''world''
       then None else Some (y\<lparr>phase := P_Ack\<rparr>)))"

lemma client_do_iff: "client_do l x = Some z \<longleftrightarrow> client_step x l z"
  by (cases l) (auto simp: client_do_def got_step_simp put_simp split: sum.splits option.splits prod.splits if_splits)

lemma server_do_iff: "server_do l y = Some z \<longleftrightarrow> server_step y l z"
  by (cases l) (auto simp: server_do_def heard_simp reply_simp split: sum.splits prod.splits if_splits)

fun net_do :: "move \<Rightarrow> net \<Rightarrow> net option" where
  "net_do (Cl l) n = (case client_do l (cl n) of None \<Rightarrow> None | Some x \<Rightarrow>
     (case l of
        Put m \<Rightarrow> Some (n\<lparr>cl := x, cl_flight := cl_flight n + 1, to_sv := to_sv n @ [m]\<rparr>)
      | Got Connected \<Rightarrow> if cl_up n then None else Some (n\<lparr>cl := x, cl_up := True\<rparr>)
      | Got Sent \<Rightarrow> if cl_flight n = 0 then None else Some (n\<lparr>cl := x, cl_flight := cl_flight n - 1\<rparr>)
      | Got (Received m) \<Rightarrow> if cl_armed n \<and> to_cl n \<noteq> [] \<and> hd (to_cl n) = m
          then Some (n\<lparr>cl := x, cl_armed := False, to_cl := tl (to_cl n)\<rparr>) else None
      | Got PeerClosed \<Rightarrow> None))"
| "net_do (Sv l) n = (case server_do l (sv n) of None \<Rightarrow> None | Some y \<Rightarrow>
     (case l of
        Put m \<Rightarrow> Some (n\<lparr>sv := y, sv_armed := True, sv_flight := sv_flight n + 1, to_cl := to_cl n @ [m]\<rparr>)
      | Got Connected \<Rightarrow> if sv_up n then None else Some (n\<lparr>sv := y, sv_up := True\<rparr>)
      | Got Sent \<Rightarrow> if sv_flight n = 0 then None else Some (n\<lparr>sv := y, sv_flight := sv_flight n - 1\<rparr>)
      | Got (Received m) \<Rightarrow> if sv_armed n \<and> to_sv n \<noteq> [] \<and> hd (to_sv n) = m
          then Some (n\<lparr>sv := y, sv_armed := False, to_sv := tl (to_sv n)\<rparr>) else None
      | Got PeerClosed \<Rightarrow> None))"

lemma net_do_sound: "net_do mv n = Some n' \<Longrightarrow> net_step n n'"
  by (cases mv)
    (auto simp: client_do_iff server_do_iff neq_Nil_conv gr0_conv_Suc
      intro: net_step.intros [unfolded Suc_eq_plus1 [symmetric]] split: option.splits label.splits event.splits if_splits)

lemma net_do_complete:
  assumes "net_step n n'"
  shows "\<exists>mv. net_do mv n = Some n'"
  using assms
proof cases
  case (cl_connected x)
  then show ?thesis by (intro exI [of _ "Cl (Got Connected)"]) (simp add: client_do_iff [THEN iffD2])
next
  case (cl_put m x)
  then show ?thesis by (intro exI [of _ "Cl (Put m)"]) (simp add: client_do_iff [THEN iffD2])
next
  case (cl_sent k x)
  then show ?thesis by (intro exI [of _ "Cl (Got Sent)"]) (simp add: client_do_iff [THEN iffD2])
next
  case (cl_hear m ms x)
  then show ?thesis by (intro exI [of _ "Cl (Got (Received m))"]) (simp add: client_do_iff [THEN iffD2])
next
  case (sv_connected y)
  then show ?thesis by (intro exI [of _ "Sv (Got Connected)"]) (simp add: server_do_iff [THEN iffD2])
next
  case (sv_put m y)
  then show ?thesis by (intro exI [of _ "Sv (Put m)"]) (simp add: server_do_iff [THEN iffD2])
next
  case (sv_sent k y)
  then show ?thesis by (intro exI [of _ "Sv (Got Sent)"]) (simp add: server_do_iff [THEN iffD2])
next
  case (sv_hear m ms y)
  then show ?thesis by (intro exI [of _ "Sv (Got (Received m))"]) (simp add: server_do_iff [THEN iffD2])
qed

lemma net_step_iff: "net_step n n' \<longleftrightarrow> (\<exists>mv. net_do mv n = Some n')"
  using net_do_sound net_do_complete by blast

fun replay :: "move list \<Rightarrow> net \<Rightarrow> net option" where
  "replay [] n = Some n"
| "replay (mv # mvs) n = (case net_do mv n of None \<Rightarrow> None | Some n' \<Rightarrow> replay mvs n')"

lemma replay_runs: "replay mvs n = Some n' \<Longrightarrow> (net_step ^^ length mvs) n n'"
  by (induction mvs arbitrary: n) (auto simp del: relpowp.simps(2) intro: relpowp_Suc_I2 net_do_sound split: option.splits)

lemmas replay_eval = client_do_def server_do_def Client.on_event_def Server.on_event_def Client.complete_def
  Server.complete_def next_message_def posted_def message_bytes_def exchange_default_def exchange_new_def net_start_def

end
