(* ===== verification/Giving_Up.thy ===== *)
theory Giving_Up
  imports Event_Order Replay
begin

text \<open>
  The composition when either side may leave at any moment: complete, at its deadline, or
  after a transport error. A side that has left makes no further step, messages to it are
  never taken, and the side that remains may observe \<open>PeerClosed\<close>. Leaving only withholds
  steps, so the invariant of the undisturbed composition carries over, and with it an
  agreement: what one side reports as a success is known to have happened at the other.
\<close>

record parting =
  talk :: net
  cl_left :: bool
  sv_left :: bool
  cl_heard :: bool
  sv_heard :: bool

definition part_start :: parting where
  "part_start = \<lparr>talk = net_start, cl_left = False, sv_left = False, cl_heard = False, sv_heard = False\<rparr>"

inductive part_step :: "parting \<Rightarrow> parting \<Rightarrow> bool" where
  talks: "net_step (talk p) n \<Longrightarrow> (cl_left p \<Longrightarrow> cl n = cl (talk p)) \<Longrightarrow> (sv_left p \<Longrightarrow> sv n = sv (talk p)) \<Longrightarrow>
    part_step p (p\<lparr>talk := n\<rparr>)"
| cl_leaves: "\<not> cl_left p \<Longrightarrow> part_step p (p\<lparr>cl_left := True\<rparr>)"
| sv_leaves: "\<not> sv_left p \<Longrightarrow> part_step p (p\<lparr>sv_left := True\<rparr>)"
| cl_hears: "sv_left p \<Longrightarrow> \<not> cl_left p \<Longrightarrow> \<not> cl_heard p \<Longrightarrow> client_step (cl (talk p)) (Got PeerClosed) x \<Longrightarrow>
    part_step p (p\<lparr>talk := (talk p)\<lparr>cl := x\<rparr>, cl_heard := True\<rparr>)"
| sv_hears: "cl_left p \<Longrightarrow> \<not> sv_left p \<Longrightarrow> \<not> sv_heard p \<Longrightarrow> server_step (sv (talk p)) (Got PeerClosed) y \<Longrightarrow>
    part_step p (p\<lparr>talk := (talk p)\<lparr>sv := y\<rparr>, sv_heard := True\<rparr>)"

subsection \<open>Invariant\<close>

definition part_inv :: "parting \<Rightarrow> bool" where
  "part_inv p \<longleftrightarrow> net_inv (unclosed (talk p)) \<and>
     (cl_heard p \<longrightarrow> sv_left p) \<and> (sv_heard p \<longrightarrow> cl_left p) \<and> \<not> (cl_heard p \<and> sv_heard p)"

lemma part_start_inv: "part_inv part_start"
  using pair_start_inv by (simp add: part_inv_def part_start_def pair_inv_def pair_start_def)

lemma part_step_inv:
  assumes "part_step p q" and "part_inv p"
  shows "part_inv q"
  using assms(1)
proof cases
  case (talks n)
  have "net_inv (unclosed n)"
    using net_step_inv [OF net_step_unclosed [OF talks(2)]] assms(2) by (simp add: part_inv_def)
  then show ?thesis using assms(2) talks(1) by (simp add: part_inv_def)
qed (use assms(2) in \<open>auto simp: part_inv_def told_unclosed\<close>)

lemma part_reach_inv: "part_step\<^sup>*\<^sup>* part_start p \<Longrightarrow> part_inv p"
  by (induction rule: rtranclp_induct) (auto intro: part_start_inv part_step_inv)

subsection \<open>Runs end\<close>

definition part_weight :: "parting \<Rightarrow> nat" where
  "part_weight p = weight (talk p) + tick (cl_left p) + tick (sv_left p) + tick (cl_heard p) + tick (sv_heard p)"

lemma part_weight_step:
  assumes "part_step p q" and "part_inv p"
  shows "part_weight q = Suc (part_weight p)"
  using assms(1)
proof cases
  case (talks n)
  have "weight n = Suc (weight (talk p))"
    using weight_step [OF net_step_unclosed [OF talks(2)]] assms(2) by (simp add: part_inv_def)
  with talks show ?thesis by (simp add: part_weight_def)
next
  case (cl_hears x)
  then show ?thesis using told_weight by (simp add: part_weight_def)
next
  case (sv_hears y)
  then show ?thesis using told_weight by (simp add: part_weight_def)
qed (simp_all add: part_weight_def)

lemma part_runs: "(part_step ^^ k) part_start p \<Longrightarrow> part_inv p \<and> part_weight p = k"
proof (induction k arbitrary: p)
  case 0
  then show ?case using part_start_inv
    by (auto simp: part_weight_def weight_def part_start_def net_start_def exchange_default_def
        exchange_new_def phase_rank_def)
next
  case (Suc k)
  then obtain m where "(part_step ^^ k) part_start m" "part_step m p" by auto
  with Suc.IH show ?case using part_step_inv part_weight_step by blast
qed

text \<open>A step of the exchange is a step of one of the two sides.\<close>

lemma net_step_moves:
  assumes "net_step n n'" and "net_inv (unclosed n)"
  shows "cl n' \<noteq> cl n \<or> sv n' \<noteq> sv n"
proof (rule ccontr)
  assume s: "\<not> (cl n' \<noteq> cl n \<or> sv n' \<noteq> sv n)"
  moreover have "net_inv (unclosed n')" using net_step_inv [OF net_step_unclosed [OF assms(1)] assms(2)] .
  ultimately have "weight (unclosed n') = weight (unclosed n)"
    using assms(2) by (simp add: weight_def net_inv_defs)
  then show False using weight_step [OF net_step_unclosed [OF assms(1)] assms(2)] by simp
qed

lemma part_exact:
  assumes "(part_step ^^ k) part_start p"
  shows "k \<le> 14" and "(\<exists>q. part_step p q) \<longleftrightarrow> \<not> (cl_left p \<and> sv_left p)"
proof -
  have i: "part_inv p" and w: "part_weight p = k" using part_runs [OF assms] by simp_all
  have t: "tick b \<le> 1" for b by (cases b) simp_all
  have "tick (cl_heard p) + tick (sv_heard p) \<le> 1"
    using i by (cases "cl_heard p"; cases "sv_heard p") (auto simp: part_inv_def)
  then show "k \<le> 14"
    using w weight_bound [of "talk p"] t [of "cl_left p"] t [of "sv_left p"] by (simp add: part_weight_def)
  have "\<not> part_step p q" if "cl_left p" "sv_left p" for q
    using that i net_step_moves by (auto simp: part_inv_def elim!: part_step.cases)
  then show "(\<exists>q. part_step p q) \<longleftrightarrow> \<not> (cl_left p \<and> sv_left p)"
    using cl_leaves sv_leaves by blast
qed

subsection \<open>Agreement\<close>

text \<open>
  A server that is complete knows everything but the completion of the client's last send;
  a client that is complete knows that at most its last message is still under way.
\<close>

definition agreed :: "net \<Rightarrow> bool" where
  "agreed n \<longleftrightarrow>
     (Server.complete (sv n) \<longrightarrow> hello_posted (cl n) \<and> hello_completed (cl n) \<and> world_received (cl n) \<and> ack_posted (cl n)) \<and>
     (Client.complete (cl n) \<longrightarrow> phase (sv n) = P_Done \<or> phase (sv n) = P_Ack \<and> sv_armed n \<and> to_sv n = [''ack''])"

lemma net_agreed:
  assumes "net_inv n"
  shows "agreed n"
proof -
  let ?x = "cl n" and ?y = "sv n"
  have "ack_posted ?x \<longrightarrow> hello_completed ?x \<and> world_received ?x" "hello_completed ?x \<longrightarrow> hello_posted ?x"
    "phase ?y = P_Done \<longrightarrow> ack_posted ?x" "ack_completed ?x \<longrightarrow> ack_posted ?x" "world_received ?x \<longrightarrow> P_Ack \<le> phase ?y"
    "sv_armed n = (phase ?y = P_Hello \<or> phase ?y = P_Ack)"
    "to_sv n = (if hello_posted ?x \<and> phase ?y = P_Hello then [''hello''] else []) @
       (if ack_posted ?x \<and> phase ?y \<noteq> P_Done then [''ack''] else [])"
    using assms unfolding net_inv_defs by argo+
  then show ?thesis
    by (cases "phase ?y") (simp_all add: agreed_def Client.complete_def Server.complete_def phase_order)
qed

lemma part_agreed: "part_inv p \<Longrightarrow> agreed (talk p)"
  using net_agreed [of "unclosed (talk p)"] by (simp add: part_inv_def agreed_def)

subsection \<open>Orderly shutdown as a special case\<close>

text \<open>
  A complete side makes no further step of the exchange, so each run in which the sides close
  only when complete is a run of this composition.
\<close>

lemma client_still:
  assumes "net_step n n'" and "net_inv (unclosed n)" and "Client.complete (cl n)"
  shows "cl n' = cl n"
proof -
  have "client_part (unclosed n)" using assms(2) by (simp add: net_inv_def)
  with assms(3) have h: "cl_up n" "cl_flight n = 0" "\<not> cl_armed n" "hello_posted (cl n)" "ack_posted (cl n)"
    by (simp_all add: client_part_def Client.complete_def)
  show ?thesis using assms(1) h assms(3) by (cases; auto simp: put_simp)
qed

lemma server_still:
  assumes "net_step n n'" and "net_inv (unclosed n)" and "Server.complete (sv n)"
  shows "sv n' = sv n"
proof -
  have "server_part (unclosed n)" using assms(2) by (simp add: net_inv_def)
  with assms(3) have h: "sv_up n" "sv_flight n = 0" "\<not> sv_armed n" "phase (sv n) = P_Done"
    by (simp_all add: server_part_def Server.complete_def phase_order)
  show ?thesis using assms(1) h by (cases; simp add: reply_simp)
qed

lemmas complete_still = client_still server_still

definition parting_of :: "pair \<Rightarrow> parting" where
  "parting_of p = \<lparr>talk = net p, cl_left = cl_shut p, sv_left = sv_shut p, cl_heard = cl_told p, sv_heard = sv_told p\<rparr>"

lemma pair_step_parts:
  assumes "pair_step p q" and "pair_inv p"
  shows "part_step (parting_of p) (parting_of q)"
  using assms(1)
proof cases
  case (exchanges n)
  then show ?thesis
    using part_step.talks [of "parting_of p" n] complete_still [OF exchanges(2)] assms(2)
    by (simp add: parting_of_def pair_inv_def)
next
  case cl_shuts
  then show ?thesis using part_step.cl_leaves [of "parting_of p"] by (simp add: parting_of_def)
next
  case sv_shuts
  then show ?thesis using part_step.sv_leaves [of "parting_of p"] by (simp add: parting_of_def)
next
  case (cl_tells y)
  then show ?thesis using part_step.sv_hears [of "parting_of p" y] assms(2) by (auto simp: parting_of_def pair_inv_def)
next
  case (sv_tells x)
  then show ?thesis using part_step.cl_hears [of "parting_of p" x] assms(2) by (auto simp: parting_of_def pair_inv_def)
qed

lemma pair_runs_part: "(pair_step ^^ k) pair_start p \<Longrightarrow> (part_step ^^ k) part_start (parting_of p)"
proof (induction k arbitrary: p)
  case 0
  then show ?case by (auto simp: parting_of_def pair_start_def part_start_def)
next
  case (Suc k)
  then obtain m where m: "(pair_step ^^ k) pair_start m" "pair_step m p" by auto
  from Suc.IH [OF m(1)] pair_step_parts [OF m(2)] pair_runs [OF m(1)] show ?case by (blast intro: relpowp_Suc_I)
qed

subsection \<open>The last message may be lost\<close>

text \<open>
  The agreement cannot be improved: here the client is complete and has left while its last
  message is still under way, and the server leaves at its deadline without it.
\<close>

lemma talk_runs: "(net_step ^^ k) (talk p) n \<Longrightarrow> \<not> cl_left p \<Longrightarrow> \<not> sv_left p \<Longrightarrow> (part_step ^^ k) p (p\<lparr>talk := n\<rparr>)"
proof (induction k arbitrary: n)
  case (Suc k)
  then obtain m where m: "(net_step ^^ k) (talk p) m" "net_step m n" by auto
  have "part_step (p\<lparr>talk := m\<rparr>) (p\<lparr>talk := n\<rparr>)"
    using part_step.talks [of "p\<lparr>talk := m\<rparr>" n] m(2) Suc.prems by simp
  with Suc.IH [OF m(1) Suc.prems(2,3)] show ?case by (rule relpowp_Suc_I)
qed simp

definition lost_ack :: "move list" where
  "lost_ack = [Cl (Got Connected), Sv (Got Connected), Cl (Put ''hello''), Cl (Got Sent), Sv (Got (Received ''hello'')),
     Sv (Put ''world''), Sv (Got Sent), Cl (Got (Received ''world'')), Cl (Put ''ack''), Cl (Got Sent)]"

lemma lost_ack_run:
  obtains n where "(part_step ^^ 12) part_start (part_start\<lparr>talk := n, cl_left := True, sv_left := True\<rparr>)"
    "Client.complete (cl n)" "phase (sv n) = P_Ack" "to_sv n = [''ack'']"
proof -
  obtain n where n: "replay lost_ack net_start = Some n" "Client.complete (cl n)" "phase (sv n) = P_Ack"
    "to_sv n = [''ack'']"
    by (simp add: lost_ack_def replay_eval)
  let ?p = "part_start\<lparr>talk := n\<rparr>"
  have "(part_step ^^ 10) part_start ?p"
  proof (rule talk_runs)
    have "length lost_ack = 10" by (simp add: lost_ack_def)
    with replay_runs [OF n(1)] show "(net_step ^^ 10) (talk part_start) n" by (simp only:) (simp only: part_start_def parting.select_convs)
  qed (simp_all add: part_start_def)
  moreover have "part_step ?p (?p\<lparr>cl_left := True\<rparr>)" by (rule cl_leaves) (simp add: part_start_def)
  moreover have "part_step (?p\<lparr>cl_left := True\<rparr>) (?p\<lparr>cl_left := True, sv_left := True\<rparr>)"
    using sv_leaves [of "?p\<lparr>cl_left := True\<rparr>"] by (simp add: part_start_def)
  ultimately have "(part_step ^^ Suc (Suc 10)) part_start (?p\<lparr>cl_left := True, sv_left := True\<rparr>)"
    by (blast intro: relpowp_Suc_I)
  then show thesis using that [of n] n by (simp add: eval_nat_numeral)
qed

end
