(* ===== verification/Shim_Tests.thy ===== *)
theory Shim_Tests
  imports Demo Unit_Tests
begin

text \<open>
  The life-cycle test of the shim (\<^verbatim>\<open>tests/shim_lifecycle.c\<close>) and its link test
  (\<^verbatim>\<open>tests/raw_ffi.rs\<close>) over the model, assertion by assertion. The test's fake operation
  tables are library functions over its static variables; error codes, constants and texts
  stay those of any library. A test that passes is \<open>Some ()\<close>; the structures it keeps on its
  stack are live objects at fixed addresses, and loop variables are arguments.
\<close>

subsection \<open>The fake provider\<close>

datatype next_event = No_Event | Next fi_event | Broken

record fault =
  next_block :: addr
  duplicate_failure :: bool
  observed_query_flags :: u64
  query_ok :: bool
  post_result :: int
  close_result :: int
  cq_error :: bool
  completed_context :: addr
  setup_step :: nat
  setup_failure_step :: nat
  next_event :: next_event
  event_source :: "addr option"
  request_info :: "fi_info option"

text \<open>\<open>fi_allocinfo(3)\<close>: every attribute structure is allocated and zeroed.\<close>

definition blank_info :: fi_info where
  "blank_info = \<lparr>fabric_attr = Some \<lparr>prov_name = None, fab_name = None\<rparr>,
     domain_attr = Some \<lparr>dom_name = None, mr_mode = 0\<rparr>,
     ep_attr = Some \<lparr>ep_type = FI_EP_OTHER 0, max_msg_size = 0\<rparr>,
     tx_op_flags = Some 0, rx_op_flags = Some 0,
     tx_size = 0, inject_size = 0, rx_size = 0, fi_caps = 0, fi_mode = 0, addr_format = 0,
     src_addr = 0, src_addrlen = 0, dest_addr = 0, dest_addrlen = 0, fi_handle = 0\<rparr>"

definition wrap_dupinfo :: "fi_info \<Rightarrow> fault \<Rightarrow> fi_info option \<times> fault" where
  "wrap_dupinfo i p = (if duplicate_failure p then None else Some i, p)"

text \<open>The assertions inside the wrapper are recorded in \<open>query_ok\<close>.\<close>

definition wrap_getinfo :: "'p lib \<Rightarrow> string \<Rightarrow> string option \<Rightarrow> u64 \<Rightarrow> fi_info \<Rightarrow> fault
    \<Rightarrow> (int \<times> fi_info list) \<times> fault" where
  "wrap_getinfo E node service fl hints p =
     ((0, [hints\<lparr>src_addr := 1, dest_addr := 2, src_addrlen := 16, dest_addrlen := 16\<rparr>]),
      p\<lparr>observed_query_flags := fl,
        query_ok := (query_ok p \<and> node = ''192.0.2.1'' \<and> service = Some ''7471'' \<and>
          (case fabric_attr hints of None \<Rightarrow> False | Some fa \<Rightarrow> prov_name fa = Some ''verbs'') \<and>
          (case domain_attr hints of None \<Rightarrow> False | Some da \<Rightarrow>
            mr_mode da = FI_MR_LOCAL E OR FI_MR_ALLOCATED E \<and> dom_name da = Some ''rxe_test''))\<rparr>)"

definition fake_close :: "fault \<Rightarrow> int \<times> fault" where
  "fake_close p = (close_result p, p)"

definition fake_post :: "fault \<Rightarrow> int \<times> fault" where
  "fake_post p = (post_result p, p)"

definition fake_read :: "'p lib \<Rightarrow> fault \<Rightarrow> (int \<times> cq_msg_entry) \<times> fault" where
  "fake_read E p =
     (let entry = \<lparr>cm_context = completed_context p, cm_len = 5, cm_data = []\<rparr>
      in if cq_error p then ((- errno E FI_EAVAIL, entry), p)
         else if completed_context p = 0 then ((- errno E FI_EAGAIN, entry), p)
         else ((1, entry), p\<lparr>completed_context := 0\<rparr>))"

definition fake_readerr :: "'p lib \<Rightarrow> fault \<Rightarrow> (int \<times> cq_err_entry) \<times> fault" where
  "fake_readerr E p =
     ((1, \<lparr>ce_context = completed_context p, ce_err = errno E FI_EIO, ce_prov_errno = 123\<rparr>),
      p\<lparr>completed_context := 0, cq_error := False\<rparr>)"

definition fake_setup :: "'p lib \<Rightarrow> fault \<Rightarrow> int \<times> fault" where
  "fake_setup E p = (let n = setup_step p + 1
     in (if n = setup_failure_step p then - errno E FI_EIO else 0, p\<lparr>setup_step := n\<rparr>))"

definition fake_eq_read :: "'p lib \<Rightarrow> fault \<Rightarrow> (int \<times> fi_event \<times> eq_cm_entry) \<times> fault" where
  "fake_eq_read E p =
     (let entry = \<lparr>cm_source = event_source p, cm_info = request_info p, cm_size_ok = True\<rparr>
      in case next_event p of
           No_Event \<Rightarrow> ((- errno E FI_EAGAIN, FI_SHUTDOWN, entry), p)
         | Broken \<Rightarrow> ((- errno E FI_EAVAIL, FI_SHUTDOWN, entry), p)
         | Next e \<Rightarrow> ((16, e, entry), p\<lparr>next_event := No_Event, request_info := None\<rparr>))"

definition fake_eq_readerr :: "int \<Rightarrow> fault \<Rightarrow> (int \<times> eq_err_entry) \<times> fault" where
  "fake_eq_readerr refused p =
     ((16, \<lparr>qe_source = event_source p, qe_err = refused, qe_prov_errno = 42\<rparr>),
      p\<lparr>next_event := No_Event\<rparr>)"

definition created_ep :: addr where "created_ep = 200"

text \<open>
  Constants and texts are those of any library \<open>E\<close>; \<open>refused\<close> is the value of
  \<^verbatim>\<open>FI_ECONNREFUSED\<close>. Entries the test leaves out of its tables answer \<open>FI_ENOSYS\<close>.
\<close>

definition faulty :: "'p lib \<Rightarrow> int \<Rightarrow> fault lib" where
  "faulty E refused = \<lparr>errno = errno E, fi_strerror = fi_strerror E, fi_version = fi_version E,
     FI_MSG = FI_MSG E, FI_CONTEXT = FI_CONTEXT E, FI_LOCAL_MR = FI_LOCAL_MR E, FI_SEND = FI_SEND E,
     FI_RECV = FI_RECV E, FI_SOURCE = FI_SOURCE E, FI_TRANSMIT = FI_TRANSMIT E,
     FI_MR_LOCAL = FI_MR_LOCAL E, FI_MR_ALLOCATED = FI_MR_ALLOCATED E, FI_SOCKADDR_IN = FI_SOCKADDR_IN E,
     c_calloc = (\<lambda>p. (next_block p, p\<lparr>next_block := next_block p + 16\<rparr>)), c_malloc = Pair True,
     fi_allocinfo = Pair (Some blank_info), fi_getinfo = wrap_getinfo E, fi_dupinfo = wrap_dupinfo,
     fi_fabric = (\<lambda>_ _. Pair (- errno E FI_ENOSYS, 0)), fi_domain = (\<lambda>_ _ _. Pair (- errno E FI_ENOSYS, 0)),
     fi_eq_open = (\<lambda>_ _. Pair (- errno E FI_ENOSYS, 0)), fi_cq_open = (\<lambda>_ _ _. Pair (- errno E FI_ENOSYS, 0)),
     fi_passive_ep = (\<lambda>_ _ _. Pair (- errno E FI_ENOSYS, 0)), fi_pep_bind = (\<lambda>_ _. Pair (- errno E FI_ENOSYS)),
     fi_listen = (\<lambda>_. Pair (- errno E FI_ENOSYS)), fi_endpoint = (\<lambda>_ _ _. Pair (0, created_ep)),
     fi_ep_bind = (\<lambda>_ _ _. fake_setup E), fi_enable = (\<lambda>_. fake_setup E),
     fi_connect = (\<lambda>_ _. Pair (- errno E FI_ENOSYS)), fi_accept = (\<lambda>_. Pair (- errno E FI_ENOSYS)),
     fi_reject = (\<lambda>_ _. Pair (- errno E FI_ENOSYS)), fi_shutdown = (\<lambda>_. Pair (- errno E FI_ENOSYS)),
     fi_close = (\<lambda>_. fake_close), fi_eq_read = (\<lambda>_. fake_eq_read E),
     fi_eq_readerr = (\<lambda>_. fake_eq_readerr refused),
     fi_eq_strerror = (\<lambda>_ _. Some ''injected connection error''),
     fi_cq_read = (\<lambda>_. fake_read E), fi_cq_readerr = (\<lambda>_. fake_readerr E),
     fi_cq_strerror = (\<lambda>_ _. Some ''injected provider error''),
     fi_mr_reg = (\<lambda>_ _ _ _ _. Pair (- errno E FI_ENOSYS, 0)), fi_mr_desc = (\<lambda>a. a),
     fi_send = (\<lambda>_ _ _ _. fake_post), fi_recv = (\<lambda>_ _ _ _ _. fake_post), clock = clock E\<rparr>"

definition fault_start :: fault where
  "fault_start = \<lparr>next_block = 4096, duplicate_failure = False, observed_query_flags = 0, query_ok = True,
     post_result = 0, close_result = 0, cq_error = False, completed_context = 0, setup_step = 0,
     setup_failure_step = 0, next_event = No_Event, event_source = None, request_info = None\<rparr>"

abbreviation knob :: "(fault \<Rightarrow> fault) \<Rightarrow> fault world \<Rightarrow> fault world" where
  "knob f w \<equiv> w\<lparr>prov := f (prov w)\<rparr>"

definition returns :: "(int \<times> 'p world) option \<Rightarrow> int \<Rightarrow> 'p world option" where
  "returns m ret = do { (r, w) \<leftarrow> m; _ \<leftarrow> require (r = ret); Some w }"

subsection \<open>Rolling back an endpoint\<close>

text \<open>The stack objects: fabric 16, domain 32, event queue 48, information record 64.\<close>

definition blank_cq :: "addr \<Rightarrow> shim_cq" where
  "blank_cq r = \<lparr>c_raw = r, c_domain = 32, c_pending = 0, c_capacity = 1, c_count = 0, c_used = False,
     c_attached = False, c_retired = False\<rparr>"

definition rollback_world :: "bool \<Rightarrow> fault world" where
  "rollback_world is_request = (empty_world fault_start)\<lparr>
     fabrics := [16 \<mapsto> \<lparr>f_raw = 0, f_children = 0\<rparr>],
     domains := [32 \<mapsto> \<lparr>d_raw = 300, d_fabric = 16, d_children = 0\<rparr>],
     eqs := [48 \<mapsto> \<lparr>e_raw = 301, e_fabric = 16, e_users = 0\<rparr>],
     infos := [64 \<mapsto> \<lparr>i_raw = Some (blank_info\<lparr>ep_attr := Some \<lparr>ep_type = FI_EP_OTHER 0, max_msg_size = 64\<rparr>,
       fi_handle := (if is_request then 400 else 0)\<rparr>)\<rparr>], fi_lists := 1\<rparr>"

definition test_endpoint_rollback :: "fault lib \<Rightarrow> bool \<Rightarrow> nat \<Rightarrow> bool \<Rightarrow> unit option" where
  "test_endpoint_rollback L is_request fail_at refuse_close = do {
     let w = rollback_world is_request;
     let (tx, w) = calloc L w;
     let (rx, w) = calloc L w;
     _ \<leftarrow> require (tx \<noteq> 0 \<and> rx \<noteq> 0);
     let w = set_cq rx (blank_cq 303) (set_cq tx (blank_cq 302) w);
     d \<leftarrow> domains w 32;
     let w = set_domain 32 (d\<lparr>d_children := 2\<rparr>) w;
     let w = knob (\<lambda>p. p\<lparr>setup_step := 0, setup_failure_step := fail_at,
       close_result := (if refuse_close then - errno L FI_EBUSY else 0)\<rparr>) w;
     ((ret, ep), w) \<leftarrow> shim_endpoint_open L 32 64 48 tx rx True w;
     _ \<leftarrow> require (ret = - errno L FI_EIO);
     w \<leftarrow> (if refuse_close \<or> is_request then do {
         e \<leftarrow> eqs w 48;
         d \<leftarrow> domains w 32;
         _ \<leftarrow> require (ep \<noteq> 0 \<and> e_users e = 1 \<and> d_children d = 3);
         w \<leftarrow> returns (shim_cq_close L tx w) (- errno L FI_EBUSY);
         returns (shim_endpoint_close L ep (knob (\<lambda>p. p\<lparr>close_result := 0\<rparr>) w)) 0
       }
       else do { _ \<leftarrow> require (ep = 0); Some w });
     e \<leftarrow> eqs w 48;
     d \<leftarrow> domains w 32;
     _ \<leftarrow> require (e_users e = 0 \<and> d_children d = 2);
     w \<leftarrow> returns (shim_cq_close L tx w) 0;
     w \<leftarrow> returns (shim_cq_close L rx w) 0;
     d \<leftarrow> domains w 32;
     require (d_children d = 0)
   }"

lemma errno_code:
  assumes "errno_ok E"
  shows "0 < errno E e" "\<not> errno E e < 0" "1 = - errno E e \<longleftrightarrow> False" "16 = - errno E e \<longleftrightarrow> False"
    "0 = errno E e \<longleftrightarrow> False" "errno E e = - 1 \<longleftrightarrow> False" "c_int (- errno E e) = - errno E e"
proof -
  have "0 < errno E e" "errno E e < 2 ^ 31" using assms unfolding errno_ok_def by blast+
  then show "0 < errno E e" "\<not> errno E e < 0" "1 = - errno E e \<longleftrightarrow> False" "16 = - errno E e \<longleftrightarrow> False"
    "0 = errno E e \<longleftrightarrow> False" "errno E e = - 1 \<longleftrightarrow> False" "c_int (- errno E e) = - errno E e"
    by (simp_all add: c_int_id)
qed

lemma faulty_simps [simp]: "errno (faulty E r) = errno E"
  by (simp add: faulty_def)

lemmas fault_eval = returns_def require_def calloc_def call_def allocated_def empty_world_def fault_start_def
  fake_setup_def fake_close_def fake_post_def created_ep_def blank_info_def blank_cq_def

lemma rollback_test:
  assumes "errno_ok E" and "fail_at \<in> {1, 2, 3, 4}"
  shows "test_endpoint_rollback (faulty E refused) is_request fail_at refuse_close = Some ()"
  using assms(2)
  by (auto simp: test_endpoint_rollback_def rollback_world_def fault_eval faulty_def errno_code [OF assms(1)]
      assms(1) shim_endpoint_open_def endpoint_args_bad_def bind_endpoint_def shim_endpoint_close_def
      shim_cq_close_def retire_cq_def retire_walk.simps drain_cq.simps cong: demo_congs)

subsection \<open>Connection events\<close>

definition polls_event :: "fault lib \<Rightarrow> int \<Rightarrow> fault world \<Rightarrow> (shim_connect_event \<times> fault world) option" where
  "polls_event L ret w = do { ((r, event), w) \<leftarrow> shim_eq_poll L 48 True w; _ \<leftarrow> require (r = ret); Some (event, w) }"

text \<open>\<^verbatim>\<open>strcmp\<close> against a literal: the text up to its first \<open>NUL\<close>.\<close>

definition c_string :: "string \<Rightarrow> string" where
  "c_string s = takeWhile (\<lambda>c. c \<noteq> CHR 0x00) s"

definition test_connection_events :: "fault lib \<Rightarrow> int \<Rightarrow> unit option" where
  "test_connection_events L refused = do {
     let w = (empty_world (fault_start\<lparr>event_source := Some 500\<rparr>))\<lparr>
       eqs := [48 \<mapsto> \<lparr>e_raw = 301, e_fabric = 0, e_users = 0\<rparr>]\<rparr>;
     (_, w) \<leftarrow> polls_event L 0 w;
     let w = knob (\<lambda>p. p\<lparr>request_info := Some blank_info, next_event := Next FI_CONNREQ\<rparr>) w;
     (event, w) \<leftarrow> polls_event L 1 w;
     i \<leftarrow> infos w (ev_info event);
     _ \<leftarrow> require (ev_type event = SHIM_EVENT_CONNREQ \<and> i_raw i = Some blank_info);
     _ \<leftarrow> require (ev_source event = 500);
     w \<leftarrow> shim_info_free (ev_info event) w;
     (event, w) \<leftarrow> polls_event L 1 (knob (\<lambda>p. p\<lparr>next_event := Next FI_CONNECTED\<rparr>) w);
     _ \<leftarrow> require (ev_type event = SHIM_EVENT_CONNECTED \<and> ev_info event = 0);
     (event, w) \<leftarrow> polls_event L 1 (knob (\<lambda>p. p\<lparr>next_event := Next FI_SHUTDOWN\<rparr>) w);
     _ \<leftarrow> require (ev_type event = SHIM_EVENT_SHUTDOWN);
     (event, w) \<leftarrow> polls_event L 1 (knob (\<lambda>p. p\<lparr>next_event := Broken\<rparr>) w);
     _ \<leftarrow> require (ev_type event = SHIM_EVENT_ERROR);
     _ \<leftarrow> require (ev_err event = refused \<and> ev_prov_err event = 42);
     require (c_string (ev_message event) = ''injected connection error'')
   }"

lemma events_test:
  assumes "errno_ok E"
  shows "test_connection_events (faulty E refused) refused = Some ()"
  by (simp add: test_connection_events_def polls_event_def fault_eval faulty_def errno_code [OF assms] assms
      shim_eq_poll_def zero_event_def source_of_def fake_eq_read_def fake_eq_readerr_def shim_info_free_def
      free_entry_info_def take_info_def fi_freeinfo_def eq_read_error_def SHIM_EVENT_CONNREQ_def
      SHIM_EVENT_CONNECTED_def SHIM_EVENT_SHUTDOWN_def SHIM_EVENT_ERROR_def c_string_def c_text_def
      SHIM_ERROR_TEXT_SIZE_def cong: demo_congs)

subsection \<open>Queries\<close>

definition query_test :: "fault lib \<Rightarrow> unit option" where
  "query_test L = do {
     let query = (\<lambda>src. shim_info_open L (Some ''192.0.2.1'') (Some ''7471'') (Some ''rxe_test'') src True);
     ((ret, q), w) \<leftarrow> query 1 (empty_world fault_start);
     _ \<leftarrow> require (ret = 0);
     _ \<leftarrow> require (observed_query_flags (prov w) = FI_SOURCE L);
     i \<leftarrow> infos w q;
     raw \<leftarrow> i_raw i;
     da \<leftarrow> domain_attr raw;
     _ \<leftarrow> require (dom_name da = Some ''rxe_test'');
     w \<leftarrow> shim_info_free q w;
     ((ret, q), w) \<leftarrow> query 0 w;
     _ \<leftarrow> require (ret = 0);
     i \<leftarrow> infos w q;
     raw \<leftarrow> i_raw i;
     _ \<leftarrow> require (observed_query_flags (prov w) = 0 \<and> dest_addr raw \<noteq> 0);
     w \<leftarrow> shim_info_free q w;
     ((ret, q), w) \<leftarrow> query 1 (knob (\<lambda>p. p\<lparr>duplicate_failure := True\<rparr>) w);
     _ \<leftarrow> require (ret = - errno L FI_ENOMEM);
     _ \<leftarrow> require (q = 0);
     require (query_ok (prov w))
   }"

lemma query_test_passes:
  assumes "errno_ok E" and "FI_MSG E \<noteq> 0"
  shows "query_test (faulty E refused) = Some ()"
  by (simp add: query_test_def fault_eval faulty_def errno_code [OF assms(1)] assms shim_info_open_def take_info_def
      fi_freeinfo_def fill_hints_def copy_string_def malloc_def set_prov_name_def set_dom_name_def query_hints_def
      wrap_getinfo_def wrap_dupinfo_def wrap_selected_def free_query_def info_selectable_def shim_info_free_def
      cong: demo_congs)

subsection \<open>Operations in flight\<close>

text \<open>The handles of the test's main part; its buffer is a live block of 64 bytes at 600.\<close>

record rig =
  r_tx :: addr
  r_rx :: addr
  r_ep :: addr
  r_mr :: addr
  r_send :: addr
  r_recv :: addr

definition rig_cq :: "addr \<Rightarrow> shim_cq" where
  "rig_cq r = \<lparr>c_raw = r, c_domain = 32, c_pending = 0, c_capacity = 1, c_count = 0, c_used = True,
     c_attached = True, c_retired = False\<rparr>"

definition set_up :: "fault lib \<Rightarrow> (rig \<times> fault world) option" where
  "set_up L = do {
     let w = (empty_world fault_start)\<lparr>
       domains := [32 \<mapsto> \<lparr>d_raw = 0, d_fabric = 0, d_children = 4\<rparr>],
       eqs := [48 \<mapsto> \<lparr>e_raw = 0, e_fabric = 0, e_users = 1\<rparr>],
       mem := [600 \<mapsto> replicate 64 (CHR 0x00)]\<rparr>;
     let (tx, w) = calloc L w;
     let w = set_cq tx (rig_cq 302) w;
     let (rx, w) = calloc L w;
     let w = set_cq rx (rig_cq 303) w;
     let (ep, w) = calloc L w;
     let w = set_endpoint ep \<lparr>p_raw = 200, p_domain = 32, p_eq = 48, p_tx = tx, p_rx = rx, p_max_msg = 64,
       p_ready = True, p_closing = False\<rparr> w;
     let (mr, w) = calloc L w;
     let w = set_mr mr \<lparr>m_raw = 304, m_domain = 32, m_buffer = 600, m_capacity = 64, m_pending = 0,
       m_access = SHIM_ACCESS_SEND OR SHIM_ACCESS_RECV\<rparr> w;
     _ \<leftarrow> require (tx \<noteq> 0 \<and> rx \<noteq> 0 \<and> ep \<noteq> 0 \<and> mr \<noteq> 0);
     ((ret, sd), w) \<leftarrow> shim_op_create L (2 ^ 40) True w;
     _ \<leftarrow> require (ret = 0);
     ((ret, rv), w) \<leftarrow> shim_op_create L 2 True w;
     _ \<leftarrow> require (ret = 0);
     Some (\<lparr>r_tx = tx, r_rx = rx, r_ep = ep, r_mr = mr, r_send = sd, r_recv = rv\<rparr>, w)
   }"

definition posts_test :: "fault lib \<Rightarrow> rig \<Rightarrow> fault world \<Rightarrow> fault world option" where
  "posts_test L h w = do {
     ((ret, info), w) \<leftarrow> shim_info_open L None (Some ''7471'') None 1 True w;
     _ \<leftarrow> require (ret = - errno L FI_EINVAL);
     _ \<leftarrow> require (info = 0);
     w \<leftarrow> returns (shim_post_send L (r_ep h) (r_send h) (r_mr h) 65 600 w) (- errno L FI_EINVAL);
     w \<leftarrow> returns (shim_post_send L (r_ep h) (r_send h) (r_mr h) 2 (600 + 63) w) (- errno L FI_EINVAL);
     let w = knob (\<lambda>p. p\<lparr>post_result := - errno L FI_EAGAIN\<rparr>) w;
     w \<leftarrow> returns (shim_post_send L (r_ep h) (r_send h) (r_mr h) 5 600 w) (- errno L FI_EAGAIN);
     c \<leftarrow> cqs w (r_tx h);
     m \<leftarrow> mrs w (r_mr h);
     x \<leftarrow> ops w (r_send h);
     _ \<leftarrow> require (c_count c = 0 \<and> m_pending m = 0 \<and> o_cq x = 0);
     let w = knob (\<lambda>p. p\<lparr>post_result := 0\<rparr>) w;
     w \<leftarrow> returns (shim_post_send L (r_ep h) (r_send h) (r_mr h) 5 600 w) 0;
     w \<leftarrow> returns (shim_post_send L (r_ep h) (r_send h) (r_mr h) 5 600 w) (- errno L FI_EBUSY);
     w \<leftarrow> returns (shim_post_send L (r_ep h) (r_recv h) (r_mr h) 5 600 w) (- errno L FI_EAGAIN);
     w \<leftarrow> returns (shim_mr_close L (r_mr h) w) (- errno L FI_EBUSY);
     w \<leftarrow> returns (shim_op_free L (r_send h) w) (- errno L FI_EBUSY);
     w \<leftarrow> returns (shim_cq_close L (r_tx h) w) (- errno L FI_EBUSY);
     w \<leftarrow> returns (shim_domain_close L 32 w) (- errno L FI_EBUSY);
     returns (shim_eq_close L 48 w) (- errno L FI_EBUSY)
   }"

definition polls_test :: "fault lib \<Rightarrow> rig \<Rightarrow> fault world \<Rightarrow> fault world option" where
  "polls_test L h w = do {
     ((ret, _), w) \<leftarrow> shim_cq_poll L (r_tx h) True w;
     _ \<leftarrow> require (ret = 0);
     let w = knob (\<lambda>p. p\<lparr>completed_context := r_send h\<rparr>) w;
     ((ret, cmp), w) \<leftarrow> shim_cq_poll L (r_tx h) True w;
     _ \<leftarrow> require (ret = 1);
     _ \<leftarrow> require (op_id cmp = 2 ^ 40 \<and> len cmp = 5);
     _ \<leftarrow> require (flags cmp = SHIM_COMPLETION_SEND \<and> err cmp = 0);
     m \<leftarrow> mrs w (r_mr h);
     c \<leftarrow> cqs w (r_tx h);
     _ \<leftarrow> require (m_pending m = 0 \<and> c_count c = 0);
     w \<leftarrow> returns (shim_post_recv L (r_ep h) (r_recv h) (r_mr h) 64 600 w) 0;
     let w = knob (\<lambda>p. p\<lparr>cq_error := True, completed_context := r_recv h\<rparr>) w;
     ((ret, cmp), w) \<leftarrow> shim_cq_poll L (r_rx h) True w;
     _ \<leftarrow> require (ret = 1);
     _ \<leftarrow> require (err cmp = errno L FI_EIO \<and> prov_err cmp = 123 \<and> len cmp = 0);
     _ \<leftarrow> require (flags cmp = SHIM_COMPLETION_RECV \<and> op_id cmp = 2);
     _ \<leftarrow> require (c_string (message cmp) = ''injected provider error'');
     returns (shim_post_recv L (r_ep h) (r_recv h) (r_mr h) 64 600 w) 0
   }"

definition closes_test :: "fault lib \<Rightarrow> rig \<Rightarrow> fault world \<Rightarrow> unit option" where
  "closes_test L h w = do {
     let w = knob (\<lambda>p. p\<lparr>close_result := - errno L FI_EBUSY\<rparr>) w;
     w \<leftarrow> returns (shim_endpoint_close L (r_ep h) w) (- errno L FI_EBUSY);
     m \<leftarrow> mrs w (r_mr h);
     e \<leftarrow> eqs w 48;
     c \<leftarrow> cqs w (r_rx h);
     _ \<leftarrow> require (m_pending m = 1 \<and> e_users e = 1 \<and> c_attached c);
     w \<leftarrow> returns (shim_mr_close L (r_mr h) w) (- errno L FI_EBUSY);
     let w = knob (\<lambda>p. p\<lparr>close_result := 0\<rparr>) w;
     w \<leftarrow> returns (shim_endpoint_close L (r_ep h) w) 0;
     e \<leftarrow> eqs w 48;
     m \<leftarrow> mrs w (r_mr h);
     _ \<leftarrow> require (e_users e = 0 \<and> m_pending m = 0);
     ((ret, _), w) \<leftarrow> shim_cq_poll L (r_rx h) True w;
     _ \<leftarrow> require (ret = - errno L FI_EOPBADSTATE);
     w \<leftarrow> returns (shim_op_free L (r_recv h) w) (- errno L FI_EBUSY);
     let w = knob (\<lambda>p. p\<lparr>close_result := - errno L FI_EBUSY\<rparr>) w;
     w \<leftarrow> returns (shim_cq_close L (r_rx h) w) (- errno L FI_EBUSY);
     w \<leftarrow> returns (shim_op_free L (r_recv h) w) (- errno L FI_EBUSY);
     let w = knob (\<lambda>p. p\<lparr>close_result := 0\<rparr>) w;
     w \<leftarrow> returns (shim_mr_close L (r_mr h) w) 0;
     w \<leftarrow> returns (shim_cq_close L (r_tx h) w) 0;
     w \<leftarrow> returns (shim_cq_close L (r_rx h) w) 0;
     w \<leftarrow> returns (shim_op_free L (r_send h) w) 0;
     w \<leftarrow> returns (shim_op_free L (r_recv h) w) 0;
     d \<leftarrow> domains w 32;
     require (d_children d = 0)
   }"

definition ownership_test :: "fault lib \<Rightarrow> unit option" where
  "ownership_test L = do {
     (h, w) \<leftarrow> set_up L;
     w \<leftarrow> posts_test L h w;
     w \<leftarrow> polls_test L h w;
     closes_test L h w
   }"

lemmas ownership_eval = set_up_def posts_test_def polls_test_def closes_test_def rig_cq_def fault_eval
  fake_read_def fake_readerr_def shim_op_create_def shim_info_open_def eprint_def shim_post_send_def
  shim_post_recv_def post_message_def read_region_def shim_mr_close_def shim_op_free_def shim_cq_close_def
  shim_domain_close_def shim_eq_close_def shim_endpoint_close_def retire_cq_def retire_walk.simps
  drain_cq.simps find_link.simps shim_cq_poll_def cq_read_entry_def deliver_def zero_completion_def
  unlink_op_def release_op_def unborrow_def SHIM_ACCESS_SEND_def SHIM_ACCESS_RECV_def
  SHIM_COMPLETION_SEND_def SHIM_COMPLETION_RECV_def c_string_def c_text_def SHIM_ERROR_TEXT_SIZE_def

lemma ownership_test_passes:
  assumes "errno_ok E"
  shows "ownership_test (faulty E refused) = Some ()"
  by (simp add: ownership_test_def ownership_eval faulty_def errno_code [OF assms] assms cong: demo_congs)

subsection \<open>The link test\<close>

definition invalid_query_clears_the_output_handle :: "'p lib \<Rightarrow> 'p world \<Rightarrow> unit option" where
  "invalid_query_clears_the_output_handle L w = do {
     ((ret, info), w) \<leftarrow> shim_info_open L None (Some ''7471'') None 1 True w;
     _ \<leftarrow> require (ret < 0);
     _ \<leftarrow> require (info = 0);
     require (shim_error_string L ret \<noteq> '''')
   }"

definition operation_handle_crosses_the_ffi_boundary :: "'p lib \<Rightarrow> 'p world \<Rightarrow> unit option" where
  "operation_handle_crosses_the_ffi_boundary L w = do {
     ((ret, op), w) \<leftarrow> shim_op_create L (2 ^ 40) True w;
     _ \<leftarrow> require (ret = 0);
     _ \<leftarrow> require (op \<noteq> 0);
     w \<leftarrow> returns (shim_op_free L op w) 0;
     Some ()
   }"

lemma link_tests:
  assumes "errno_ok L"
  shows "(\<And>n. fi_strerror L n \<noteq> '''') \<Longrightarrow> invalid_query_clears_the_output_handle L w = Some ()"
    and "fst (calloc L w) \<noteq> 0 \<Longrightarrow> operation_handle_crosses_the_ffi_boundary L w = Some ()"
proof -
  show "invalid_query_clears_the_output_handle L w = Some ()" if "\<And>n. fi_strerror L n \<noteq> ''''"
    using that by (simp add: invalid_query_clears_the_output_handle_def shim_info_open_def require_def
        shim_error_string_def errno_code [OF assms])
  obtain a v where c: "calloc L w = (a, v)" by (cases "calloc L w")
  show "operation_handle_crosses_the_ffi_boundary L w = Some ()" if "fst (calloc L w) \<noteq> 0"
    using that by (simp add: operation_handle_crosses_the_ffi_boundary_def shim_op_create_def shim_op_free_def
        require_def returns_def c)
qed

lemma faulty_link_tests:
  assumes "errno_ok E" and "\<And>n. fi_strerror E n \<noteq> ''''"
  shows "invalid_query_clears_the_output_handle (faulty E refused) w = Some ()"
    and "operation_handle_crosses_the_ffi_boundary (faulty E refused) (empty_world fault_start) = Some ()"
proof -
  have "errno_ok (faulty E refused)" using assms(1) by (simp add: errno_ok_def)
  moreover have "fi_strerror (faulty E refused) n \<noteq> ''''" for n using assms(2) by (simp add: faulty_def)
  moreover have "fst (calloc (faulty E refused) (empty_world fault_start)) \<noteq> 0"
    by (simp add: calloc_def faulty_def fault_start_def empty_world_def allocated_def)
  ultimately show "invalid_query_clears_the_output_handle (faulty E refused) w = Some ()"
    and "operation_handle_crosses_the_ffi_boundary (faulty E refused) (empty_world fault_start) = Some ()"
    using link_tests by blast+
qed

end
