(* ===== verification/Build_Script.thy ===== *)
theory Build_Script
  imports Prelude
begin

text \<open>
  The build script \<^verbatim>\<open>build.rs\<close>. The crates it drives, \<^verbatim>\<open>pkg_config\<close> and \<^verbatim>\<open>cc\<close>, are parameters:
  a probe answers a library description or an error, a compilation may panic. What the script
  itself decides is modelled: the two probes, the arguments of the compilation and their
  order, and the lines it prints for cargo.
\<close>

text \<open>An option that the script does not set is \<open>None\<close>.\<close>

record probe_config =
  atleast_version :: "string option"
  statik :: "bool option"
  cargo_metadata :: "bool option"

record library =
  include_paths :: "string list"
  lib_defines :: "(string \<times> string option) list"

record cc_build =
  cc_files :: "string list"
  cc_includes :: "string list"
  cc_defines :: "(string \<times> string option) list"
  cc_flags_if_supported :: "string list"
  cc_warnings :: "bool option"

record 'p build_tools =
  probe :: "probe_config \<Rightarrow> string \<Rightarrow> 'p \<Rightarrow> (string + library) \<times> 'p"
  compile :: "cc_build \<Rightarrow> string \<Rightarrow> 'p \<Rightarrow> (string + unit) \<times> 'p"

definition config_new :: probe_config where
  "config_new = \<lparr>atleast_version = None, statik = None, cargo_metadata = None\<rparr>"

definition build_new :: cc_build where
  "build_new = \<lparr>cc_files = [], cc_includes = [], cc_defines = [], cc_flags_if_supported = [], cc_warnings = None\<rparr>"

definition include_dir :: "string \<Rightarrow> cc_build \<Rightarrow> cc_build" where
  "include_dir p b = b\<lparr>cc_includes := cc_includes b @ [p]\<rparr>"

definition define_macro :: "string \<times> string option \<Rightarrow> cc_build \<Rightarrow> cc_build" where
  "define_macro d b = b\<lparr>cc_defines := cc_defines b @ [d]\<rparr>"

text \<open>\<open>expect\<close> panics with its message and the error.\<close>

definition expect :: "string \<Rightarrow> (string + 'a) \<Rightarrow> string + 'a" where
  "expect m r = (case r of Inl e \<Rightarrow> Inl (m @ '': '' @ e) | Inr x \<Rightarrow> Inr x)"

definition shim_build :: "library \<Rightarrow> cc_build" where
  "shim_build fabric =
     (let build = build_new\<lparr>cc_files := [''naive/fabric_shim.c'']\<rparr>;
          build = include_dir ''naive'' build;
          build = build\<lparr>cc_flags_if_supported := [''-std=c11''], cc_warnings := Some True\<rparr>;
          build = fold include_dir (include_paths fabric) build
      in fold define_macro (lib_defines fabric) build)"

text \<open>The result is the panic message, or the lines printed for cargo; and the tools' state.\<close>

definition build_main :: "'p build_tools \<Rightarrow> 'p \<Rightarrow> (string + string list) \<times> 'p" where
  "build_main T p =
     (let out = [''cargo:rerun-if-changed=naive/fabric_shim.c'', ''cargo:rerun-if-changed=naive/fabric_shim.h''];
          config = config_new\<lparr>atleast_version := Some ''1.11'', statik := Some False\<rparr>;
          (r, p) = probe T (config\<lparr>cargo_metadata := Some False\<rparr>) ''libfabric'' p
      in case expect ''can not probe libfabric: please check libfabric.pc and PKG_CONFIG_PATH'' r of
           Inl e \<Rightarrow> (Inl e, p)
         | Inr fabric \<Rightarrow>
             (let (r, p) = compile T (shim_build fabric) ''fabric_shim'' p
              in case r of
                   Inl e \<Rightarrow> (Inl e, p)
                 | Inr _ \<Rightarrow>
                     (let (r, p) = probe T config ''libfabric'' p
                      in case expect ''can not get libfabric link parameters: please check libfabric.pc and PKG_CONFIG_PATH'' r of
                           Inl e \<Rightarrow> (Inl e, p)
                         | Inr _ \<Rightarrow> (Inr out, p))))"

lemma fold_include: "fold include_dir ps b = b\<lparr>cc_includes := cc_includes b @ ps\<rparr>"
  by (induction ps arbitrary: b) (simp_all add: include_dir_def)

lemma fold_define: "fold define_macro ds b = b\<lparr>cc_defines := cc_defines b @ ds\<rparr>"
  by (induction ds arbitrary: b) (simp_all add: define_macro_def)

text \<open>Every path and macro of the library reaches the compiler once and in order.\<close>

lemma shim_build_exact:
  "shim_build fabric = \<lparr>cc_files = [''naive/fabric_shim.c''], cc_includes = ''naive'' # include_paths fabric,
     cc_defines = lib_defines fabric, cc_flags_if_supported = [''-std=c11''], cc_warnings = Some True\<rparr>"
  by (simp add: shim_build_def fold_include fold_define include_dir_def build_new_def)

text \<open>Nothing is compiled before the library is found, and success needs all three steps.\<close>

lemma build_needs_library:
  assumes "fst (probe T \<lparr>atleast_version = Some ''1.11'', statik = Some False, cargo_metadata = Some False\<rparr>
      ''libfabric'' p) = Inl e"
  shows "\<exists>m. build_main T p = (Inl (m @ e), snd (probe T \<lparr>atleast_version = Some ''1.11'', statik = Some False,
      cargo_metadata = Some False\<rparr> ''libfabric'' p))"
  using assms by (auto simp: build_main_def config_new_def expect_def split: prod.splits)

end
