(* ===== verification/Pingpong.thy ===== *)
theory Pingpong
  imports Fabric Transport
begin

text \<open>
  The C example \<^verbatim>\<open>examples/shim_pingpong.c\<close>: one process, server or client, that drives the
  shim directly. A function of the example takes its \<^verbatim>\<open>struct session\<close> and the world and
  returns its integer result with both; \<open>None\<close> is undefined behaviour or an endless loop.
  \<^verbatim>\<open>pause_poll\<close> has no effect but time, and \<^verbatim>\<open>fflush\<close> none on the order of the console. Clock
  readings are in nanoseconds and exact; the rounding of \<^verbatim>\<open>double\<close> seconds is not modelled.
  An absent \<^verbatim>\<open>argv[0]\<close> is printed as the C library prints a null string.
\<close>

record session =
  pp_info :: addr
  pp_request :: addr
  pp_fabric :: addr
  pp_domain :: addr
  pp_eq :: addr
  pp_tx_cq :: addr
  pp_rx_cq :: addr
  pp_listener :: addr
  pp_ep :: addr
  pp_tx_mr :: addr
  pp_rx_mr :: addr
  pp_tx_op :: addr
  pp_rx_op :: addr
  pp_tx :: addr
  pp_rx :: addr
  pp_tx_done :: bool
  pp_rx_done :: bool
  pp_rx_len :: size_t
  pp_accepted :: bool

definition session_start :: session where
  "session_start = \<lparr>pp_info = 0, pp_request = 0, pp_fabric = 0, pp_domain = 0, pp_eq = 0,
     pp_tx_cq = 0, pp_rx_cq = 0, pp_listener = 0, pp_ep = 0, pp_tx_mr = 0, pp_rx_mr = 0,
     pp_tx_op = 0, pp_rx_op = 0, pp_tx = 0, pp_rx = 0, pp_tx_done = True, pp_rx_done = False,
     pp_rx_len = 0, pp_accepted = False\<rparr>"

type_synonym 'p act = "session \<times> 'p world \<Rightarrow> (int \<times> session \<times> 'p world) option"

definition CAPACITY :: nat where "CAPACITY = 64"

subsection \<open>Errors, buffers and waiting\<close>

definition pp_check :: "'p lib \<Rightarrow> int \<Rightarrow> string \<Rightarrow> 'p world \<Rightarrow> 'p world" where
  "pp_check E ret operation w =
     (if ret < 0
      then eprintln (operation @ '': '' @ shim_error_string E ret @ '' ('' @ show_int ret @ '')'') w
      else w)"

text \<open>\<^verbatim>\<open>calloc(1, 64)\<close>; \<^verbatim>\<open>free\<close>, which is undefined on a pointer that is not live.\<close>

definition calloc_buffer :: "'p lib \<Rightarrow> 'p world \<Rightarrow> addr \<times> 'p world" where
  "calloc_buffer E w = (let (a, w) = calloc E w
     in (a, if a = 0 then w else w\<lparr>mem := (mem w)(a \<mapsto> replicate CAPACITY (CHR 0x00))\<rparr>))"

definition free_buffer :: "addr \<Rightarrow> 'p world \<Rightarrow> 'p world option" where
  "free_buffer a w = (if a = 0 then Some w
     else case mem w a of None \<Rightarrow> None | Some _ \<Rightarrow> Some (w\<lparr>mem := (mem w)(a := None)\<rparr>))"

text \<open>
  Accesses to a buffer by the process. The operation \<open>op\<close> is the only one ever posted on it;
  while it borrows the region, the device may use the bytes, and an access races with it.
\<close>

definition borrowed :: "addr \<Rightarrow> 'p world \<Rightarrow> bool" where
  "borrowed op w = (case ops w op of None \<Rightarrow> False | Some x \<Rightarrow> o_mr x \<noteq> 0)"

definition memcpy_to :: "addr \<Rightarrow> addr \<Rightarrow> bytes \<Rightarrow> 'p world \<Rightarrow> 'p world option" where
  "memcpy_to op a bs w = do {
     old \<leftarrow> mem w a;
     if borrowed op w \<or> length bs > length old then None
     else Some (w\<lparr>mem := (mem w)(a \<mapsto> bs @ drop (length bs) old)\<rparr>)
   }"

definition read_bytes :: "addr \<Rightarrow> addr \<Rightarrow> nat \<Rightarrow> 'p world \<Rightarrow> bytes option" where
  "read_bytes op a n w = do {
     bs \<leftarrow> mem w a;
     if borrowed op w \<or> n > length bs then None else Some (take n bs)
   }"

text \<open>
  The shape of every waiting loop: five seconds from now, one round per iteration, and a
  message when the time is up. A round returns from the function (\<open>Inl\<close>) or goes on.
\<close>

partial_function (option) poll_until :: "'p lib \<Rightarrow> nat \<Rightarrow> string
    \<Rightarrow> (session \<times> 'p world \<Rightarrow> ((int \<times> session \<times> 'p world) + (session \<times> 'p world)) option) \<Rightarrow> 'p act" where
  "poll_until E deadline late round s =
     (if fst (now E (snd s)) < deadline
      then Option.bind (round (fst s, snd (now E (snd s)))) (\<lambda>z. case z of
        Inl out \<Rightarrow> Some out | Inr s \<Rightarrow> poll_until E deadline late round s)
      else Some (-1, fst s, eprintln late (snd (now E (snd s)))))"

definition five_seconds :: "'p lib \<Rightarrow> string
    \<Rightarrow> (session \<times> 'p world \<Rightarrow> ((int \<times> session \<times> 'p world) + (session \<times> 'p world)) option) \<Rightarrow> 'p act" where
  "five_seconds E late round s =
     (let (t, w) = now E (snd s) in poll_until E (t + from_secs 5) late round (fst s, w))"

subsection \<open>Events and completions\<close>

text \<open>A connection request nobody waits for: rejected where there is a listener, and freed.\<close>

definition turn_away :: "'p lib \<Rightarrow> addr \<Rightarrow> session \<Rightarrow> 'p world \<Rightarrow> 'p world option" where
  "turn_away E info s w = do {
     (_, w) \<leftarrow> (if pp_listener s \<noteq> 0 then shim_reject E (pp_listener s) info w else Some (0, w));
     shim_info_free info w
   }"

definition wait_event_round :: "'p lib \<Rightarrow> u32 \<Rightarrow> session \<times> 'p world
    \<Rightarrow> ((int \<times> session \<times> 'p world) + (session \<times> 'p world)) option" where
  "wait_event_round E wanted s = do {
     let (s, w) = s;
     ((ret, event), w) \<leftarrow> shim_eq_poll E (pp_eq s) True w;
     let w = pp_check E ret ''EQ poll'' w;
     if ret < 0 then Some (Inl (-1, s, w))
     else if ret = 0 then Some (Inr (s, w))
     else if ev_type event = SHIM_EVENT_CONNREQ then
       (if wanted = SHIM_EVENT_CONNREQ \<and> pp_request s = 0
        then Some (Inl (0, s\<lparr>pp_request := ev_info event\<rparr>, w))
        else do { w \<leftarrow> turn_away E (ev_info event) s w; Some (Inr (s, w)) })
     else if ev_type event = wanted then Some (Inl (0, s, w))
     else Some (Inl (-1, s, eprintln (''unexpected EQ event '' @ show_nat (unat (ev_type event)) @ '': ''
            @ take_until_nul (ev_message event)) w))
   }"

definition wait_event :: "'p lib \<Rightarrow> u32 \<Rightarrow> 'p act" where
  "wait_event E wanted = five_seconds E ''connection event timeout'' (wait_event_round E wanted)"

text \<open>
  The three parts of \<^verbatim>\<open>progress\<close>: \<open>progress_cq\<close> polls one completion queue for the
  operation with identifier \<open>i\<close> and hands the completion to \<open>found\<close>.
\<close>

definition progress_cq :: "'p lib \<Rightarrow> string \<Rightarrow> addr \<Rightarrow> u64 \<Rightarrow> u64
    \<Rightarrow> (shim_completion \<Rightarrow> session \<Rightarrow> session) \<Rightarrow> 'p act" where
  "progress_cq E name cq i direction found s = do {
     let (s, w) = s;
     ((ret, fin), w) \<leftarrow> shim_cq_poll E cq True w;
     let w = pp_check E ret (name @ '' CQ poll'') w;
     if ret < 0 then Some (-1, s, w)
     else if ret = 1 then
       (if err fin \<noteq> 0 \<or> op_id fin \<noteq> i \<or> flags fin \<noteq> direction
        then Some (-1, s, eprintln (name @ '' completion failed: '' @ take_until_nul (message fin)) w)
        else Some (0, found fin s, w))
     else Some (0, s, w)
   }"

definition progress_eq :: "'p lib \<Rightarrow> 'p act" where
  "progress_eq E s = do {
     let (s, w) = s;
     ((ret, event), w) \<leftarrow> shim_eq_poll E (pp_eq s) True w;
     let w = pp_check E ret ''EQ poll'' w;
     if ret < 0 then Some (-1, s, w)
     else if ret = 1 then
       (if ev_type event = SHIM_EVENT_CONNREQ
        then do { w \<leftarrow> turn_away E (ev_info event) s w; Some (0, s, w) }
        else if ev_type event = SHIM_EVENT_ERROR \<or> ev_type event = SHIM_EVENT_SHUTDOWN
        then Some (-1, s, eprintln (''connection ended before completion: ''
               @ take_until_nul (ev_message event)) w)
        else Some (0, s, w))
     else Some (0, s, w)
   }"

definition progress :: "'p lib \<Rightarrow> 'p act" where
  "progress E s = do {
     (ret, s) \<leftarrow> progress_cq E ''TX'' (pp_tx_cq (fst s)) 1 SHIM_COMPLETION_SEND
       (\<lambda>_. pp_tx_done_update (\<lambda>_. True)) s;
     if ret < 0 then Some (ret, s)
     else do {
       (ret, s) \<leftarrow> progress_cq E ''RX'' (pp_rx_cq (fst s)) 2 SHIM_COMPLETION_RECV
         (\<lambda>fin s. s\<lparr>pp_rx_done := True, pp_rx_len := len fin\<rparr>) s;
       if ret < 0 then Some (ret, s)
       else if pp_tx_done (fst s) \<and> pp_rx_done (fst s) then Some (0, s)
       else progress_eq E s
     }
   }"

subsection \<open>Messages\<close>

text \<open>
  One round of both submission loops: a result other than \<^verbatim>\<open>FI_EAGAIN\<close> is final, otherwise
  the queues are driven before the next attempt.
\<close>

definition submit_round :: "'p lib \<Rightarrow> string \<Rightarrow> (session \<Rightarrow> 'p world \<Rightarrow> (int \<times> 'p world) option)
    \<Rightarrow> session \<times> 'p world \<Rightarrow> ((int \<times> session \<times> 'p world) + (session \<times> 'p world)) option" where
  "submit_round E name post s = do {
     let (s, w) = s;
     (ret, w) \<leftarrow> post s w;
     if shim_error_is_again E ret = 0 then Some (Inl (ret, s, pp_check E ret name w))
     else do {
       (ret, s) \<leftarrow> progress E (s, w);
       Some (if ret < 0 then Inl (-1, s) else Inr s)
     }
   }"

definition post_receive :: "'p lib \<Rightarrow> 'p act" where
  "post_receive E s =
     five_seconds E ''receive submission timeout''
       (submit_round E ''post receive'' (\<lambda>s. shim_post_recv E (pp_ep s) (pp_rx_op s) (pp_rx_mr s)
          (of_nat CAPACITY) (pp_rx s)))
       ((fst s)\<lparr>pp_rx_done := False\<rparr>, snd s)"

definition send_message :: "'p lib \<Rightarrow> string \<Rightarrow> 'p act" where
  "send_message E text s = do {
     let (s, w) = s;
     if length text > CAPACITY \<or> \<not> pp_tx_done s then Some (-1, s, w)
     else do {
       w \<leftarrow> memcpy_to (pp_tx_op s) (pp_tx s) text w;
       five_seconds E ''send submission timeout''
         (submit_round E ''post send'' (\<lambda>s. shim_post_send E (pp_ep s) (pp_tx_op s) (pp_tx_mr s)
            (of_nat (length text)) (pp_tx s)))
         (s\<lparr>pp_tx_done := False\<rparr>, w)
     }
   }"

text \<open>The comparison of a received message, with C's short-circuit evaluation.\<close>

definition received_text :: "string \<Rightarrow> session \<Rightarrow> 'p world \<Rightarrow> bool option" where
  "received_text expected s w =
     (if pp_rx_len s \<noteq> of_nat (length expected) then Some False
      else do {
        got \<leftarrow> read_bytes (pp_rx_op s) (pp_rx s) (unat (pp_rx_len s)) w;
        Some (got = expected)
      })"

definition wait_data_round :: "'p lib \<Rightarrow> string option \<Rightarrow> session \<times> 'p world
    \<Rightarrow> ((int \<times> session \<times> 'p world) + (session \<times> 'p world)) option" where
  "wait_data_round E expected s = do {
     (ret, (s, w)) \<leftarrow> progress E s;
     if ret < 0 then Some (Inl (-1, s, w))
     else if pp_tx_done s \<and> pp_rx_done s then do {
       ok \<leftarrow> (case expected of None \<Rightarrow> Some True | Some e \<Rightarrow> received_text e s w);
       Some (Inl (if ok then (0, s, w)
                  else (-1, s, eprintln ''unexpected message content or length'' w)))
     }
     else Some (Inr (s, w))
   }"

definition wait_data :: "'p lib \<Rightarrow> string option \<Rightarrow> 'p act" where
  "wait_data E expected = five_seconds E ''data completion timeout'' (wait_data_round E expected)"

subsection \<open>Cleanup\<close>

text \<open>\<^verbatim>\<open>CLOSE\<close>: report a failed close, and go on.\<close>

definition pp_close :: "'p lib \<Rightarrow> string \<Rightarrow> (addr \<Rightarrow> 'p world \<Rightarrow> (int \<times> 'p world) option) \<Rightarrow> addr
    \<Rightarrow> bool \<times> 'p world \<Rightarrow> (bool \<times> 'p world) option" where
  "pp_close E name f a s = do {
     let (failed, w) = s;
     (ret, w) \<leftarrow> f a w;
     Some (failed \<or> ret < 0, pp_check E ret name w)
   }"

text \<open>The two regions: their memory is freed only when the close returned zero.\<close>

definition close_region :: "'p lib \<Rightarrow> string \<Rightarrow> addr \<Rightarrow> addr \<Rightarrow> bool \<times> 'p world
    \<Rightarrow> (bool \<times> 'p world) option" where
  "close_region E name mr buf s = do {
     let (failed, w) = s;
     (ret, w) \<leftarrow> shim_mr_close E mr w;
     let w = pp_check E ret name w;
     if ret = 0 then do { w \<leftarrow> free_buffer buf w; Some (failed, w) } else Some (True, w)
   }"

definition cleanup :: "'p lib \<Rightarrow> session \<Rightarrow> 'p world \<Rightarrow> (int \<times> 'p world) option" where
  "cleanup E s w = do {
     w \<leftarrow> (if pp_request s \<noteq> 0 \<and> \<not> pp_accepted s \<and> pp_listener s \<noteq> 0
           then do {
             (ret, w) \<leftarrow> shim_reject E (pp_listener s) (pp_request s) w;
             Some (pp_check E ret ''reject request'' w)
           }
           else Some w);
     w \<leftarrow> (if pp_ep s \<noteq> 0 then do { (_, w) \<leftarrow> shim_shutdown E (pp_ep s) w; Some w } else Some w);
     c \<leftarrow> pp_close E ''shim_endpoint_close'' (shim_endpoint_close E) (pp_ep s) (False, w);
     c \<leftarrow> pp_close E ''shim_cq_close'' (shim_cq_close E) (pp_tx_cq s) c;
     c \<leftarrow> pp_close E ''shim_cq_close'' (shim_cq_close E) (pp_rx_cq s) c;
     c \<leftarrow> pp_close E ''shim_op_free'' (shim_op_free E) (pp_tx_op s) c;
     c \<leftarrow> pp_close E ''shim_op_free'' (shim_op_free E) (pp_rx_op s) c;
     c \<leftarrow> close_region E ''TX MR close'' (pp_tx_mr s) (pp_tx s) c;
     c \<leftarrow> close_region E ''RX MR close'' (pp_rx_mr s) (pp_rx s) c;
     c \<leftarrow> pp_close E ''shim_listener_close'' (shim_listener_close E) (pp_listener s) c;
     c \<leftarrow> pp_close E ''shim_eq_close'' (shim_eq_close E) (pp_eq s) c;
     c \<leftarrow> pp_close E ''shim_domain_close'' (shim_domain_close E) (pp_domain s) c;
     (failed, w) \<leftarrow> pp_close E ''shim_fabric_close'' (shim_fabric_close E) (pp_fabric s) c;
     w \<leftarrow> shim_info_free (pp_request s) w;
     w \<leftarrow> shim_info_free (pp_info s) w;
     Some (if failed then -1 else 0, w)
   }"

subsection \<open>The program\<close>

text \<open>
  \<^verbatim>\<open>TRY\<close>: report a failure and go to the cleanup. What follows the last \<^verbatim>\<open>TRY\<close> is reached with
  \<open>True\<close>; \<open>False\<close> is the jump.
\<close>

type_synonym 'p leg = "session \<times> 'p world \<Rightarrow> (bool \<times> session \<times> 'p world) option"

definition TRY :: "'p lib \<Rightarrow> string \<Rightarrow> 'p act \<Rightarrow> 'p leg" where
  "TRY E name f s = do {
     (ret, (s, w)) \<leftarrow> f s;
     Some (\<not> ret < 0, s, pp_check E ret name w)
   }"

fun in_order :: "'p leg list \<Rightarrow> 'p leg" where
  "in_order [] s = Some (True, s)"
| "in_order (f # fs) s = Option.bind (f s) (\<lambda>(ok, s). if ok then in_order fs s else Some (False, s))"

text \<open>A shim call that writes a handle into a field of the session.\<close>

definition into :: "(addr \<Rightarrow> session \<Rightarrow> session)
    \<Rightarrow> (session \<Rightarrow> 'p world \<Rightarrow> ((int \<times> addr) \<times> 'p world) option) \<Rightarrow> 'p act" where
  "into store f s = do {
     let (s, w) = s;
     ((ret, a), w) \<leftarrow> f s w;
     Some (ret, store a s, w)
   }"

definition on_session :: "(session \<Rightarrow> 'p world \<Rightarrow> (int \<times> 'p world) option) \<Rightarrow> 'p act" where
  "on_session f s = do { let (s, w) = s; (ret, w) \<leftarrow> f s w; Some (ret, s, w) }"

definition quoted :: "string \<Rightarrow> string" where
  "quoted t = [CHR 0x22] @ t @ [CHR 0x22]"

definition listening :: "'p lib \<Rightarrow> 'p leg" where
  "listening E = in_order
     [TRY E ''shim_listener_open(s.fabric, s.info, s.eq, &s.listener)''
        (into (\<lambda>a. pp_listener_update (\<lambda>_. a))
          (\<lambda>s. shim_listener_open E (pp_fabric s) (pp_info s) (pp_eq s) True)),
      \<lambda>(s, w). Some (True, s, println ''listening; start the client within five seconds'' w),
      TRY E ''wait_event(&s, SHIM_EVENT_CONNREQ)'' (wait_event E SHIM_EVENT_CONNREQ)]"

definition calloc_buffers :: "'p lib \<Rightarrow> 'p leg" where
  "calloc_buffers E s =
     (let (s, w) = s; (tx, w) = calloc_buffer E w; (rx, w) = calloc_buffer E w
      in Some (tx \<noteq> 0 \<and> rx \<noteq> 0, s\<lparr>pp_tx := tx, pp_rx := rx\<rparr>, w))"

text \<open>\<^verbatim>\<open>active\<close>: the query result the endpoint is made from.\<close>

definition active_info :: "bool \<Rightarrow> session \<Rightarrow> addr" where
  "active_info server s = (if server then pp_request s else pp_info s)"

definition prepare_endpoint :: "'p lib \<Rightarrow> bool \<Rightarrow> 'p leg" where
  "prepare_endpoint E server = in_order
     [TRY E ''shim_domain_open(s.fabric, active, &s.domain)'' (into (\<lambda>a. pp_domain_update (\<lambda>_. a))
        (\<lambda>s. shim_domain_open E (pp_fabric s) (active_info server s) True)),
      TRY E ''shim_cq_open(s.domain, 16, &s.tx_cq)'' (into (\<lambda>a. pp_tx_cq_update (\<lambda>_. a))
        (\<lambda>s. shim_cq_open E (pp_domain s) 16 True)),
      TRY E ''shim_cq_open(s.domain, 16, &s.rx_cq)'' (into (\<lambda>a. pp_rx_cq_update (\<lambda>_. a))
        (\<lambda>s. shim_cq_open E (pp_domain s) 16 True)),
      TRY E ''shim_endpoint_open(s.domain, active, s.eq, s.tx_cq, s.rx_cq, &s.ep)''
        (into (\<lambda>a. pp_ep_update (\<lambda>_. a)) (\<lambda>s. shim_endpoint_open E (pp_domain s) (active_info server s)
           (pp_eq s) (pp_tx_cq s) (pp_rx_cq s) True)),
      calloc_buffers E,
      TRY E ''shim_mr_register(s.domain, s.tx, 64, SHIM_ACCESS_SEND, &s.tx_mr)''
        (into (\<lambda>a. pp_tx_mr_update (\<lambda>_. a))
           (\<lambda>s. shim_mr_register E (pp_domain s) (pp_tx s) (of_nat CAPACITY) SHIM_ACCESS_SEND True)),
      TRY E ''shim_mr_register(s.domain, s.rx, 64, SHIM_ACCESS_RECV, &s.rx_mr)''
        (into (\<lambda>a. pp_rx_mr_update (\<lambda>_. a))
           (\<lambda>s. shim_mr_register E (pp_domain s) (pp_rx s) (of_nat CAPACITY) SHIM_ACCESS_RECV True)),
      TRY E ''shim_op_create(1, &s.tx_op)'' (into (\<lambda>a. pp_tx_op_update (\<lambda>_. a)) (\<lambda>_. shim_op_create E 1 True)),
      TRY E ''shim_op_create(2, &s.rx_op)'' (into (\<lambda>a. pp_rx_op_update (\<lambda>_. a)) (\<lambda>_. shim_op_create E 2 True)),
      TRY E ''post_receive(&s)'' (post_receive E)]"

definition join_peer :: "'p lib \<Rightarrow> bool \<Rightarrow> 'p leg" where
  "join_peer E server = in_order
     ((if server
       then [TRY E ''shim_accept(s.ep)'' (on_session (\<lambda>s. shim_accept E (pp_ep s))),
             \<lambda>(s, w). Some (True, s\<lparr>pp_accepted := True\<rparr>, w)]
       else [TRY E ''shim_connect(s.ep, s.info)'' (on_session (\<lambda>s. shim_connect E (pp_ep s) (pp_info s)))])
      @ [TRY E ''wait_event(&s, SHIM_EVENT_CONNECTED)'' (wait_event E SHIM_EVENT_CONNECTED)])"

definition exchange_messages :: "'p lib \<Rightarrow> bool \<Rightarrow> 'p leg" where
  "exchange_messages E server = in_order
     (let wait = (\<lambda>m. TRY E (''wait_data(&s, '' @ quoted m @ '')'') (wait_data E (Some m)));
          put = (\<lambda>m. TRY E (''send_message(&s, '' @ quoted m @ '')'') (send_message E m))
      in if server
         then [wait ''hello'', TRY E ''post_receive(&s)'' (post_receive E), put ''world'', wait ''ack'']
         else [put ''hello'', wait ''world'', put ''ack'', TRY E ''wait_data(&s, NULL)'' (wait_data E None)])"

definition exchange_run :: "'p lib \<Rightarrow> bool \<Rightarrow> string \<Rightarrow> string \<Rightarrow> string option \<Rightarrow> 'p leg" where
  "exchange_run E server ip port domain = in_order
     ([TRY E ''shim_info_open(argv[2], argv[3], argc == 5 ? argv[4] : NULL, server, &s.info)''
         (into (\<lambda>a. pp_info_update (\<lambda>_. a))
            (\<lambda>_. shim_info_open E (Some ip) (Some port) domain (if server then 1 else 0) True)),
       TRY E ''shim_fabric_open(s.info, &s.fabric)'' (into (\<lambda>a. pp_fabric_update (\<lambda>_. a))
         (\<lambda>s. shim_fabric_open E (pp_info s) True)),
       TRY E ''shim_eq_open(s.fabric, &s.eq)'' (into (\<lambda>a. pp_eq_update (\<lambda>_. a))
         (\<lambda>s. shim_eq_open E (pp_fabric s) True))]
      @ (if server then [listening E] else [])
      @ [prepare_endpoint E server, join_peer E server, exchange_messages E server,
         \<lambda>(s, w). Some (True, s, println ''hello/world passed; TX and RX completions observed'' w)])"

text \<open>\<open>argv\<close> with the program's name first; the result is the exit status.\<close>

definition pingpong_main :: "'p lib \<Rightarrow> string list \<Rightarrow> 'p world \<Rightarrow> (int \<times> 'p world) option" where
  "pingpong_main E argv w =
     (if length argv < 4 \<or> length argv > 5 \<or> argv ! 1 \<noteq> ''server'' \<and> argv ! 1 \<noteq> ''client''
      then Some (2, eprintln (''usage: '' @ (case argv of [] \<Rightarrow> ''(null)'' | n # _ \<Rightarrow> n)
             @ '' server|client <server-ip> <port> [local-domain]'') w)
      else do {
        let server = (argv ! 1 = ''server'');
        (ok, (s, w)) \<leftarrow> exchange_run E server (argv ! 2) (argv ! 3)
          (if length argv = 5 then Some (argv ! 4) else None) (session_start, w);
        (ret, w) \<leftarrow> cleanup E s w;
        Some (if ret < 0 \<or> \<not> ok then 1 else 0, w)
      })"

end
