(* ===== verification/Pingpong_Inv.thy ===== *)
theory Pingpong_Inv
  imports Pingpong Shim_Api Timed_Loop
begin

text \<open>
  The invariant of a session of the C example: the live objects of the process are exactly
  those its fields name, both buffers have their full length, and an operation that is in
  flight is the one of its queue, with its completion flag down. Each step the shim can
  make for the example keeps it.
\<close>

subsection \<open>Maps that differ in details only\<close>

definition same_under :: "('a \<Rightarrow> 'b) \<Rightarrow> (addr \<rightharpoonup> 'a) \<Rightarrow> (addr \<rightharpoonup> 'a) \<Rightarrow> bool" where
  "same_under f m m' \<longleftrightarrow> (\<forall>a. map_option f (m' a) = map_option f (m a))"

lemma same_under_refl [simp]: "same_under f m m"
  by (simp add: same_under_def)

lemma same_under_bump [simp]: "(\<And>x. f (g x) = f x) \<Longrightarrow> same_under f m (bump g a m)"
  by (simp add: same_under_def bump_apply option.map_comp comp_def)

lemma same_under_bump2: "same_under f m m' \<Longrightarrow> (\<And>x. f (g x) = f x) \<Longrightarrow> same_under f m (bump g a m')"
  by (simp add: same_under_def bump_apply option.map_comp comp_def)

lemma same_under_upd: "m a = Some x \<Longrightarrow> f y = f x \<Longrightarrow> same_under f m (m(a \<mapsto> y))"
  by (simp add: same_under_def)

lemma same_under_dom: "same_under f m m' \<Longrightarrow> dom m' = dom m"
  unfolding same_under_def dom_def by (metis option.map_disc_iff)

lemma same_underD: "same_under f m m' \<Longrightarrow> m' a = Some y \<Longrightarrow> \<exists>x. m a = Some x \<and> f x = f y"
  unfolding same_under_def by (metis map_option_eq_Some)

text \<open>Nothing the session relies on has changed.\<close>

definition still :: "'p world \<Rightarrow> 'p world \<Rightarrow> bool" where
  "still w w' \<longleftrightarrow> dom (infos w') = dom (infos w) \<and> dom (fabrics w') = dom (fabrics w) \<and>
     dom (domains w') = dom (domains w) \<and> dom (eqs w') = dom (eqs w) \<and> dom (cqs w') = dom (cqs w) \<and>
     dom (listeners w') = dom (listeners w) \<and>
     same_under (\<lambda>p. (p_tx p, p_rx p)) (endpoints w) (endpoints w') \<and>
     same_under m_buffer (mrs w) (mrs w') \<and> same_under (\<lambda>x. (o_cq x, o_mr x)) (ops w) (ops w') \<and>
     same_under length (mem w) (mem w') \<and> fi_lists w' = fi_lists w \<and> ticks w' = ticks w"

lemma still_same_heap [simp]: "same_heap w w' \<Longrightarrow> still w w'"
  by (auto simp: same_heap_def still_def)

lemma still_simps [simp]:
  "still w w" "still w (w\<lparr>prov := p\<rparr>)" "still w (w\<lparr>console := c\<rparr>)"
  "still w (eprintln t w)" "still w (println t w)" "still w (pp_check E r t w)"
  by (simp_all add: still_def eprintln_def println_def pp_check_def)

lemma same_under_trans: "same_under f m m' \<Longrightarrow> same_under f m' m'' \<Longrightarrow> same_under f m m''"
  by (simp add: same_under_def)

lemma still_trans: "still w w' \<Longrightarrow> still w' w'' \<Longrightarrow> still w w''"
  unfolding still_def by (auto intro: same_under_trans)

subsection \<open>The invariant\<close>

definition side_ok :: "(addr \<rightharpoonup> shim_mr) \<Rightarrow> (addr \<rightharpoonup> shim_op) \<Rightarrow> addr \<Rightarrow> addr \<Rightarrow> addr \<Rightarrow> addr \<Rightarrow> bool \<Rightarrow> bool" where
  "side_ok ms os cq mr op buf fin \<longleftrightarrow>
     (\<forall>m. ms mr = Some m \<longrightarrow> m_buffer m = buf) \<and>
     (\<forall>x. os op = Some x \<longrightarrow> (o_cq x = 0 \<or> o_cq x = cq \<and> \<not> fin) \<and> (o_mr x = 0 \<or> o_mr x = mr))"

text \<open>The live objects of a map are those of one field, or of two different fields.\<close>

definition holds1 :: "addr \<Rightarrow> (addr \<rightharpoonup> 'o) \<Rightarrow> bool" where
  "holds1 a m \<longleftrightarrow> dom m = {a} - {0}"

definition holds2 :: "addr \<Rightarrow> addr \<Rightarrow> (addr \<rightharpoonup> 'o) \<Rightarrow> bool" where
  "holds2 a b m \<longleftrightarrow> dom m = {a, b} - {0} \<and> (a = b \<longrightarrow> a = 0)"

lemma holds_new:
  "holds1 0 m \<Longrightarrow> a \<noteq> 0 \<Longrightarrow> holds1 a (m(a \<mapsto> x))"
  "holds2 0 b m \<Longrightarrow> a \<noteq> 0 \<Longrightarrow> m a = None \<Longrightarrow> holds2 a b (m(a \<mapsto> x))"
  "holds2 b 0 m \<Longrightarrow> a \<noteq> 0 \<Longrightarrow> m a = None \<Longrightarrow> holds2 b a (m(a \<mapsto> x))"
  unfolding holds1_def holds2_def by (auto simp: domIff)

lemma holds_del:
  "holds1 a m \<Longrightarrow> holds1 0 (m(a := None))"
  "holds2 a b m \<Longrightarrow> a \<noteq> 0 \<Longrightarrow> holds2 0 b (m(a := None))"
  "holds2 b a m \<Longrightarrow> a \<noteq> 0 \<Longrightarrow> holds2 b 0 (m(a := None))"
  unfolding holds1_def holds2_def by auto

lemma holds_dom: "dom m' = dom m \<Longrightarrow> holds1 a m' = holds1 a m" "dom m' = dom m \<Longrightarrow> holds2 a b m' = holds2 a b m"
  by (simp_all add: holds1_def holds2_def)

lemma holds_bump [simp]: "holds1 a (bump g c m) = holds1 a m" "holds2 a b (bump g c m) = holds2 a b m"
  by (simp_all add: holds1_def holds2_def)

lemma holds_mapm [simp]: "holds1 a (mapm h m) = holds1 a m" "holds2 a b (mapm h m) = holds2 a b m"
  by (simp_all add: holds1_def holds2_def)

lemma holds_empty [simp]: "holds1 0 Map.empty" "holds2 0 0 Map.empty"
  by (simp_all add: holds1_def holds2_def)

lemma holds_none: "holds1 0 m \<Longrightarrow> m = Map.empty" "holds2 0 0 m \<Longrightarrow> m = Map.empty"
  by (simp_all add: holds1_def holds2_def)

lemma holds_alive: "holds1 a m \<Longrightarrow> alive m a" "holds2 a b m \<Longrightarrow> alive m a" "holds2 b a m \<Longrightarrow> alive m a"
  by (auto simp: holds1_def holds2_def alive_def dom_def)

lemma holds_only:
  "holds1 b m \<Longrightarrow> m a = Some x \<Longrightarrow> a = b" "holds2 b c m \<Longrightarrow> m a = Some x \<Longrightarrow> a = b \<or> a = c"
  by (auto simp: holds1_def holds2_def dom_def)

lemma holds_apart: "holds2 a b m \<Longrightarrow> a = b \<longleftrightarrow> a = 0 \<and> b = 0"
  by (auto simp: holds2_def)

definition held_count :: "addr \<Rightarrow> nat" where
  "held_count a = (if a = 0 then 0 else 1)"

definition sess_held :: "session \<Rightarrow> 'p world \<Rightarrow> bool" where
  "sess_held s w \<longleftrightarrow> holds2 (pp_info s) (pp_request s) (infos w) \<and> holds1 (pp_fabric s) (fabrics w) \<and>
     holds1 (pp_domain s) (domains w) \<and> holds1 (pp_eq s) (eqs w) \<and> holds2 (pp_tx_cq s) (pp_rx_cq s) (cqs w) \<and>
     holds1 (pp_listener s) (listeners w) \<and> holds1 (pp_ep s) (endpoints w) \<and>
     holds2 (pp_tx_mr s) (pp_rx_mr s) (mrs w) \<and> holds2 (pp_tx_op s) (pp_rx_op s) (ops w) \<and>
     holds2 (pp_tx s) (pp_rx s) (mem w) \<and> (\<forall>a bs. mem w a = Some bs \<longrightarrow> length bs = CAPACITY) \<and>
     fi_lists w = held_count (pp_info s) + held_count (pp_request s)"

definition sess_links :: "session \<Rightarrow> 'p world \<Rightarrow> bool" where
  "sess_links s w \<longleftrightarrow>
     (\<forall>p. endpoints w (pp_ep s) = Some p \<longrightarrow> p_tx p = pp_tx_cq s \<and> p_rx p = pp_rx_cq s) \<and>
     side_ok (mrs w) (ops w) (pp_tx_cq s) (pp_tx_mr s) (pp_tx_op s) (pp_tx s) (pp_tx_done s) \<and>
     side_ok (mrs w) (ops w) (pp_rx_cq s) (pp_rx_mr s) (pp_rx_op s) (pp_rx s) (pp_rx_done s)"

definition sess_ok :: "session \<Rightarrow> 'p world \<Rightarrow> bool" where
  "sess_ok s w \<longleftrightarrow> inv w \<and> sess_held s w \<and> sess_links s w"

lemmas sess_defs = sess_ok_def sess_held_def sess_links_def

lemma sess_inv: "sess_ok s w \<Longrightarrow> inv w"
  by (simp add: sess_ok_def)

lemma sess_start_ok: "sess_ok session_start (empty_world p)"
  using inv_empty_world [of p]
  by (simp add: sess_defs session_start_def empty_world_def side_ok_def held_count_def)

lemma side_ok_same:
  assumes "side_ok ms os cq mr op buf fin" and "same_under m_buffer ms ms'"
    and "same_under (\<lambda>x. (o_cq x, o_mr x)) os os'"
  shows "side_ok ms' os' cq mr op buf fin"
  using assms(1) unfolding side_ok_def
  by (auto dest!: same_underD [OF assms(2)] same_underD [OF assms(3)])

lemma sess_still:
  assumes "sess_ok s w" and "still w w'" and "inv w'"
  shows "sess_ok s w'"
proof -
  have st: "same_under (\<lambda>p. (p_tx p, p_rx p)) (endpoints w) (endpoints w')"
    "same_under m_buffer (mrs w) (mrs w')" "same_under (\<lambda>x. (o_cq x, o_mr x)) (ops w) (ops w')"
    "same_under length (mem w) (mem w')"
    using assms(2) by (simp_all add: still_def)
  note d = holds_dom [OF same_under_dom [OF st(1)]] holds_dom [OF same_under_dom [OF st(2)]]
    holds_dom [OF same_under_dom [OF st(3)]] holds_dom [OF same_under_dom [OF st(4)]]
  have "\<forall>a bs. mem w' a = Some bs \<longrightarrow> length bs = CAPACITY"
    using assms(1) by (auto simp: sess_defs dest!: same_underD [OF st(4)])
  then have "sess_held s w'"
    using assms(1,2) by (simp add: sess_ok_def sess_held_def still_def d holds_dom [of "infos w'" "infos w"]
      holds_dom [of "fabrics w'" "fabrics w"] holds_dom [of "domains w'" "domains w"]
      holds_dom [of "eqs w'" "eqs w"] holds_dom [of "cqs w'" "cqs w"]
      holds_dom [of "listeners w'" "listeners w"])
  moreover have "sess_links s w'"
    using assms(1) side_ok_same [OF _ st(2,3)]
    by (auto simp: sess_defs dest!: same_underD [OF st(1)])
  ultimately show ?thesis using assms(3) by (simp add: sess_ok_def)
qed

lemma sess_prov [simp]: "sess_ok s (w\<lparr>prov := p\<rparr>) = sess_ok s w" "sess_ok s (w\<lparr>ticks := n\<rparr>) = sess_ok s w"
    "sess_ok s (w\<lparr>console := c\<rparr>) = sess_ok s w"
  by (simp_all add: sess_defs side_ok_def)

text \<open>Each field names a live object or is null.\<close>

lemma sess_alive:
  assumes "sess_ok s w"
  shows "alive (infos w) (pp_info s)" "alive (infos w) (pp_request s)" "alive (fabrics w) (pp_fabric s)"
    "alive (domains w) (pp_domain s)" "alive (eqs w) (pp_eq s)" "alive (cqs w) (pp_tx_cq s)"
    "alive (cqs w) (pp_rx_cq s)" "alive (listeners w) (pp_listener s)" "alive (endpoints w) (pp_ep s)"
    "alive (mrs w) (pp_tx_mr s)" "alive (mrs w) (pp_rx_mr s)" "alive (ops w) (pp_tx_op s)"
    "alive (ops w) (pp_rx_op s)"
  using assms unfolding sess_ok_def sess_held_def by (blast intro: holds_alive)+

text \<open>Two fields of a kind are equal only when both are null.\<close>

lemma sess_apart:
  assumes "sess_ok s w"
  shows "pp_tx_cq s = pp_rx_cq s \<longleftrightarrow> pp_tx_cq s = 0 \<and> pp_rx_cq s = 0"
    and "pp_tx_op s = pp_rx_op s \<longleftrightarrow> pp_tx_op s = 0 \<and> pp_rx_op s = 0"
    and "pp_tx_mr s = pp_rx_mr s \<longleftrightarrow> pp_tx_mr s = 0 \<and> pp_rx_mr s = 0"
    and "pp_tx s = pp_rx s \<longleftrightarrow> pp_tx s = 0 \<and> pp_rx s = 0"
    and "pp_info s = pp_request s \<longleftrightarrow> pp_info s = 0 \<and> pp_request s = 0"
  using assms unfolding sess_ok_def sess_held_def by (blast dest: holds_apart)+

subsection \<open>Opening\<close>

text \<open>
  The fields are filled in one order; \<open>fresh_from n s\<close> says that those from number \<open>n\<close> on are
  still null.
\<close>

definition fresh_from :: "nat \<Rightarrow> session \<Rightarrow> bool" where
  "fresh_from n s \<longleftrightarrow> (n \<le> 1 \<longrightarrow> pp_info s = 0) \<and> (n \<le> 2 \<longrightarrow> pp_fabric s = 0) \<and>
     (n \<le> 3 \<longrightarrow> pp_eq s = 0) \<and> (n \<le> 4 \<longrightarrow> pp_listener s = 0) \<and> (n \<le> 5 \<longrightarrow> pp_request s = 0) \<and>
     (n \<le> 6 \<longrightarrow> pp_domain s = 0) \<and> (n \<le> 7 \<longrightarrow> pp_tx_cq s = 0) \<and> (n \<le> 8 \<longrightarrow> pp_rx_cq s = 0) \<and>
     (n \<le> 9 \<longrightarrow> pp_ep s = 0) \<and> (n \<le> 10 \<longrightarrow> pp_tx s = 0 \<and> pp_rx s = 0) \<and> (n \<le> 11 \<longrightarrow> pp_tx_mr s = 0) \<and>
     (n \<le> 12 \<longrightarrow> pp_rx_mr s = 0) \<and> (n \<le> 13 \<longrightarrow> pp_tx_op s = 0) \<and> (n \<le> 14 \<longrightarrow> pp_rx_op s = 0)"

lemma fresh_from_mono: "fresh_from n s \<Longrightarrow> n \<le> m \<Longrightarrow> fresh_from m s"
  by (auto simp: fresh_from_def)

lemma sess_add_info:
  assumes "sess_ok s w" and "a \<noteq> 0" "\<not> allocated w a" and "pp_info s = 0" and "info_wf raw"
  shows "sess_ok (s\<lparr>pp_info := a\<rparr>) (take_info (add_info a raw w))"
  using assms fresh_maps [OF assms(3)] inv_add_info [OF sess_inv [OF assms(1)] assms(2,5)]
  by (simp add: sess_defs add_info_def take_info_def holds_new held_count_def)

lemma sess_add_request:
  assumes "sess_ok s w" and "a \<noteq> 0" "\<not> allocated w a" and "pp_request s = 0" and "info_wf raw"
  shows "sess_ok (s\<lparr>pp_request := a\<rparr>) (add_info a raw (take_info w))"
  using assms fresh_maps [OF assms(3)] inv_add_info [of "take_info w" a raw]
  by (simp add: sess_defs add_info_def take_info_def holds_new held_count_def)

lemma sess_add_fabric:
  assumes "sess_ok s w" and "a \<noteq> 0" "\<not> allocated w a" and "pp_fabric s = 0"
  shows "sess_ok (s\<lparr>pp_fabric := a\<rparr>) (add_fabric a \<lparr>f_raw = r, f_children = 0\<rparr> w)"
  using assms inv_add_fabric [OF sess_inv [OF assms(1)] assms(2,3), of "\<lparr>f_raw = r, f_children = 0\<rparr>"]
  by (simp add: sess_defs add_fabric_def holds_new)

lemma sess_add_eq:
  assumes "sess_ok s w" and "a \<noteq> 0" "\<not> allocated w a" and "pp_eq s = 0" and "fabrics w f \<noteq> None"
  shows "sess_ok (s\<lparr>pp_eq := a\<rparr>) (add_eq a \<lparr>e_raw = r, e_fabric = f, e_users = 0\<rparr> w)"
  using assms inv_add_eq [OF sess_inv [OF assms(1)] assms(2,3), of "\<lparr>e_raw = r, e_fabric = f, e_users = 0\<rparr>"]
  by (simp add: sess_defs add_eq_def holds_new)

lemma sess_add_listener:
  assumes "sess_ok s w" and "a \<noteq> 0" "\<not> allocated w a" and "pp_listener s = 0"
    and "fabrics w f \<noteq> None" and "eqs w e \<noteq> None"
  shows "sess_ok (s\<lparr>pp_listener := a\<rparr>) (add_listener a \<lparr>l_raw = r, l_fabric = f, l_eq = e, l_ready = b\<rparr> w)"
  using assms inv_add_listener [OF sess_inv [OF assms(1)] assms(2,3),
      of "\<lparr>l_raw = r, l_fabric = f, l_eq = e, l_ready = b\<rparr>"]
  by (simp add: sess_defs add_listener_def holds_new)

lemma sess_add_domain:
  assumes "sess_ok s w" and "a \<noteq> 0" "\<not> allocated w a" and "pp_domain s = 0" and "fabrics w f \<noteq> None"
  shows "sess_ok (s\<lparr>pp_domain := a\<rparr>) (add_domain a \<lparr>d_raw = r, d_fabric = f, d_children = 0\<rparr> w)"
  using assms inv_add_domain [OF sess_inv [OF assms(1)] assms(2,3), of "\<lparr>d_raw = r, d_fabric = f, d_children = 0\<rparr>"]
  by (simp add: sess_defs add_domain_def holds_new)

lemma side_ok_null: "os op = None \<Longrightarrow> ms mr = None \<Longrightarrow> side_ok ms os cq mr op buf fin"
  by (simp add: side_ok_def)

lemma sess_add_cq:
  assumes "sess_ok s w" and "a \<noteq> 0" "\<not> allocated w a" and "fresh_from 8 s" and "domains w d \<noteq> None"
    and "c = \<lparr>c_raw = r, c_domain = d, c_pending = 0, c_capacity = n, c_count = 0, c_used = False,
      c_attached = False, c_retired = False\<rparr>"
  shows "pp_tx_cq s = 0 \<Longrightarrow> sess_ok (s\<lparr>pp_tx_cq := a\<rparr>) (add_cq a c w)"
    and "sess_ok (s\<lparr>pp_rx_cq := a\<rparr>) (add_cq a c w)"
proof -
  note null = inv_nullD [OF sess_inv [OF assms(1)]] and fresh = assms(4) [unfolded fresh_from_def, simplified]
  have i: "inv (add_cq a c w)" by (rule inv_add_cq [OF sess_inv [OF assms(1)] assms(2,3)]) (use assms(5,6) in simp_all)
  show "pp_tx_cq s = 0 \<Longrightarrow> sess_ok (s\<lparr>pp_tx_cq := a\<rparr>) (add_cq a c w)"
    using assms(1-3) i fresh null fresh_maps [OF assms(3)]
    by (simp add: sess_defs add_cq_def holds_new side_ok_null)
  show "sess_ok (s\<lparr>pp_rx_cq := a\<rparr>) (add_cq a c w)"
    using assms(1-3) i fresh null fresh_maps [OF assms(3)]
    by (simp add: sess_defs add_cq_def holds_new side_ok_null)
qed

lemma sess_add_endpoint:
  assumes "sess_ok s w" and "a \<noteq> 0" and "pp_ep s = 0" and "inv (add_endpoint a p w)"
    and "p_tx p = pp_tx_cq s" "p_rx p = pp_rx_cq s"
  shows "sess_ok (s\<lparr>pp_ep := a\<rparr>) (add_endpoint a p w)"
  using assms by (simp add: sess_defs add_endpoint_def holds_new)

text \<open>A fresh block of memory.\<close>

lemma sess_add_buffer:
  assumes "sess_ok s w" and "a \<noteq> 0" "\<not> allocated w a" and "fresh_from 11 s" and "length bs = CAPACITY"
  shows "pp_tx s = 0 \<Longrightarrow> sess_ok (s\<lparr>pp_tx := a\<rparr>) (w\<lparr>mem := (mem w)(a \<mapsto> bs)\<rparr>)"
    and "pp_rx s = 0 \<Longrightarrow> sess_ok (s\<lparr>pp_rx := a\<rparr>) (w\<lparr>mem := (mem w)(a \<mapsto> bs)\<rparr>)"
proof -
  note null = inv_nullD [OF sess_inv [OF assms(1)]] and fresh = assms(4) [unfolded fresh_from_def, simplified]
  note i = inv_box [OF sess_inv [OF assms(1)] assms(2,3), of bs]
  show "pp_tx s = 0 \<Longrightarrow> sess_ok (s\<lparr>pp_tx := a\<rparr>) (w\<lparr>mem := (mem w)(a \<mapsto> bs)\<rparr>)"
    using assms(1,2,5) i fresh null fresh_maps [OF assms(3)]
    by (simp add: sess_defs holds_new side_ok_null)
  show "pp_rx s = 0 \<Longrightarrow> sess_ok (s\<lparr>pp_rx := a\<rparr>) (w\<lparr>mem := (mem w)(a \<mapsto> bs)\<rparr>)"
    using assms(1,2,5) i fresh null fresh_maps [OF assms(3)]
    by (simp add: sess_defs holds_new side_ok_null)
qed

text \<open>The region of a side covers its whole buffer.\<close>

lemma sess_backed:
  assumes "sess_ok s w" and "b = pp_tx s \<or> b = pp_rx s" and "b \<noteq> 0"
  shows "\<exists>bs. mem w b = Some bs \<and> length bs = CAPACITY"
proof -
  have "alive (mem w) b" using assms(1,2) unfolding sess_ok_def sess_held_def by (blast intro: holds_alive)
  then show ?thesis using assms(1,3) by (auto simp: alive_def sess_defs)
qed

lemma sess_add_mr:
  assumes "sess_ok s w" and "a \<noteq> 0" "\<not> allocated w a" and "fresh_from 12 s" and "domains w d \<noteq> None"
    and "buf \<noteq> 0"
    and "m = \<lparr>m_raw = r, m_domain = d, m_buffer = buf, m_capacity = of_nat CAPACITY, m_pending = 0, m_access = access\<rparr>"
  shows "pp_tx_mr s = 0 \<Longrightarrow> buf = pp_tx s \<Longrightarrow> sess_ok (s\<lparr>pp_tx_mr := a\<rparr>) (add_mr a m w)"
    and "buf = pp_rx s \<Longrightarrow> sess_ok (s\<lparr>pp_rx_mr := a\<rparr>) (add_mr a m w)"
proof -
  note null = inv_nullD [OF sess_inv [OF assms(1)]] and fresh = assms(4) [unfolded fresh_from_def, simplified]
  have i: "inv (add_mr a m w)" if b: "buf = pp_tx s \<or> buf = pp_rx s"
  proof (rule inv_add_mr [OF sess_inv [OF assms(1)] assms(2,3)])
    show "mr_backed (mem w) m" using sess_backed [OF assms(1) b assms(6)]
      by (auto simp: assms(7) mr_backed_def CAPACITY_def)
  qed (use assms(5,7) in simp_all)
  show "pp_tx_mr s = 0 \<Longrightarrow> buf = pp_tx s \<Longrightarrow> sess_ok (s\<lparr>pp_tx_mr := a\<rparr>) (add_mr a m w)"
    using assms(1,2,7) i fresh null fresh_maps [OF assms(3)]
    by (simp add: sess_defs add_mr_def holds_new side_ok_def)
  have "pp_tx_mr s \<noteq> a" using sess_alive(10) [OF assms(1)] assms(2) fresh_maps [OF assms(3)] by (auto simp: alive_def)
  then show "buf = pp_rx s \<Longrightarrow> sess_ok (s\<lparr>pp_rx_mr := a\<rparr>) (add_mr a m w)"
    using assms(1,2,7) i fresh null fresh_maps [OF assms(3)]
    by (simp add: sess_defs add_mr_def holds_new side_ok_def)
qed

lemma sess_add_op:
  assumes "sess_ok s w" and "a \<noteq> 0" "\<not> allocated w a"
    and "x = \<lparr>o_id = n, o_direction = 0, o_len = 0, o_cq = 0, o_mr = 0, o_next = 0, o_buf = 0\<rparr>"
  shows "pp_tx_op s = 0 \<Longrightarrow> sess_ok (s\<lparr>pp_tx_op := a\<rparr>) (add_op a x w)"
    and "pp_rx_op s = 0 \<Longrightarrow> sess_ok (s\<lparr>pp_rx_op := a\<rparr>) (add_op a x w)"
proof -
  have i: "inv (add_op a x w)"
    by (rule inv_add_op [OF sess_inv [OF assms(1)] assms(2,3)]) (use assms(4) in simp_all)
  have n: "ops w a = None" using fresh_maps [OF assms(3)] by simp
  show "pp_tx_op s = 0 \<Longrightarrow> sess_ok (s\<lparr>pp_tx_op := a\<rparr>) (add_op a x w)"
    using assms(1,2,4) i n by (auto simp: sess_defs add_op_def holds_new side_ok_def)
  show "pp_rx_op s = 0 \<Longrightarrow> sess_ok (s\<lparr>pp_rx_op := a\<rparr>) (add_op a x w)"
    using assms(1,2,4) i n by (auto simp: sess_defs add_op_def holds_new side_ok_def)
qed

subsection \<open>Events and completions\<close>

text \<open>The completion flags may fall at any time, and rise while the operation is idle.\<close>

definition idle :: "addr \<Rightarrow> 'p world \<Rightarrow> bool" where
  "idle op w \<longleftrightarrow> (\<forall>x. ops w op = Some x \<longrightarrow> o_cq x = 0)"

lemma sess_flag:
  assumes "sess_ok s w"
  shows "sess_ok (s\<lparr>pp_tx_done := False\<rparr>) w" "sess_ok (s\<lparr>pp_rx_done := False\<rparr>) w"
    "idle (pp_tx_op s) w \<Longrightarrow> sess_ok (s\<lparr>pp_tx_done := True\<rparr>) w"
    "idle (pp_rx_op s) w \<Longrightarrow> sess_ok (s\<lparr>pp_rx_done := True\<rparr>) w"
    "sess_ok (s\<lparr>pp_rx_len := n\<rparr>) w" "sess_ok (s\<lparr>pp_accepted := b\<rparr>) w"
  using assms by (auto simp: sess_defs side_ok_def idle_def)

lemma sess_idle: "sess_ok s w \<Longrightarrow> pp_tx_done s \<Longrightarrow> idle (pp_tx_op s) w"
    "sess_ok s w \<Longrightarrow> pp_rx_done s \<Longrightarrow> idle (pp_rx_op s) w"
  by (auto simp: sess_defs side_ok_def idle_def)

lemma idle_borrows: "inv w \<Longrightarrow> idle op w \<Longrightarrow> \<not> borrowed op w"
  using op_mr_live [of w op] by (auto simp: idle_def borrowed_def split: option.splits)

text \<open>A poll of the event queue: nothing happened, or there is one more information record.\<close>

lemma same_heap_still: "same_heap w w' \<Longrightarrow> sess_ok s w \<Longrightarrow> sess_ok s w' \<and> ticks w' = ticks w \<and> (\<forall>x. idle x w' = idle x w)"
  by (auto simp: same_heap_def idle_def)

lemma eq_poll_sess:
  assumes "sess_ok s w" and "errno_ok E" "infos_ok E"
  shows "runs (shim_eq_poll E (pp_eq s) True w) (eq_polled w)"
proof (cases "pp_eq s = 0")
  case True
  then show ?thesis by (auto simp: shim_eq_poll_def eq_polled_def zero_event_def SHIM_EVENT_CONNREQ_def)
next
  case False
  then obtain z where "eqs w (pp_eq s) = Some z" using sess_alive(5) [OF assms(1)] by (auto simp: alive_def)
  from shim_eq_poll_spec [OF sess_inv [OF assms(1)] assms(2,3) this] show ?thesis .
qed

lemma turn_away_sess:
  assumes "sess_ok s w" and "errno_ok E" and "a \<noteq> 0" "\<not> allocated w a" and "info_wf raw"
  shows "runs (turn_away E a s (add_info a raw (take_info (w\<lparr>prov := p\<rparr>))))
    (\<lambda>w'. same_heap w w')"
proof -
  let ?w = "add_info a raw (take_info (w\<lparr>prov := p\<rparr>))"
  have none: "infos w a = None" using fresh_maps [OF assms(4)] by simp
  have i: "inv ?w" using inv_add_info [of "take_info (w\<lparr>prov := p\<rparr>)" a raw] sess_inv [OF assms(1)] assms(3,5)
    by (simp add: take_info_def)
  have free: "runs (shim_info_free a v) (same_heap w)" if "v = add_info a raw' (take_info (w\<lparr>prov := q\<rparr>))" "inv v" for v raw' q
    using shim_info_free_eq [of v a] that none
    by (auto simp: add_info_def take_info_def fi_freeinfo_def del_info_def same_heap_def fun_upd_idem)
  show ?thesis
  proof (cases "pp_listener s = 0")
    case True
    then show ?thesis using free [OF refl i] by (simp add: turn_away_def)
  next
    case False
    then obtain y where "listeners w (pp_listener s) = Some y"
      using sess_alive(8) [OF assms(1)] by (auto simp: alive_def)
    then have y: "listeners ?w (pp_listener s) = Some y" by (simp add: add_info_def take_info_def)
    have live: "infos ?w a = Some \<lparr>i_raw = Some raw\<rparr>" by (simp add: add_info_def)
    have fin: "runs (shim_info_free a w') (same_heap w)" if rej: "w' = ?w \<or> (\<exists>raw' q. info_wf raw' \<and>
      w' = add_info a raw' (?w\<lparr>prov := q\<rparr>))" for w'
    proof -
      have new: "inv (add_info a raw' (take_info (w\<lparr>prov := q\<rparr>)))" if "info_wf raw'" for raw' q
        using inv_add_info [of "take_info (w\<lparr>prov := q\<rparr>)" a raw'] sess_inv [OF assms(1)] assms(3) that
        by (simp add: take_info_def)
      from rej show ?thesis
      proof (elim disjE exE conjE)
        fix raw' q
        assume wf: "info_wf raw'" and "w' = add_info a raw' (?w\<lparr>prov := q\<rparr>)"
        then have v: "w' = add_info a raw' (take_info (w\<lparr>prov := q\<rparr>))"
          by (simp add: add_info_def take_info_def)
        show ?thesis by (rule free [OF v]) (simp only: v new [OF wf])
      next
        assume "w' = ?w"
        then show ?thesis using free [OF refl i] by simp
      qed
    qed
    have "runs (shim_reject E (pp_listener s) a ?w) (\<lambda>(_, w'). runs (shim_info_free a w') (same_heap w))"
    proof (rule runs_conseq [OF shim_reject_spec [OF i y live, of E]], clarify)
      fix r w'
      assume "r = - errno E FI_EINVAL \<and> w' = ?w \<or> (\<exists>raw' q. i_raw \<lparr>i_raw = Some raw\<rparr> = Some raw' \<and> info_wf raw' \<and>
        fi_handle raw' \<noteq> 0 \<and> w' = add_info a (raw'\<lparr>fi_handle := 0\<rparr>) (?w\<lparr>prov := q\<rparr>))"
      moreover have "info_wf (x\<lparr>fi_handle := 0\<rparr>)" if "info_wf x" for x using that by (simp add: info_wf_def)
      ultimately show "runs (shim_info_free a w') (same_heap w)" by (intro fin) blast
    qed
    then show ?thesis using False by (simp add: turn_away_def case_prod_unfold)
  qed
qed

text \<open>A poll of a completion queue finishes the operation of that side, or nothing.\<close>

lemma holds_upd: "m c = Some x \<Longrightarrow> holds1 a (m(c \<mapsto> y)) = holds1 a m" "m c = Some x \<Longrightarrow> holds2 a b (m(c \<mapsto> y)) = holds2 a b m"
  by (auto simp: holds1_def holds2_def)

lemma wrote_still: "wrote w w' \<Longrightarrow> still w w' \<and> ops w' = ops w"
  by (auto simp: wrote_def same_heap_def still_def intro!: same_under_upd)

lemma side_ok_finish:
  assumes "side_ok ms os cq mr op buf fin"
  shows "side_ok (bump (\<lambda>m. m\<lparr>m_pending := m_pending m - 1\<rparr>) k ms) ((relink prev o' os)(x \<mapsto> idle_op y)) cq mr op buf fin"
  using assms unfolding side_ok_def
  by (auto simp: bump_apply split: if_splits)

lemma sess_finish:
  assumes "sess_ok s w" and "inv (finish_op prev x op w)" and "ops w x = Some op"
  shows "sess_ok s (finish_op prev x op w)"
proof -
  have "holds2 a b ((relink prev op (ops w))(x \<mapsto> idle_op op)) = holds2 a b (ops w)" for a b
    using assms(3) holds_upd(2) [of "relink prev op (ops w)" x] relink_keeps [of "ops w" x op op prev] by auto
  then show ?thesis
    using assms(1,2) by (simp add: sess_defs finish_op_def side_ok_finish)
qed

definition finished_by :: "addr \<Rightarrow> addr \<Rightarrow> 'p world \<Rightarrow> (int \<times> shim_completion) \<times> 'p world \<Rightarrow> bool" where
  "finished_by op other w = (\<lambda>((r, out), w'). ticks w' = ticks w \<and> idle other w' = idle other w \<and>
     (idle op w \<longrightarrow> idle op w' \<and> (op_id out \<noteq> 0 \<longrightarrow> r \<noteq> 1)) \<and> (r = 1 \<and> op_id out \<noteq> 0 \<longrightarrow> idle op w'))"

lemma idle_finish:
  assumes "ops w x = Some op"
  shows "idle x (finish_op prev x op w)" "y \<noteq> x \<Longrightarrow> idle y (finish_op prev x op w) = idle y w"
  using assms by (auto simp: idle_def finish_op_def bump_apply split: if_splits)

lemma cq_poll_sess:
  assumes "sess_ok s w" and "errno_ok E"
    and "(q, op, other) = (pp_tx_cq s, pp_tx_op s, pp_rx_op s) \<or> (q, op, other) = (pp_rx_cq s, pp_rx_op s, pp_tx_op s)"
  shows "runs (shim_cq_poll E q True w) (\<lambda>z. sess_ok s (snd z) \<and> finished_by op other w z)"
proof (cases "q = 0")
  case True
  then show ?thesis using assms(1) by (simp add: shim_cq_poll_def finished_by_def zero_completion_def)
next
  case False
  then obtain c where c: "cqs w q = Some c"
    using sess_alive(6,7) [OF assms(1)] assms(3) by (auto simp: alive_def)
  have "sess_ok s w' \<and> finished_by op other w ((r, out), w')"
    if p: "cq_polled q c w ((r, out), w')" and i: "inv w'" for r out w'
  proof (cases "wrote w w' \<and> op_id out = 0")
    case True
    then have "still w w'" "ops w' = ops w" using wrote_still by blast+
    then show ?thesis using sess_still [OF assms(1) _ i] True by (auto simp: finished_by_def idle_def still_def)
  next
    case False
    with p obtain w1 prev x o1 where w1: "wrote w w1" and x: "ops w x = Some o1" "o_cq o1 = q"
      and w': "w' = finish_op prev x o1 w1"
      by (auto simp: cq_polled_def)
    have st: "still w w1" "ops w1 = ops w" using wrote_still [OF w1] by simp_all
    have "x = pp_tx_op s \<or> x = pp_rx_op s" using assms(1) x(1) holds_only(2) by (fastforce simp: sess_defs)
    moreover note sess_apart(1,2) [OF assms(1)]
    ultimately have "x = op" and "other \<noteq> x \<or> other = 0"
      using assms(1,3) x \<open>q \<noteq> 0\<close> by (auto simp: sess_defs side_ok_def)
    moreover have "x \<noteq> 0" using x(1) inv_nullD(9) [OF sess_inv [OF assms(1)]] by auto
    moreover have "sess_ok s w1" using sess_still [OF assms(1) st(1)] wrote_inv [OF w1 sess_inv [OF assms(1)]] by simp
    moreover have "ticks w' = ticks w" "\<not> idle x w" "\<And>y. idle y w1 = idle y w"
      using st x \<open>q \<noteq> 0\<close> by (auto simp: w' finish_op_def still_def idle_def)
    moreover have "idle 0 v" if "inv v" for v :: "'a world" using inv_nullD(9) [OF that] by (simp add: idle_def)
    ultimately show ?thesis
      using sess_finish [of s w1 prev x o1] i w' x(1) st(2) idle_finish(1) [of w1 x o1 prev]
        idle_finish(2) [of w1 x o1 other prev] sess_inv [OF assms(1)]
      by (auto simp: finished_by_def)
  qed
  with shim_cq_poll_spec [OF sess_inv [OF assms(1)] c, of E] show ?thesis
    by (auto elim!: runs_conseq)
qed

subsection \<open>Posting\<close>

text \<open>
  A post on a side whose flag is down: it starts the operation, or the operation is as it
  was; and after \<^verbatim>\<open>FI_EAGAIN\<close> it is idle.
\<close>

definition sides :: "bool \<Rightarrow> session \<Rightarrow> addr \<times> addr \<times> addr \<times> addr \<times> bool" where
  "sides receive s = (if receive then (pp_rx_op s, pp_rx_mr s, pp_rx s, pp_tx_op s, pp_rx_done s)
     else (pp_tx_op s, pp_tx_mr s, pp_tx s, pp_rx_op s, pp_tx_done s))"

lemma sess_start:
  assumes "sess_ok s w" and "sides receive s = (op, mr, buf, other, False)" and "endpoints w (pp_ep s) = Some p"
    and "ops w op = Some x" and "inv (start_op op (posted_op x receive n mr (if receive then p_rx p else p_tx p) next buf) w)"
  shows "sess_ok s (start_op op (posted_op x receive n mr (if receive then p_rx p else p_tx p) next buf) w)"
proof -
  have nz: "op \<noteq> 0" using assms(4) inv_nullD(9) [OF sess_inv [OF assms(1)]] by auto
  have links: "p_tx p = pp_tx_cq s" "p_rx p = pp_rx_cq s" using assms(1,3) by (simp_all add: sess_defs)
  note sess_apart(2) [OF assms(1)]
  moreover have "side_ok (bump (\<lambda>m. m\<lparr>m_pending := m_pending m + 1\<rparr>) mr ms) (os(c \<mapsto> y)) cq mr' o' b fin"
    if "side_ok ms os cq mr' o' b fin" "c = o' \<Longrightarrow> o_cq y = cq \<and> \<not> fin \<and> o_mr y = mr'"
    for ms os y cq mr' o' b fin c
    using that by (auto simp: side_ok_def bump_apply split: if_splits)
  ultimately show ?thesis
    using assms nz links holds_upd(2) [of "ops w" op x]
    by (cases receive) (simp_all add: sess_defs start_op_def posted_op_def sides_def)
qed

lemma post_sess:
  assumes "sess_ok s w" and "errno_ok E" and "sides receive s = (op, mr, buf, other, False)"
  shows "runs (post_message E (pp_ep s) op mr n buf receive w)
    (\<lambda>(r, w'). sess_ok s w' \<and> ticks w' = ticks w \<and> idle other w' = idle other w \<and>
       (shim_error_is_again E r \<noteq> 0 \<longrightarrow> idle op w'))"
proof (cases "pp_ep s = 0 \<or> op = 0 \<or> mr = 0 \<or> buf = 0")
  case True
  then show ?thesis using assms(1,2) by (auto simp: post_message_def shim_error_is_again_def)
next
  case False
  have "alive (endpoints w) (pp_ep s)" "alive (ops w) op" "alive (mrs w) mr"
    using sess_alive [OF assms(1)] assms(3) by (auto simp: sides_def split: if_splits)
  with False obtain p x m where l: "endpoints w (pp_ep s) = Some p" "ops w op = Some x" "mrs w mr = Some m"
    by (auto simp: alive_def)
  obtain c where c: "cqs w (if receive then p_rx p else p_tx p) = Some c"
    using endpoint_parents [OF sess_inv [OF assms(1)] l(1)] by (cases receive) auto
  let ?chk = "post_checks E p x m c n buf receive"
  obtain ret q where post: "post_message E (pp_ep s) op mr n buf receive w = Some
    (if ?chk \<noteq> 0 then (?chk, w) else if ret \<noteq> 0 then (c_int ret, w\<lparr>prov := q\<rparr>)
     else (0, start_op op (posted_op x receive n mr (if receive then p_rx p else p_tx p)
            (c_pending c) buf) (w\<lparr>prov := q\<rparr>)))"
    using post_message_eq [OF sess_inv [OF assms(1)] assms(2) l(1,3,2) c] by blast
  have idle: "o_cq x = 0" if "?chk = 0 \<or> ?chk = - errno E FI_EAGAIN"
    using that assms(2) by (auto simp: post_checks_def split: if_splits)
  have started: "sess_ok s (start_op op (posted_op x receive n mr (if receive then p_rx p else p_tx p)
        (c_pending c) buf) (w\<lparr>prov := q\<rparr>))" if "?chk = 0"
    using sess_start [of s "w\<lparr>prov := q\<rparr>" receive op mr buf other p x n "c_pending c"] assms(1,3) l(1,2)
      inv_posted [OF sess_inv [OF assms(1)] assms(2) l(1,3,2) c that, of q] by simp
  have "other \<noteq> op"
    using assms(3) False sess_apart(2) [OF assms(1)] by (auto simp: sides_def split: if_splits)
  then have other: "idle other (start_op op y v) = idle other v" for y v by (simp add: idle_def start_op_def)
  have ticks: "ticks (start_op op y v) = ticks v" for y v by (simp add: start_op_def)
  have op: "idle op w" if "?chk = 0 \<or> ?chk = - errno E FI_EAGAIN"
    using idle [OF that] l(2) by (simp add: idle_def)
  have prov: "idle a (w\<lparr>prov := q\<rparr>) = idle a w" for a by (simp add: idle_def)
  consider "?chk \<noteq> 0" | "?chk = 0" "ret \<noteq> 0" | "?chk = 0" "ret = 0" by blast
  then show ?thesis
  proof cases
    case 1
    then show ?thesis unfolding post using assms(1) op by (simp add: shim_error_is_again_def)
  next
    case 2
    then show ?thesis unfolding post using assms(1) op by (simp add: shim_error_is_again_def prov)
  next
    case 3
    then show ?thesis unfolding post using assms(2) started
      by (simp add: shim_error_is_again_def other ticks prov)
  qed
qed

end
