(* ===== verification/Pingpong_Open.thy ===== *)
theory Pingpong_Open
  imports Pingpong_Inv
begin

text \<open>
  The C example opens its resources: what it means that a function or a sequence of
  attempts of the example keeps the session's invariant, and that every open does.
\<close>

subsection \<open>Functions and attempts\<close>

definition lib_ok :: "'p lib \<Rightarrow> bool" where
  "lib_ok E \<longleftrightarrow> errno_ok E \<and> infos_ok E \<and> clock_advances E"

text \<open>
  How far the session is: the fields from number \<open>n\<close> on are null, and from 11 on both buffers
  are there. A function leads from \<open>n\<close> to \<open>m\<close> unless it fails.
\<close>

definition reached :: "nat \<Rightarrow> session \<Rightarrow> bool" where
  "reached n s \<longleftrightarrow> fresh_from n s \<and> (10 < n \<longrightarrow> pp_tx s \<noteq> 0 \<and> pp_rx s \<noteq> 0)"

lemma reached_fresh: "reached n s \<Longrightarrow> fresh_from n s"
  by (simp add: reached_def)

definition keeps :: "'p lib \<Rightarrow> nat \<Rightarrow> 'p act \<Rightarrow> nat \<Rightarrow> bool" where
  "keeps E n f m \<longleftrightarrow> (\<forall>s w. lib_ok E \<longrightarrow> sess_ok s w \<longrightarrow> reached n s \<longrightarrow>
     runs (f (s, w)) (\<lambda>(ret, (s', w')). sess_ok s' w' \<and> (\<not> ret < 0 \<longrightarrow> reached m s')))"

definition legs :: "'p lib \<Rightarrow> nat \<Rightarrow> 'p leg \<Rightarrow> nat \<Rightarrow> bool" where
  "legs E n f m \<longleftrightarrow> (\<forall>s w. lib_ok E \<longrightarrow> sess_ok s w \<longrightarrow> reached n s \<longrightarrow>
     runs (f (s, w)) (\<lambda>(ok, (s', w')). sess_ok s' w' \<and> (ok \<longrightarrow> reached m s')))"

lemma sess_check [simp]: "sess_ok s (pp_check E r t w) = sess_ok s w" "sess_ok s (eprintln t w) = sess_ok s w"
    "sess_ok s (println t w) = sess_ok s w"
  by (simp_all add: pp_check_def eprintln_def println_def)

lemma ticks_check [simp]: "ticks (pp_check E r t w) = ticks w" "ticks (eprintln t w) = ticks w"
  by (simp_all add: pp_check_def eprintln_def)

lemma idle_check [simp]: "idle a (pp_check E r t w) = idle a w" "idle a (eprintln t w) = idle a w"
  by (simp_all add: pp_check_def eprintln_def idle_def)

lemma legs_TRY: "keeps E n f m \<Longrightarrow> legs E n (TRY E name f) m"
  unfolding legs_def keeps_def TRY_def by (fastforce elim!: runs_conseq)

lemma legs_Nil: "legs E n (in_order []) n"
  by (simp add: legs_def)

lemma legs_Cons:
  assumes "legs E n f m" and "legs E m (in_order fs) k"
  shows "legs E n (in_order (f # fs)) k"
  using assms unfolding legs_def
  by (fastforce elim!: runs_conseq)

text \<open>A statement between two attempts.\<close>

lemma legs_then:
  assumes "\<And>s w. sess_ok s w \<Longrightarrow> reached n s \<Longrightarrow> sess_ok (g s) (h s w) \<and> reached m (g s)"
  shows "legs E n (\<lambda>(s, w). Some (True, g s, h s w)) m"
  using assms by (simp add: legs_def)

subsection \<open>Opening\<close>

lemma keeps_into:
  assumes "\<And>s w. lib_ok E \<Longrightarrow> sess_ok s w \<Longrightarrow> reached n s \<Longrightarrow>
    runs (f s w) (\<lambda>((r, a), w'). sess_ok (store a s) w' \<and> reached m (store a s))"
  shows "keeps E n (into store f) m"
  using assms unfolding keeps_def into_def by (fastforce elim!: runs_conseq)

lemma lib_okD: "lib_ok E \<Longrightarrow> errno_ok E" "lib_ok E \<Longrightarrow> infos_ok E" "lib_ok E \<Longrightarrow> clock_advances E"
  by (simp_all add: lib_ok_def)

definition fills :: "(addr \<Rightarrow> session \<Rightarrow> session) \<Rightarrow> session \<Rightarrow> 'p world \<Rightarrow> (int \<times> addr) \<times> 'p world \<Rightarrow> bool" where
  "fills store s w = (\<lambda>((r, a), w'). (a = 0 \<and> still w w' \<and> inv w') \<or> (a \<noteq> 0 \<and> sess_ok (store a s) w'))"

lemma keeps_open:
  fixes E :: "'p lib"
  assumes step: "\<And>s (w :: 'p world). lib_ok E \<Longrightarrow> sess_ok s w \<Longrightarrow> fresh_from n s \<Longrightarrow> runs (f s w) (fills store s w)"
    and null: "\<And>s (w :: 'p world). sess_ok s w \<Longrightarrow> fresh_from n s \<Longrightarrow> sess_ok (store 0 s) w"
    and nxt: "\<And>s a. reached n s \<Longrightarrow> reached m (store a s)"
  shows "keeps E n (into store f) m"
proof (rule keeps_into)
  fix s :: session and w :: "'p world"
  assume h: "lib_ok E" "sess_ok s w" "reached n s"
  note fresh = reached_fresh [OF h(3)]
  show "runs (f s w) (\<lambda>((r, a), w'). sess_ok (store a s) w' \<and> reached m (store a s))"
    by (rule runs_conseq [OF step [OF h(1,2) fresh]])
      (use sess_still [OF null [OF h(2) fresh]] nxt [OF h(3)] in \<open>auto simp: fills_def\<close>)
qed

text \<open>An open of the shim that adds one object or none; a null handle is refused.\<close>

lemma opened_fills:
  assumes "lib_ok E" and "sess_ok s w" and "\<And>a raw p. a \<noteq> 0 \<Longrightarrow> \<not> allocated w a \<Longrightarrow> sess_ok (store a s) (add a raw (w\<lparr>prov := p\<rparr>))"
  shows "runs (Some (open_step E g add w)) (fills store s w)"
proof -
  obtain r a w' where o: "open_step E g add w = ((r, a), w')" by (metis prod.exhaust)
  then have "opened add w ((r, a), w')" using open_step_opened [OF lib_okD(1) [OF assms(1)], of add w g] by simp
  then show ?thesis unfolding o
    by (cases rule: opened_cases) (use assms(2,3) sess_inv in \<open>auto simp: fills_def\<close>)
qed

lemma null_fills: "sess_ok s w \<Longrightarrow> fills store s w ((r, 0), w)"
  by (simp add: fills_def sess_inv)

lemma sess_live:
  assumes "alive m a" and "a \<noteq> 0"
  obtains x where "m a = Some x"
  using assms by (auto simp: alive_def)

lemma keeps_info:
  fixes E :: "'p lib"
  shows "keeps E 1 (into (\<lambda>a. pp_info_update (\<lambda>_. a)) (\<lambda>_. shim_info_open E node service d i True)) 2"
proof (rule keeps_into)
  fix s :: session and w :: "'p world"
  assume E: "lib_ok E" and s: "sess_ok s w" "reached 1 s"
  have null: "sess_ok (s\<lparr>pp_info := 0\<rparr>) w" using s by (simp add: sess_defs reached_def fresh_from_def)
  have fresh: "reached 2 (s\<lparr>pp_info := a\<rparr>)" for a using s(2) by (simp add: reached_def fresh_from_def)
  show "runs (shim_info_open E node service d i True w)
    (\<lambda>((r, a), w'). sess_ok (s\<lparr>pp_info := a\<rparr>) w' \<and> reached 2 (s\<lparr>pp_info := a\<rparr>))"
  proof (rule runs_conseq [OF shim_info_open_spec [OF lib_okD(1,2) [OF E]]], clarify, intro conjI fresh)
    fix r a w' assume "query_result w ((r, a), w')"
    then show "sess_ok (s\<lparr>pp_info := a\<rparr>) w'"
      using null sess_add_info [of s "w\<lparr>prov := q\<rparr>" a for q] s by (auto simp: query_result_def reached_def fresh_from_def)
  qed
qed

lemma keeps_fabric:
  fixes E :: "'p lib"
  shows "keeps E 2 (into (\<lambda>a. pp_fabric_update (\<lambda>_. a)) (\<lambda>s. shim_fabric_open E (pp_info s) True)) 3"
proof (rule keeps_open)
  fix s :: session and w :: "'p world"
  assume E: "lib_ok E" and s: "sess_ok s w" "fresh_from 2 s"
  show "runs (shim_fabric_open E (pp_info s) True w) (fills (\<lambda>a. pp_fabric_update (\<lambda>_. a)) s w)"
  proof (cases "pp_info s = 0")
    case True
    then show ?thesis by (simp add: null_fills s(1) shim_fabric_open_def)
  next
    case False
    then obtain x where x: "infos w (pp_info s) = Some x" by (rule sess_live [OF sess_alive(1) [OF s(1)]])
    then obtain raw where r: "i_raw x = Some raw" using sess_inv [OF s(1)] by (auto simp: inv_def infos_wf_def)
    show ?thesis unfolding shim_fabric_open_eq [OF sess_inv [OF s(1)] x r]
      by (rule opened_fills [OF E s(1)]) (use s in \<open>simp add: sess_add_fabric fresh_from_def\<close>)
  qed
qed (auto simp: sess_defs reached_def fresh_from_def side_ok_def)

lemma keeps_eq:
  fixes E :: "'p lib"
  shows "keeps E 3 (into (\<lambda>a. pp_eq_update (\<lambda>_. a)) (\<lambda>s. shim_eq_open E (pp_fabric s) True)) 4"
proof (rule keeps_open)
  fix s :: session and w :: "'p world"
  assume E: "lib_ok E" and s: "sess_ok s w" "fresh_from 3 s"
  show "runs (shim_eq_open E (pp_fabric s) True w) (fills (\<lambda>a. pp_eq_update (\<lambda>_. a)) s w)"
  proof (cases "pp_fabric s = 0")
    case True
    then show ?thesis by (simp add: null_fills s(1) shim_eq_open_def)
  next
    case False
    then obtain x where x: "fabrics w (pp_fabric s) = Some x" by (rule sess_live [OF sess_alive(3) [OF s(1)]])
    show ?thesis unfolding shim_eq_open_eq [OF sess_inv [OF s(1)] x]
      by (rule opened_fills [OF E s(1)]) (use s x in \<open>simp add: sess_add_eq fresh_from_def\<close>)
  qed
qed (auto simp: sess_defs reached_def fresh_from_def side_ok_def)

text \<open>The listener and the endpoint, whose opens may leave a handle behind when they fail.\<close>

lemma keeps_listener:
  fixes E :: "'p lib"
  shows "keeps E 4 (into (\<lambda>a. pp_listener_update (\<lambda>_. a)) (\<lambda>s. shim_listener_open E (pp_fabric s) (pp_info s) (pp_eq s) True)) 5"
proof (rule keeps_open)
  fix s :: session and w :: "'p world"
  assume E: "lib_ok E" and s: "sess_ok s w" "fresh_from 4 s"
  show "runs (shim_listener_open E (pp_fabric s) (pp_info s) (pp_eq s) True w) (fills (\<lambda>a. pp_listener_update (\<lambda>_. a)) s w)"
  proof (cases "pp_fabric s = 0 \<or> pp_info s = 0 \<or> pp_eq s = 0")
    case True
    then show ?thesis by (simp add: null_fills s(1) shim_listener_open_def)
  next
    case False
    then obtain f i e where x: "fabrics w (pp_fabric s) = Some f" "infos w (pp_info s) = Some i" "eqs w (pp_eq s) = Some e"
      using sess_alive(1,3,5) [OF s(1)] by (auto simp: alive_def)
    then have live: "infos w (pp_info s) \<noteq> None" by simp
    show ?thesis
    proof (rule runs_conseq [OF shim_listener_open_spec [OF sess_inv [OF s(1)] lib_okD(1) [OF E] x(1) live x(3)]], clarify)
      fix r a w'
      assume o: "listener_opened (pp_fabric s) (pp_eq s) w ((r, a), w')"
      have "sess_ok (s\<lparr>pp_listener := a\<rparr>) (add_listener a \<lparr>l_raw = raw, l_fabric = pp_fabric s, l_eq = pp_eq s,
          l_ready = b\<rparr> (w\<lparr>prov := p\<rparr>))" if "a \<noteq> 0" "\<not> allocated w a" for raw b p
        by (rule sess_add_listener) (use s x that in \<open>simp_all add: fresh_from_def\<close>)
      with o show "fills (\<lambda>a. pp_listener_update (\<lambda>_. a)) s w ((r, a), w')"
        using sess_inv [OF s(1)] by (auto simp: fills_def listener_opened_def same_heap_def)
    qed
  qed
qed (auto simp: sess_defs reached_def fresh_from_def side_ok_def)

text \<open>The resources of the endpoint; \<open>active_info\<close> is either query result.\<close>

lemma sess_active: "sess_ok s w \<Longrightarrow> alive (infos w) (active_info server s)"
  using sess_alive(1,2) by (auto simp: active_info_def)

lemma keeps_domain:
  fixes E :: "'p lib"
  shows "keeps E 6 (into (\<lambda>a. pp_domain_update (\<lambda>_. a)) (\<lambda>s. shim_domain_open E (pp_fabric s) (active_info server s) True)) 7"
proof (rule keeps_open)
  fix s :: session and w :: "'p world"
  assume E: "lib_ok E" and s: "sess_ok s w" "fresh_from 6 s"
  show "runs (shim_domain_open E (pp_fabric s) (active_info server s) True w) (fills (\<lambda>a. pp_domain_update (\<lambda>_. a)) s w)"
  proof (cases "pp_fabric s = 0 \<or> active_info server s = 0")
    case True
    then show ?thesis by (simp add: null_fills s(1) shim_domain_open_def)
  next
    case False
    then obtain f i where x: "fabrics w (pp_fabric s) = Some f" "infos w (active_info server s) = Some i"
      using sess_alive(3) [OF s(1)] sess_active [OF s(1), of server] by (auto simp: alive_def)
    show ?thesis unfolding shim_domain_open_eq [OF sess_inv [OF s(1)] x]
      by (rule opened_fills [OF E s(1)]) (use s x in \<open>simp add: sess_add_domain fresh_from_def\<close>)
  qed
qed (auto simp: sess_defs reached_def fresh_from_def side_ok_def)

lemma keeps_tx_cq:
  fixes E :: "'p lib"
  shows "keeps E 7 (into (\<lambda>a. pp_tx_cq_update (\<lambda>_. a)) (\<lambda>s. shim_cq_open E (pp_domain s) 16 True)) 8"
proof (rule keeps_open)
  fix s :: session and w :: "'p world"
  assume E: "lib_ok E" and s: "sess_ok s w" "fresh_from 7 s"
  show "runs (shim_cq_open E (pp_domain s) 16 True w) (fills (\<lambda>a. pp_tx_cq_update (\<lambda>_. a)) s w)"
  proof (cases "pp_domain s = 0")
    case True
    then show ?thesis by (simp add: null_fills s(1) shim_cq_open_def)
  next
    case False
    then obtain d where x: "domains w (pp_domain s) = Some d" by (rule sess_live [OF sess_alive(4) [OF s(1)]])
    have fresh: "fresh_from 8 s" by (rule fresh_from_mono [OF s(2)]) simp
    have n: "(16 :: size_t) \<noteq> 0" by simp
    show ?thesis unfolding shim_cq_open_eq [OF sess_inv [OF s(1)] x n]
      by (rule opened_fills [OF E s(1)], rule sess_add_cq(1) [OF _ _ _ fresh _ refl])
        (use s x in \<open>simp_all add: fresh_from_def\<close>)
  qed
qed (auto simp: sess_defs reached_def fresh_from_def side_ok_def)

lemma keeps_rx_cq:
  fixes E :: "'p lib"
  shows "keeps E 8 (into (\<lambda>a. pp_rx_cq_update (\<lambda>_. a)) (\<lambda>s. shim_cq_open E (pp_domain s) 16 True)) 9"
proof (rule keeps_open)
  fix s :: session and w :: "'p world"
  assume E: "lib_ok E" and s: "sess_ok s w" "fresh_from 8 s"
  show "runs (shim_cq_open E (pp_domain s) 16 True w) (fills (\<lambda>a. pp_rx_cq_update (\<lambda>_. a)) s w)"
  proof (cases "pp_domain s = 0")
    case True
    then show ?thesis by (simp add: null_fills s(1) shim_cq_open_def)
  next
    case False
    then obtain d where x: "domains w (pp_domain s) = Some d" by (rule sess_live [OF sess_alive(4) [OF s(1)]])
    have fresh: "fresh_from 8 s" by (rule fresh_from_mono [OF s(2)]) simp
    have n: "(16 :: size_t) \<noteq> 0" by simp
    show ?thesis unfolding shim_cq_open_eq [OF sess_inv [OF s(1)] x n]
      by (rule opened_fills [OF E s(1)], rule sess_add_cq(2) [OF _ _ _ fresh _ refl])
        (use s x in \<open>simp_all add: fresh_from_def\<close>)
  qed
qed (auto simp: sess_defs reached_def fresh_from_def side_ok_def)

lemma spoiled_still: "still w (spoil_cqs t u w)" "still w ((spoil_cqs t u w)\<lparr>prov := p\<rparr>)"
  by (simp_all add: still_def spoil_cqs_def)

lemma keeps_endpoint:
  fixes E :: "'p lib"
  shows "keeps E 9 (into (\<lambda>a. pp_ep_update (\<lambda>_. a)) (\<lambda>s. shim_endpoint_open E (pp_domain s) (active_info server s) (pp_eq s) (pp_tx_cq s) (pp_rx_cq s) True)) 10"
proof (rule keeps_open)
  fix s :: session and w :: "'p world"
  assume E: "lib_ok E" and s: "sess_ok s w" "fresh_from 9 s"
  show "runs (shim_endpoint_open E (pp_domain s) (active_info server s) (pp_eq s) (pp_tx_cq s) (pp_rx_cq s) True w) (fills (\<lambda>a. pp_ep_update (\<lambda>_. a)) s w)"
  proof (cases "pp_domain s = 0 \<or> active_info server s = 0 \<or> pp_eq s = 0 \<or> pp_tx_cq s = 0 \<or> pp_rx_cq s = 0")
    case True
    then have "endpoint_args_bad (pp_domain s) (active_info server s) (pp_eq s) (pp_tx_cq s) (pp_rx_cq s) w = Some True"
      by (auto simp: endpoint_args_bad_def)
    then show ?thesis by (simp add: null_fills s(1) shim_endpoint_open_def)
  next
    case False
    then obtain d i e t u where x: "domains w (pp_domain s) = Some d" "infos w (active_info server s) = Some i"
      "eqs w (pp_eq s) = Some e" "cqs w (pp_tx_cq s) = Some t" "cqs w (pp_rx_cq s) = Some u"
      using sess_alive(4-7) [OF s(1)] sess_active [OF s(1), of server] unfolding alive_def by blast
    then have live: "infos w (active_info server s) \<noteq> None" by simp
    show ?thesis
    proof (rule runs_conseq [OF shim_endpoint_open_spec [OF sess_inv [OF s(1)] lib_okD(1) [OF E] x(1) live x(3-5)]], clarify)
      fix r a w'
      assume "endpoint_opened (pp_domain s) (pp_eq s) (pp_tx_cq s) (pp_rx_cq s) w ((r, a), w')" and "inv (snd ((r, a), w'))"
      then show "fills (\<lambda>a. pp_ep_update (\<lambda>_. a)) s w ((r, a), w')"
        using s by (auto simp: fills_def endpoint_opened_def sess_add_endpoint fresh_from_def spoiled_still)
    qed
  qed
qed (auto simp: sess_defs reached_def fresh_from_def side_ok_def)

subsection \<open>Buffers, regions and operations\<close>

lemma keeps_tx_mr:
  fixes E :: "'p lib"
  shows "keeps E 11 (into (\<lambda>a. pp_tx_mr_update (\<lambda>_. a)) (\<lambda>s. shim_mr_register E (pp_domain s) (pp_tx s) (of_nat CAPACITY) SHIM_ACCESS_SEND True)) 12"
proof (rule keeps_open)
  fix s :: session and w :: "'p world"
  assume E: "lib_ok E" and s: "sess_ok s w" "fresh_from 11 s"
  show "runs (shim_mr_register E (pp_domain s) (pp_tx s) (of_nat CAPACITY) SHIM_ACCESS_SEND True w) (fills (\<lambda>a. pp_tx_mr_update (\<lambda>_. a)) s w)"
  proof (cases "pp_domain s = 0 \<or> pp_tx s = 0")
    case True
    then show ?thesis by (auto simp: null_fills s(1) shim_mr_register_def)
  next
    case False
    then obtain d where x: "domains w (pp_domain s) = Some d" using sess_alive(4) [OF s(1)] by (auto simp: alive_def)
    have fresh: "fresh_from 12 s" by (rule fresh_from_mono [OF s(2)]) simp
    have n: "(of_nat CAPACITY :: size_t) \<noteq> 0" by (simp add: CAPACITY_def)
    from False have buf: "pp_tx s \<noteq> 0" by simp
    show ?thesis unfolding shim_mr_register_eq [OF sess_inv [OF s(1)] x buf n disjI1 [OF refl]]
      by (rule opened_fills [OF E s(1)], rule sess_add_mr(1) [OF _ _ _ fresh _ buf refl])
        (use s x in \<open>simp_all add: fresh_from_def\<close>)
  qed
qed (auto simp: sess_defs reached_def fresh_from_def side_ok_def)

lemma keeps_rx_mr:
  fixes E :: "'p lib"
  shows "keeps E 12 (into (\<lambda>a. pp_rx_mr_update (\<lambda>_. a)) (\<lambda>s. shim_mr_register E (pp_domain s) (pp_rx s) (of_nat CAPACITY) SHIM_ACCESS_RECV True)) 13"
proof (rule keeps_open)
  fix s :: session and w :: "'p world"
  assume E: "lib_ok E" and s: "sess_ok s w" "fresh_from 12 s"
  show "runs (shim_mr_register E (pp_domain s) (pp_rx s) (of_nat CAPACITY) SHIM_ACCESS_RECV True w) (fills (\<lambda>a. pp_rx_mr_update (\<lambda>_. a)) s w)"
  proof (cases "pp_domain s = 0 \<or> pp_rx s = 0")
    case True
    then show ?thesis by (auto simp: null_fills s(1) shim_mr_register_def)
  next
    case False
    then obtain d where x: "domains w (pp_domain s) = Some d" using sess_alive(4) [OF s(1)] by (auto simp: alive_def)
    have fresh: "fresh_from 12 s" by (rule fresh_from_mono [OF s(2)]) simp
    have n: "(of_nat CAPACITY :: size_t) \<noteq> 0" by (simp add: CAPACITY_def)
    from False have buf: "pp_rx s \<noteq> 0" by simp
    show ?thesis unfolding shim_mr_register_eq [OF sess_inv [OF s(1)] x buf n disjI2 [OF disjI1 [OF refl]]]
      by (rule opened_fills [OF E s(1)], rule sess_add_mr(2) [OF _ _ _ fresh _ buf refl])
        (use s x in \<open>simp_all add: fresh_from_def\<close>)
  qed
qed (auto simp: sess_defs reached_def fresh_from_def side_ok_def)

lemma keeps_tx_op:
  fixes E :: "'p lib"
  shows "keeps E 13 (into (\<lambda>a. pp_tx_op_update (\<lambda>_. a)) (\<lambda>_. shim_op_create E 1 True)) 14"
proof (rule keeps_open)
  fix s :: session and w :: "'p world"
  assume E: "lib_ok E" and s: "sess_ok s w" "fresh_from 13 s"
  show "runs (shim_op_create E 1 True w) (fills (\<lambda>a. pp_tx_op_update (\<lambda>_. a)) s w)"
  proof (cases rule: shim_op_create_cases [of E 1 w])
    case (failed p)
    then show ?thesis using sess_inv [OF s(1)] by (simp add: fills_def)
  next
    case (made a p)
    have "sess_ok (s\<lparr>pp_tx_op := a\<rparr>) (add_op a \<lparr>o_id = 1, o_direction = 0, o_len = 0, o_cq = 0, o_mr = 0,
        o_next = 0, o_buf = 0\<rparr> (w\<lparr>prov := p\<rparr>))"
      by (rule sess_add_op(1) [OF _ made(1) _ refl]) (use s made(2) in \<open>simp_all add: fresh_from_def\<close>)
    then show ?thesis using made by (simp add: fills_def)
  qed
qed (auto simp: sess_defs reached_def fresh_from_def side_ok_def)

lemma keeps_rx_op:
  fixes E :: "'p lib"
  shows "keeps E 14 (into (\<lambda>a. pp_rx_op_update (\<lambda>_. a)) (\<lambda>_. shim_op_create E 2 True)) 15"
proof (rule keeps_open)
  fix s :: session and w :: "'p world"
  assume E: "lib_ok E" and s: "sess_ok s w" "fresh_from 14 s"
  show "runs (shim_op_create E 2 True w) (fills (\<lambda>a. pp_rx_op_update (\<lambda>_. a)) s w)"
  proof (cases rule: shim_op_create_cases [of E 2 w])
    case (failed p)
    then show ?thesis using sess_inv [OF s(1)] by (simp add: fills_def)
  next
    case (made a p)
    have "sess_ok (s\<lparr>pp_rx_op := a\<rparr>) (add_op a \<lparr>o_id = 2, o_direction = 0, o_len = 0, o_cq = 0, o_mr = 0,
        o_next = 0, o_buf = 0\<rparr> (w\<lparr>prov := p\<rparr>))"
      by (rule sess_add_op(2) [OF _ made(1) _ refl]) (use s made(2) in \<open>simp_all add: fresh_from_def\<close>)
    then show ?thesis using made by (simp add: fills_def)
  qed
qed (auto simp: sess_defs reached_def fresh_from_def side_ok_def)

lemma calloc_sess:
  assumes "sess_ok s w" and "fresh_from 11 s" and "calloc_buffer E w = (a, w')"
  shows "pp_tx s = 0 \<Longrightarrow> sess_ok (s\<lparr>pp_tx := a\<rparr>) w'" and "pp_rx s = 0 \<Longrightarrow> sess_ok (s\<lparr>pp_rx := a\<rparr>) w'"
proof -
  obtain b v where c: "calloc E w = (b, v)" by (metis prod.exhaust)
  then obtain p where p: "v = w\<lparr>prov := p\<rparr>" "b \<noteq> 0 \<longrightarrow> \<not> allocated w b" using calloc_eq by blast
  have w': "a = b" "w' = (if b = 0 then v else v\<lparr>mem := (mem v)(b \<mapsto> replicate CAPACITY (CHR 0x00))\<rparr>)"
    using assms(3) c by (auto simp: calloc_buffer_def split: if_splits)
  note add = sess_add_buffer [of s v b "replicate CAPACITY (CHR 0x00)"]
  show "pp_tx s = 0 \<Longrightarrow> sess_ok (s\<lparr>pp_tx := a\<rparr>) w'"
    using add(1) assms(1,2) p w' by (cases "b = 0") (simp_all add: sess_defs)
  show "pp_rx s = 0 \<Longrightarrow> sess_ok (s\<lparr>pp_rx := a\<rparr>) w'"
    using add(2) assms(1,2) p w' by (cases "b = 0") (simp_all add: sess_defs)
qed

lemma legs_buffers:
  fixes E :: "'p lib"
  shows "legs E 10 (calloc_buffers E) 11"
  unfolding legs_def
proof (intro allI impI)
  fix s :: session and w :: "'p world"
  assume s: "lib_ok E" "sess_ok s w" "reached 10 s"
  obtain a v where c1: "calloc_buffer E w = (a, v)" by (metis prod.exhaust)
  obtain b u where c2: "calloc_buffer E v = (b, u)" by (metis prod.exhaust)
  have fresh: "fresh_from 11 (s\<lparr>pp_tx := a, pp_rx := b\<rparr>)" "fresh_from 11 (s\<lparr>pp_tx := a\<rparr>)" "fresh_from 11 s"
    using s(3) by (simp_all add: reached_def fresh_from_def)
  have "sess_ok (s\<lparr>pp_tx := a\<rparr>) v"
    by (rule calloc_sess(1) [OF s(2) fresh(3) c1]) (use s(3) in \<open>simp add: reached_def fresh_from_def\<close>)
  then have "sess_ok (s\<lparr>pp_tx := a, pp_rx := b\<rparr>) u"
    by (rule calloc_sess(2) [OF _ fresh(2) c2]) (use s(3) in \<open>simp add: reached_def fresh_from_def\<close>)
  then show "runs (calloc_buffers E (s, w)) (\<lambda>(ok, (s', w')). sess_ok s' w' \<and> (ok \<longrightarrow> reached 11 s'))"
    using c1 c2 fresh by (simp add: calloc_buffers_def reached_def)
qed

end
