(* ===== verification/Pingpong_Wait.thy ===== *)
theory Pingpong_Wait
  imports Pingpong_Open
begin

text \<open>
  The waiting functions of the C example: every wait returns, and keeps the session's
  invariant in every round.
\<close>

subsection \<open>Waiting\<close>

text \<open>Where a round leads: out of the loop to \<open>J\<close>, or on with \<open>I\<close>; it takes no reading.\<close>

definition leads :: "(session \<Rightarrow> 'p world \<Rightarrow> bool) \<Rightarrow> (int \<times> session \<times> 'p world \<Rightarrow> bool) \<Rightarrow> nat
    \<Rightarrow> (int \<times> session \<times> 'p world) + (session \<times> 'p world) \<Rightarrow> bool" where
  "leads I J n z = (case z of Inl out \<Rightarrow> J out \<and> ticks (snd (snd out)) = n
     | Inr s \<Rightarrow> I (fst s) (snd s) \<and> ticks (snd s) = n)"

lemma leads_simps [simp]: "leads I J n (Inl out) = (J out \<and> ticks (snd (snd out)) = n)"
    "leads I J n (Inr s) = (I (fst s) (snd s) \<and> ticks (snd s) = n)"
  by (simp_all add: leads_def)

lemma five_seconds_runs:
  fixes E :: "'p lib" and I :: "session \<Rightarrow> 'p world \<Rightarrow> bool"
  assumes clock: "clock_advances E"
    and tick: "\<And>s w n. I s w \<Longrightarrow> I s (w\<lparr>ticks := n\<rparr>)"
    and step: "\<And>s w. I s w \<Longrightarrow> runs (round (s, w)) (leads I J (ticks w))"
    and late: "\<And>s w. I s w \<Longrightarrow> J (-1, s, eprintln text w)"
    and start: "I s w"
  shows "runs (five_seconds E text round (s, w)) J"
proof -
  have now: "I s (snd (now E w))" if "I s w" for s w using tick that by (simp add: now_def)
  have loop: "timed_loop E d (poll_until E d text round) (\<lambda>s. round (fst s, snd (now E (snd s))))
    (\<lambda>s. (-1, fst s, eprintln text (snd (now E (snd s))))) (\<lambda>s. ticks (snd s)) (\<lambda>out. ticks (snd (snd out)))
    (\<lambda>s. I (fst s) (snd s)) J" for d
  proof (rule timed_loop.intro, goal_cases)
    case (1 s)
    show ?case by (subst poll_until.simps) (simp add: now_def case_sum_def)
  next
    case (2 s)
    from step [OF now [OF this]] show ?case
      by (auto simp: runs_Ex now_def split: sum.splits)
  next
    case (3 s)
    then show ?case using late now by (simp add: now_def)
  qed
  from timed_loop.ends [OF loop clock, of "(s, snd (now E w))" "fst (now E w) + from_secs 5"] now [OF start]
  show ?thesis by (auto simp: five_seconds_def runs_Ex case_prod_unfold Let_def)
qed

subsection \<open>Progress\<close>

text \<open>The session is as it was; only messages and reports have passed.\<close>

definition calm :: "session \<Rightarrow> 'p world \<Rightarrow> 'p world \<Rightarrow> bool" where
  "calm s w w' \<longleftrightarrow> sess_ok s w' \<and> ticks w' = ticks w \<and> ops w' = ops w"

lemma calm_report [simp]: "calm s w (pp_check E r t v) = calm s w v" "calm s w (eprintln t v) = calm s w v"
  by (simp_all add: calm_def pp_check_def eprintln_def)

lemma calm_same_heap: "sess_ok s w \<Longrightarrow> same_heap w v \<Longrightarrow> calm s w v"
  by (auto simp: calm_def same_heap_def)

lemma calm_idle: "calm s w w' \<Longrightarrow> idle x w' = idle x w"
  by (simp add: calm_def idle_def)

lemma progress_cq_runs:
  fixes E :: "'p lib" and w :: "'p world"
  assumes s: "sess_ok s w" and E: "errno_ok E"
    and side: "(q, op, other) = (pp_tx_cq s, pp_tx_op s, pp_rx_op s) \<or> (q, op, other) = (pp_rx_cq s, pp_rx_op s, pp_tx_op s)"
    and i: "i \<noteq> 0" and found: "\<And>fin (v :: 'p world). sess_ok s v \<Longrightarrow> idle op v \<Longrightarrow> sess_ok (found fin s) v"
  shows "runs (progress_cq E name q i d found (s, w)) (\<lambda>(ret, (s', w')). sess_ok s' w' \<and> ticks w' = ticks w \<and>
    idle other w' = idle other w \<and> (idle op w \<longrightarrow> idle op w' \<and> s' = s) \<and> (s' = s \<or> (\<exists>fin. s' = found fin s)))"
proof -
  let ?Q = "\<lambda>(ret, (s', w')). sess_ok s' w' \<and> ticks w' = ticks w \<and> idle other w' = idle other w \<and>
    (idle op w \<longrightarrow> idle op w' \<and> s' = s) \<and> (s' = s \<or> (\<exists>fin. s' = found fin s))"
  have "runs (progress_cq E name q i d found (s, w)) ?Q"
    if p: "shim_cq_poll E q True w = Some ((r, out), v)" and ok: "sess_ok s v" and z: "finished_by op other w ((r, out), v)"
    for r out v
  proof -
    have z: "ticks v = ticks w" "idle other v = idle other w" "idle op w \<longrightarrow> idle op v"
      "idle op w \<longrightarrow> op_id out \<noteq> 0 \<longrightarrow> r \<noteq> 1" "r = 1 \<longrightarrow> op_id out \<noteq> 0 \<longrightarrow> idle op v"
      using z by (auto simp: finished_by_def)
    have stay: "?Q (r', s, pp_check E r t v)" "?Q (r', s, eprintln t v)" "?Q (r', s, v)" for r' t
      using ok z(1-3) by simp_all
    show ?thesis
    proof (cases "r = 1 \<and> op_id out = i")
      case True
      then have "?Q (0, found out s, v)" using z i found [OF ok] by auto
      then show ?thesis using p True stay by (simp add: progress_cq_def pp_check_def)
    next
      case False
      then show ?thesis using p stay by (auto simp: progress_cq_def pp_check_def)
    qed
  qed
  with cq_poll_sess [OF s E side] show ?thesis by (auto simp: runs_Ex)
qed

lemma progress_eq_runs:
  fixes E :: "'p lib" and w :: "'p world"
  assumes s: "sess_ok s w" and E: "errno_ok E" "infos_ok E"
  shows "runs (progress_eq E (s, w)) (\<lambda>(ret, (s', w')). s' = s \<and> calm s w w')"
proof -
  have "runs (progress_eq E (s, w)) (\<lambda>(ret, (s', w')). s' = s \<and> calm s w w')"
    if p: "shim_eq_poll E (pp_eq s) True w = Some ((r, ev), v)" and z: "eq_polled w ((r, ev), v)" for r ev v
    using z unfolding eq_polled_def prod.case
  proof (elim disjE conjE exE)
    assume "ev_info ev = 0" "ev_type ev \<noteq> SHIM_EVENT_CONNREQ" "same_heap w v"
    then show ?thesis using p calm_same_heap [OF s] by (simp add: progress_eq_def Let_def)
  next
    fix raw q
    assume "r = 1" "ev_type ev = SHIM_EVENT_CONNREQ" and a: "ev_info ev \<noteq> 0" "\<not> allocated w (ev_info ev)" "info_wf raw"
      and v: "v = add_info (ev_info ev) raw (take_info (w\<lparr>prov := q\<rparr>))"
    then show ?thesis using p runs_conseq [OF turn_away_sess [OF s E(1) a, of q] calm_same_heap [OF s]]
      by (simp add: progress_eq_def pp_check_def)
  qed
  with eq_poll_sess [OF s E] show ?thesis by (auto simp: runs_Ex)
qed

text \<open>
  All of \<open>progress\<close>: only the flags and the length of the session change, and those of a side
  only when its operation was in flight.
\<close>

definition drives :: "session \<Rightarrow> 'p world \<Rightarrow> session \<Rightarrow> 'p world \<Rightarrow> bool" where
  "drives s w s' w' \<longleftrightarrow> sess_ok s' w' \<and> ticks w' = ticks w \<and>
     (\<exists>a b n. s' = s\<lparr>pp_tx_done := a, pp_rx_done := b, pp_rx_len := n\<rparr>) \<and>
     (idle (pp_tx_op s) w \<longrightarrow> idle (pp_tx_op s) w' \<and> pp_tx_done s' = pp_tx_done s) \<and>
     (idle (pp_rx_op s) w \<longrightarrow> idle (pp_rx_op s) w' \<and> pp_rx_done s' = pp_rx_done s)"

lemma drives_refl: "sess_ok s w \<Longrightarrow> drives s w s w"
  unfolding drives_def
  by (simp, rule exI [of _ "pp_tx_done s"], rule exI [of _ "pp_rx_done s"], rule exI [of _ "pp_rx_len s"]) simp

lemma drives_trans:
  assumes "drives s w s' w'" and "drives s' w' s'' w''"
  shows "drives s w s'' w''"
proof -
  obtain a b n where s': "s' = s\<lparr>pp_tx_done := a, pp_rx_done := b, pp_rx_len := n\<rparr>"
    using assms(1) by (auto simp: drives_def)
  moreover obtain a b n where "s'' = s'\<lparr>pp_tx_done := a, pp_rx_done := b, pp_rx_len := n\<rparr>"
    using assms(2) by (auto simp: drives_def)
  ultimately have "\<exists>a b n. s'' = s\<lparr>pp_tx_done := a, pp_rx_done := b, pp_rx_len := n\<rparr>" by auto
  moreover have "pp_tx_op s' = pp_tx_op s" "pp_rx_op s' = pp_rx_op s" by (simp_all add: s')
  ultimately show ?thesis using assms unfolding drives_def by simp
qed

lemma drives_calm:
  assumes "drives s w s' w'" and "calm s' w' w''"
  shows "drives s w s' w''"
  using assms calm_idle [OF assms(2)] by (simp add: drives_def calm_def)

lemma drives_side:
  fixes w :: "'p world"
  assumes "sess_ok s' w'" "ticks w' = ticks w" "idle other w' = idle other w"
    and "idle op w \<longrightarrow> idle op w' \<and> s' = s" and "s' = s\<lparr>pp_tx_done := a, pp_rx_done := b, pp_rx_len := n\<rparr>"
    and "op = pp_tx_op s \<and> other = pp_rx_op s \<and> b = pp_rx_done s \<or>
      op = pp_rx_op s \<and> other = pp_tx_op s \<and> a = pp_tx_done s"
  shows "drives s w s' w'"
proof -
  have "\<exists>a b n. s' = s\<lparr>pp_tx_done := a, pp_rx_done := b, pp_rx_len := n\<rparr>" using assms(5) by blast
  then show ?thesis using assms unfolding drives_def
    by (elim disjE conjE) (simp_all, (metis session.simps session.update_convs)?)
qed

lemma progress_tx:
  fixes E :: "'p lib" and w :: "'p world"
  assumes s: "sess_ok s w" and E: "errno_ok E"
  shows "runs (progress_cq E name (pp_tx_cq s) 1 d (\<lambda>_. pp_tx_done_update (\<lambda>_. True)) (s, w))
    (\<lambda>(ret, (s', w')). drives s w s' w')"
proof -
  let ?found = "\<lambda>_ :: shim_completion. pp_tx_done_update (\<lambda>_. True)"
  have p: "runs (progress_cq E name (pp_tx_cq s) 1 d ?found (s, w)) (\<lambda>(ret, (s', w')). sess_ok s' w' \<and>
      ticks w' = ticks w \<and> idle (pp_rx_op s) w' = idle (pp_rx_op s) w \<and>
      (idle (pp_tx_op s) w \<longrightarrow> idle (pp_tx_op s) w' \<and> s' = s) \<and> (s' = s \<or> (\<exists>fin. s' = ?found fin s)))"
    by (rule progress_cq_runs [OF s E disjI1 [OF refl], where found = ?found]) (simp_all add: sess_flag)
  have eq: "s = s\<lparr>pp_tx_done := pp_tx_done s, pp_rx_done := pp_rx_done s, pp_rx_len := pp_rx_len s\<rparr>"
    "s\<lparr>pp_tx_done := True\<rparr> = s\<lparr>pp_tx_done := True, pp_rx_done := pp_rx_done s, pp_rx_len := pp_rx_len s\<rparr>" by simp_all
  show ?thesis
  proof (rule runs_conseq [OF p], unfold case_prod_beta, elim conjE)
    fix x :: "int \<times> session \<times> 'p world"
    assume h: "sess_ok (fst (snd x)) (snd (snd x))" "ticks (snd (snd x)) = ticks w"
      "idle (pp_rx_op s) (snd (snd x)) = idle (pp_rx_op s) w"
      "idle (pp_tx_op s) w \<longrightarrow> idle (pp_tx_op s) (snd (snd x)) \<and> fst (snd x) = s"
      and "fst (snd x) = s \<or> (\<exists>fin. fst (snd x) = ?found fin s)"
    then have "\<exists>a. fst (snd x) = s\<lparr>pp_tx_done := a, pp_rx_done := pp_rx_done s, pp_rx_len := pp_rx_len s\<rparr>"
      using eq by metis
    then show "drives s w (fst (snd x)) (snd (snd x))" using drives_side [OF h] by blast
  qed
qed

lemma progress_rx:
  fixes E :: "'p lib" and w :: "'p world"
  assumes s: "sess_ok s w" and E: "errno_ok E"
  shows "runs (progress_cq E name (pp_rx_cq s) 2 d (\<lambda>fin s. s\<lparr>pp_rx_done := True, pp_rx_len := len fin\<rparr>) (s, w))
    (\<lambda>(ret, (s', w')). drives s w s' w')"
proof -
  let ?found = "\<lambda>(fin :: shim_completion) s. s\<lparr>pp_rx_done := True, pp_rx_len := len fin\<rparr>"
  have p: "runs (progress_cq E name (pp_rx_cq s) 2 d ?found (s, w)) (\<lambda>(ret, (s', w')). sess_ok s' w' \<and>
      ticks w' = ticks w \<and> idle (pp_tx_op s) w' = idle (pp_tx_op s) w \<and>
      (idle (pp_rx_op s) w \<longrightarrow> idle (pp_rx_op s) w' \<and> s' = s) \<and> (s' = s \<or> (\<exists>fin. s' = ?found fin s)))"
    by (rule progress_cq_runs [OF s E disjI2 [OF refl], where found = ?found]) (simp_all add: sess_flag)
  have eq: "s = s\<lparr>pp_tx_done := pp_tx_done s, pp_rx_done := pp_rx_done s, pp_rx_len := pp_rx_len s\<rparr>"
    "s\<lparr>pp_rx_done := True, pp_rx_len := n\<rparr> = s\<lparr>pp_tx_done := pp_tx_done s, pp_rx_done := True, pp_rx_len := n\<rparr>" for n
    by simp_all
  show ?thesis
  proof (rule runs_conseq [OF p], unfold case_prod_beta, elim conjE)
    fix x :: "int \<times> session \<times> 'p world"
    assume h: "sess_ok (fst (snd x)) (snd (snd x))" "ticks (snd (snd x)) = ticks w"
      "idle (pp_tx_op s) (snd (snd x)) = idle (pp_tx_op s) w"
      "idle (pp_rx_op s) w \<longrightarrow> idle (pp_rx_op s) (snd (snd x)) \<and> fst (snd x) = s"
      and "fst (snd x) = s \<or> (\<exists>fin. fst (snd x) = ?found fin s)"
    then have "\<exists>b n. fst (snd x) = s\<lparr>pp_tx_done := pp_tx_done s, pp_rx_done := b, pp_rx_len := n\<rparr>"
      using eq by metis
    then show "drives s w (fst (snd x)) (snd (snd x))" using drives_side [OF h] by blast
  qed
qed

lemma progress_runs:
  fixes E :: "'p lib" and w :: "'p world"
  assumes s: "sess_ok s w" and E: "lib_ok E"
  shows "runs (progress E (s, w)) (\<lambda>(ret, (s', w')). drives s w s' w')"
proof -
  obtain r1 s1 w1 where p1: "progress_cq E ''TX'' (pp_tx_cq s) 1 SHIM_COMPLETION_SEND
      (\<lambda>_. pp_tx_done_update (\<lambda>_. True)) (s, w) = Some (r1, s1, w1)" and d1: "drives s w s1 w1"
    by (rule runs_cases [OF progress_tx [OF s lib_okD(1) [OF E], of "''TX''" SHIM_COMPLETION_SEND]]) auto
  then have s1: "sess_ok s1 w1" by (simp add: drives_def)
  obtain r2 s2 w2 where p2: "progress_cq E ''RX'' (pp_rx_cq s1) 2 SHIM_COMPLETION_RECV
      (\<lambda>fin s. s\<lparr>pp_rx_done := True, pp_rx_len := len fin\<rparr>) (s1, w1) = Some (r2, s2, w2)" and "drives s1 w1 s2 w2"
    by (rule runs_cases [OF progress_rx [OF s1 lib_okD(1) [OF E], of "''RX''" SHIM_COMPLETION_RECV]]) auto
  then have d2: "drives s w s2 w2" "sess_ok s2 w2" using drives_trans [OF d1] by (auto simp: drives_def [of s1])
  obtain r3 w3 where p3: "progress_eq E (s2, w2) = Some (r3, s2, w3)" and "calm s2 w2 w3"
    using progress_eq_runs [OF d2(2) lib_okD(1,2) [OF E]] by (auto simp: runs_Ex)
  then have "drives s w s2 w3" using drives_calm [OF d2(1)] by simp
  then show ?thesis using p1 p2 p3 d1 d2 by (simp add: progress_def)
qed

subsection \<open>Connection events\<close>

lemma wait_event_round_leads:
  fixes E :: "'p lib" and w :: "'p world"
  assumes s: "sess_ok s w" and n: "reached n s" and E: "lib_ok E"
    and nm: "if wanted = SHIM_EVENT_CONNREQ then n = 5 \<and> m = 6 else m = n"
  shows "runs (wait_event_round E wanted (s, w)) (leads (\<lambda>s w. sess_ok s w \<and> reached n s)
    (\<lambda>(ret, (s', w')). sess_ok s' w' \<and> (\<not> ret < 0 \<longrightarrow> reached m s')) (ticks w))" (is "runs _ ?Q")
proof -
  note e = lib_okD [OF E]
  have "runs (wait_event_round E wanted (s, w)) ?Q"
    if p: "shim_eq_poll E (pp_eq s) True w = Some ((r, ev), v)" and z: "eq_polled w ((r, ev), v)" for r ev v
    using z unfolding eq_polled_def prod.case
  proof (elim disjE conjE exE)
    assume t: "ev_type ev \<noteq> SHIM_EVENT_CONNREQ" and h: "same_heap w v"
    then have "sess_ok s v" "ticks v = ticks w" using same_heap_still [OF h s] by simp_all
    then show ?thesis using p t n nm by (simp add: wait_event_round_def Let_def split: if_splits)
  next
    fix raw q
    assume t: "r = 1" "ev_type ev = SHIM_EVENT_CONNREQ" and a: "ev_info ev \<noteq> 0" "\<not> allocated w (ev_info ev)" "info_wf raw"
      and v: "v = add_info (ev_info ev) raw (take_info (w\<lparr>prov := q\<rparr>))"
    show ?thesis
    proof (cases "wanted = SHIM_EVENT_CONNREQ \<and> pp_request s = 0")
      case True
      then have "sess_ok (s\<lparr>pp_request := ev_info ev\<rparr>) v" unfolding v
        using sess_add_request [of s "w\<lparr>prov := q\<rparr>" "ev_info ev" raw] s a by (simp add: take_info_def)
      moreover have "reached 6 (s\<lparr>pp_request := ev_info ev\<rparr>)" using n nm True by (simp add: reached_def fresh_from_def)
      moreover have "ticks v = ticks w" by (simp add: v add_info_def take_info_def)
      ultimately show ?thesis using p t True nm by (simp add: wait_event_round_def pp_check_def)
    next
      case False
      have "runs (turn_away E (ev_info ev) s v) (\<lambda>w'. sess_ok s w' \<and> ticks w' = ticks w)"
        unfolding v by (rule runs_conseq [OF turn_away_sess [OF s e(1) a]]) (use same_heap_still s in blast)
      then show ?thesis using p t False n by (auto simp: wait_event_round_def pp_check_def)
    qed
  qed
  with eq_poll_sess [OF s e(1,2)] show ?thesis by (auto simp: runs_Ex)
qed

lemma keeps_wait_event:
  fixes E :: "'p lib"
  assumes "if wanted = SHIM_EVENT_CONNREQ then n = 5 \<and> m = 6 else m = n"
  shows "keeps E n (wait_event E wanted) m"
  unfolding keeps_def wait_event_def
proof (intro allI impI)
  fix s :: session and w :: "'p world"
  assume E: "lib_ok E" and s: "sess_ok s w" "reached n s"
  show "runs (five_seconds E ''connection event timeout'' (wait_event_round E wanted) (s, w))
    (\<lambda>(ret, (s', w')). sess_ok s' w' \<and> (\<not> ret < 0 \<longrightarrow> reached m s'))"
    by (rule five_seconds_runs [OF lib_okD(3) [OF E], where I = "\<lambda>s w. sess_ok s w \<and> reached n s"])
      (use wait_event_round_leads [OF _ _ E assms] s in simp_all)
qed

subsection \<open>Messages\<close>

lemma drives_reached: "drives s w s' w' \<Longrightarrow> reached n s' = reached n s"
  unfolding drives_def by (elim conjE exE) (simp add: reached_def fresh_from_def)

lemma drives_sides:
  assumes "drives s w s' w'" and "sides receive s = (op, mr, buf, other, False)" and "idle op w"
  shows "sides receive s' = (op, mr, buf, other, False)"
  using assms by (auto simp: drives_def sides_def split: if_splits)

text \<open>The loop of both submissions: one side's flag is down until the operation is posted.\<close>

definition submitting :: "bool \<Rightarrow> nat \<Rightarrow> addr \<times> addr \<times> addr \<times> addr \<times> bool \<Rightarrow> session \<Rightarrow> 'p world \<Rightarrow> bool" where
  "submitting receive k side s w \<longleftrightarrow> sess_ok s w \<and> reached k s \<and> sides receive s = side"

definition posting :: "'p lib \<Rightarrow> bool \<Rightarrow> size_t \<Rightarrow> session \<Rightarrow> 'p world \<Rightarrow> (int \<times> 'p world) option" where
  "posting E receive n s = post_message E (pp_ep s) (fst (sides receive s)) (fst (snd (sides receive s))) n
     (fst (snd (snd (sides receive s)))) receive"

lemma posting_eq:
  "posting E True n = (\<lambda>s. shim_post_recv E (pp_ep s) (pp_rx_op s) (pp_rx_mr s) n (pp_rx s))"
  "posting E False n = (\<lambda>s. shim_post_send E (pp_ep s) (pp_tx_op s) (pp_tx_mr s) n (pp_tx s))"
  by (simp_all add: fun_eq_iff posting_def sides_def shim_post_recv_def shim_post_send_def)

lemma submit_round_leads:
  fixes E :: "'p lib" and w :: "'p world"
  assumes s: "submitting receive k (op, mr, buf, other, False) s w" and E: "lib_ok E"
  shows "runs (submit_round E name (posting E receive n) (s, w))
    (leads (submitting receive k (op, mr, buf, other, False)) (\<lambda>(ret, (s', w')). sess_ok s' w' \<and> reached k s') (ticks w))"
proof -
  have s: "sess_ok s w" "reached k s" "sides receive s = (op, mr, buf, other, False)"
    using s by (simp_all add: submitting_def)
  obtain r v where p: "posting E receive n s w = Some (r, v)"
    and v: "sess_ok s v" "ticks v = ticks w" "shim_error_is_again E r \<noteq> 0 \<longrightarrow> idle op v"
    by (rule runs_cases [OF post_sess [OF s(1) lib_okD(1) [OF E] s(3), of n]]) (auto simp: posting_def s(3))
  show ?thesis
  proof (cases "shim_error_is_again E r = 0")
    case True
    then show ?thesis using p v s(2) by (simp add: submit_round_def)
  next
    case False
    obtain r' s' w' where q: "progress E (s, v) = Some (r', s', w')" and d: "drives s v s' w'"
      by (rule runs_cases [OF progress_runs [OF v(1) E]]) auto
    have "sides receive s' = (op, mr, buf, other, False)" using drives_sides [OF d s(3)] v(3) False by simp
    then show ?thesis using p q d False v(2) s(2) drives_reached [OF d]
      by (simp add: submit_round_def drives_def submitting_def)
  qed
qed

lemma submit_runs:
  fixes E :: "'p lib" and w :: "'p world"
  assumes s: "sess_ok s w" "reached k s" "sides receive s = (op, mr, buf, other, False)" and E: "lib_ok E"
  shows "runs (five_seconds E text (submit_round E name (posting E receive n)) (s, w))
    (\<lambda>(ret, (s', w')). sess_ok s' w' \<and> reached k s')"
  by (rule five_seconds_runs [OF lib_okD(3) [OF E], where I = "submitting receive k (op, mr, buf, other, False)"])
    (use submit_round_leads [OF _ E] s in \<open>simp_all add: submitting_def\<close>)

lemma keeps_post_receive:
  fixes E :: "'p lib"
  shows "keeps E 15 (post_receive E) 15"
  unfolding keeps_def
proof (intro allI impI)
  fix s :: session and w :: "'p world"
  assume E: "lib_ok E" and s: "sess_ok s w" "reached 15 s"
  have "reached 15 (s\<lparr>pp_rx_done := False\<rparr>)" using s(2) by (simp add: reached_def fresh_from_def)
  then have "runs (post_receive E (s, w)) (\<lambda>(ret, (s', w')). sess_ok s' w' \<and> reached 15 s')"
    using submit_runs [OF sess_flag(2) [OF s(1)] _ _ E, where receive = True]
    by (simp add: post_receive_def posting_eq sides_def)
  then show "runs (post_receive E (s, w)) (\<lambda>(ret, (s', w')). sess_ok s' w' \<and> (\<not> ret < 0 \<longrightarrow> reached 15 s'))"
    by (rule runs_conseq) auto
qed

lemma sess_write:
  assumes "sess_ok s w" and "mem w a = Some old" and "length bs = length old"
  shows "sess_ok s (w\<lparr>mem := (mem w)(a \<mapsto> bs)\<rparr>)"
proof (rule sess_still [OF assms(1)])
  show "still w (w\<lparr>mem := (mem w)(a \<mapsto> bs)\<rparr>)"
    using assms(2,3) by (auto simp: still_def intro: same_under_upd)
  show "inv (w\<lparr>mem := (mem w)(a \<mapsto> bs)\<rparr>)"
    using inv_mem [OF sess_inv [OF assms(1)] assms(2,3)] by simp
qed

lemma keeps_send_message:
  fixes E :: "'p lib"
  shows "keeps E 15 (send_message E text) 15"
  unfolding keeps_def
proof (intro allI impI)
  fix s :: session and w :: "'p world"
  assume E: "lib_ok E" and s: "sess_ok s w" "reached 15 s"
  show "runs (send_message E text (s, w)) (\<lambda>(ret, (s', w')). sess_ok s' w' \<and> (\<not> ret < 0 \<longrightarrow> reached 15 s'))"
  proof (cases "length text > CAPACITY \<or> \<not> pp_tx_done s")
    case True
    then show ?thesis using s by (simp add: send_message_def)
  next
    case False
    have "pp_tx s \<noteq> 0" using s(2) by (simp add: reached_def)
    then obtain old where old: "mem w (pp_tx s) = Some old" "length old = CAPACITY"
      using sess_backed [OF s(1), of "pp_tx s"] by auto
    have free: "\<not> borrowed (pp_tx_op s) w"
      using idle_borrows [OF sess_inv [OF s(1)]] sess_idle(1) [OF s(1)] False by blast
    have w: "sess_ok s (w\<lparr>mem := (mem w)(pp_tx s \<mapsto> text @ drop (length text) old)\<rparr>)"
      by (rule sess_write [OF s(1) old(1)]) (use False old(2) in simp)
    have "reached 15 (s\<lparr>pp_tx_done := False\<rparr>)" using s(2) by (simp add: reached_def fresh_from_def)
    then have "runs (send_message E text (s, w)) (\<lambda>(ret, (s', w')). sess_ok s' w' \<and> reached 15 s')"
      using submit_runs [OF sess_flag(1) [OF w] _ _ E, where receive = False] False old free
      by (simp add: send_message_def posting_eq sides_def memcpy_to_def)
    then show ?thesis by (rule runs_conseq) auto
  qed
qed

lemma wait_data_round_leads:
  fixes E :: "'p lib" and w :: "'p world"
  assumes s: "sess_ok s w" "reached 15 s" and E: "lib_ok E"
    and short: "\<And>e. expected = Some e \<Longrightarrow> length e \<le> CAPACITY"
  shows "runs (wait_data_round E expected (s, w)) (leads (\<lambda>s w. sess_ok s w \<and> reached 15 s)
    (\<lambda>(ret, (s', w')). sess_ok s' w' \<and> reached 15 s') (ticks w))" (is "runs _ ?Q")
proof -
  have "runs (wait_data_round E expected (s, w)) ?Q"
    if p: "progress E (s, w) = Some (r, s', w')" and d: "drives s w s' w'" for r s' w'
  proof -
    have s': "sess_ok s' w'" "reached 15 s'" "ticks w' = ticks w"
      using d drives_reached [OF d] s(2) by (simp_all add: drives_def)
    have "\<exists>b. (case expected of None \<Rightarrow> Some True | Some e \<Rightarrow> received_text e s' w') = Some b"
      if fin: "pp_rx_done s'"
    proof (cases expected)
      case (Some e)
      have "pp_rx s' \<noteq> 0" using s'(2) by (simp add: reached_def)
      then obtain bs where "mem w' (pp_rx s') = Some bs" "length bs = CAPACITY"
        using sess_backed [OF s'(1), of "pp_rx s'"] by auto
      moreover have "unat (of_nat (length e) :: size_t) \<le> CAPACITY"
        using short [OF Some] by (simp add: unat_of_nat CAPACITY_def le_trans [OF mod_less_eq_dividend])
      moreover have "\<not> borrowed (pp_rx_op s') w'"
        using idle_borrows [OF sess_inv [OF s'(1)]] sess_idle(2) [OF s'(1) fin] by blast
      ultimately show ?thesis using Some by (auto simp: received_text_def read_bytes_def)
    qed auto
    then show ?thesis using p s' by (auto simp: wait_data_round_def)
  qed
  with progress_runs [OF s(1) E] show ?thesis by (auto simp: runs_Ex)
qed

lemma keeps_wait_data:
  fixes E :: "'p lib"
  assumes "\<And>e. expected = Some e \<Longrightarrow> length e \<le> CAPACITY"
  shows "keeps E 15 (wait_data E expected) 15"
  unfolding keeps_def wait_data_def
proof (intro allI impI)
  fix s :: session and w :: "'p world"
  assume E: "lib_ok E" and s: "sess_ok s w" "reached 15 s"
  have "runs (five_seconds E ''data completion timeout'' (wait_data_round E expected) (s, w))
      (\<lambda>(ret, (s', w')). sess_ok s' w' \<and> reached 15 s')"
    by (rule five_seconds_runs [OF lib_okD(3) [OF E], where I = "\<lambda>s w. sess_ok s w \<and> reached 15 s"])
      (use wait_data_round_leads [OF _ _ E assms] s in simp_all)
  then show "runs (five_seconds E ''data completion timeout'' (wait_data_round E expected) (s, w))
      (\<lambda>(ret, (s', w')). sess_ok s' w' \<and> (\<not> ret < 0 \<longrightarrow> reached 15 s'))"
    by (rule runs_conseq) auto
qed

end
