(* ===== verification/Pingpong_Run.thy ===== *)
theory Pingpong_Run
  imports Pingpong_Wait
begin

text \<open>
  Every attempt of the C example's \<open>main\<close>, in its order, keeps the session's invariant.
\<close>

subsection \<open>The attempts of main\<close>

lemma reached_mono: "reached n s \<Longrightarrow> n \<le> m \<Longrightarrow> m \<le> 10 \<Longrightarrow> reached m s"
  using fresh_from_mono by (auto simp: reached_def)

lemma legs_weaken: "legs E n f m \<Longrightarrow> k \<le> n \<Longrightarrow> n \<le> 10 \<Longrightarrow> legs E k f m"
  unfolding legs_def using reached_mono by blast

lemma legs_one: "legs E n f m \<Longrightarrow> legs E n (in_order [f]) m"
  by (rule legs_Cons [OF _ legs_Nil])

lemma keeps_accept:
  fixes E :: "'p lib"
  shows "keeps E 15 (on_session (\<lambda>s. shim_accept E (pp_ep s))) 15"
  unfolding keeps_def
proof (intro allI impI)
  fix s :: session and w :: "'p world"
  assume E: "lib_ok E" and s: "sess_ok s w" "reached 15 s"
  have "runs (shim_accept E (pp_ep s) w) (\<lambda>(r, w'). sess_ok s w')"
  proof (cases "pp_ep s = 0")
    case False
    then obtain p where "endpoints w (pp_ep s) = Some p" using sess_alive(9) [OF s(1)] by (auto simp: alive_def)
    from shim_accept_spec [OF this, of E] show ?thesis
      by (rule runs_conseq) (use same_heap_still [OF _ s(1)] in auto)
  qed (use s in \<open>simp add: shim_accept_def\<close>)
  then show "runs (on_session (\<lambda>s. shim_accept E (pp_ep s)) (s, w))
      (\<lambda>(ret, (s', w')). sess_ok s' w' \<and> (\<not> ret < 0 \<longrightarrow> reached 15 s'))"
    using s(2) by (auto simp: on_session_def elim!: runs_conseq)
qed

lemma keeps_connect:
  fixes E :: "'p lib"
  shows "keeps E 15 (on_session (\<lambda>s. shim_connect E (pp_ep s) (pp_info s))) 15"
  unfolding keeps_def
proof (intro allI impI)
  fix s :: session and w :: "'p world"
  assume E: "lib_ok E" and s: "sess_ok s w" "reached 15 s"
  have "runs (shim_connect E (pp_ep s) (pp_info s) w) (\<lambda>(r, w'). sess_ok s w')"
  proof (cases "pp_ep s = 0 \<or> pp_info s = 0")
    case False
    then obtain p i where x: "endpoints w (pp_ep s) = Some p" "infos w (pp_info s) = Some i"
      using sess_alive(1,9) [OF s(1)] by (auto simp: alive_def)
    then have "infos w (pp_info s) \<noteq> None" by simp
    from shim_connect_spec [OF sess_inv [OF s(1)] x(1) this, of E] show ?thesis
      by (rule runs_conseq) (use same_heap_still [OF _ s(1)] in auto)
  next
    case True
    moreover have "alive (endpoints w) (pp_ep s)" by (rule sess_alive(9) [OF s(1)])
    ultimately show ?thesis using s by (auto simp: shim_connect_def alive_def)
  qed
  then show "runs (on_session (\<lambda>s. shim_connect E (pp_ep s) (pp_info s)) (s, w))
      (\<lambda>(ret, (s', w')). sess_ok s' w' \<and> (\<not> ret < 0 \<longrightarrow> reached 15 s'))"
    using s(2) by (auto simp: on_session_def elim!: runs_conseq)
qed

lemma legs_listening: "legs E 4 (listening E) 6"
  unfolding listening_def
  by (intro legs_Cons [OF legs_TRY [OF keeps_listener]] legs_Cons [OF legs_then, where m = 5]
      legs_one legs_TRY keeps_wait_event) simp_all

lemma legs_prepare: "legs E 6 (prepare_endpoint E server) 15"
  unfolding prepare_endpoint_def
  by (intro legs_one legs_Cons [OF legs_TRY [OF keeps_domain]]
      legs_Cons [OF legs_TRY [OF keeps_tx_cq]]
      legs_Cons [OF legs_TRY [OF keeps_rx_cq]] legs_Cons [OF legs_TRY [OF keeps_endpoint]]
      legs_Cons [OF legs_buffers] legs_Cons [OF legs_TRY [OF keeps_tx_mr]]
      legs_Cons [OF legs_TRY [OF keeps_rx_mr]] legs_Cons [OF legs_TRY [OF keeps_tx_op]]
      legs_Cons [OF legs_TRY [OF keeps_rx_op]] legs_TRY keeps_post_receive)

lemma legs_join: "legs E 15 (join_peer E server) 15"
proof -
  have ev: "legs E 15 (TRY E name (wait_event E SHIM_EVENT_CONNECTED)) 15" for name
    by (rule legs_TRY [OF keeps_wait_event]) (simp add: SHIM_EVENT_CONNREQ_def SHIM_EVENT_CONNECTED_def)
  have acc: "legs E 15 (\<lambda>(s, w). Some (True, s\<lparr>pp_accepted := True\<rparr>, w)) 15"
    by (rule legs_then) (simp add: sess_flag reached_def fresh_from_def)
  show ?thesis
    using legs_Cons [OF legs_TRY [OF keeps_accept] legs_Cons [OF acc legs_one [OF ev]]]
      legs_Cons [OF legs_TRY [OF keeps_connect] legs_one [OF ev]]
    by (cases server) (simp_all add: join_peer_def)
qed

lemma legs_exchange: "legs E 15 (exchange_messages E server) 15"
proof -
  have wait: "legs E 15 (TRY E name (wait_data E expected)) 15"
    if "\<And>e. expected = Some e \<Longrightarrow> length e \<le> CAPACITY" for name expected
    by (rule legs_TRY [OF keeps_wait_data [OF that]])
  have put: "legs E 15 (TRY E name (send_message E m)) 15" for name m
    by (rule legs_TRY [OF keeps_send_message])
  have post: "legs E 15 (TRY E name (post_receive E)) 15" for name
    by (rule legs_TRY [OF keeps_post_receive])
  show ?thesis unfolding exchange_messages_def Let_def
    by (cases server; simp only: if_True if_False; intro legs_one legs_Cons [OF wait]
        legs_Cons [OF put] legs_Cons [OF post] wait) (auto simp: CAPACITY_def)
qed

lemma legs_run: "legs E 1 (exchange_run E server ip port domain) 15"
proof -
  have say: "legs E 15 (\<lambda>(s, w). Some (True, s, println t w)) 15" for t
    by (rule legs_then) simp
  have tail: "legs E n (in_order [prepare_endpoint E b, join_peer E b, exchange_messages E b,
      \<lambda>(s, w). Some (True, s, println t w)]) 15" if "n = 4 \<or> n = 6" for n t b
    using that by (intro legs_Cons [OF legs_weaken [OF legs_prepare]] legs_Cons [OF legs_join]
        legs_Cons [OF legs_exchange] legs_one say) auto
  note start = legs_Cons [OF legs_TRY [OF keeps_info]] legs_Cons [OF legs_TRY [OF keeps_fabric]]
    legs_Cons [OF legs_TRY [OF keeps_eq]]
  show ?thesis unfolding exchange_run_def append_Cons append_Nil
  proof (intro start, cases server)
    case True
    then show "legs E 4 (in_order ((if server then [listening E] else []) @ [prepare_endpoint E server,
        join_peer E server, exchange_messages E server,
        \<lambda>(s, w). Some (True, s, println ''hello/world passed; TX and RX completions observed'' w)])) 15"
      using legs_Cons [OF legs_listening tail] by simp
  qed (simp add: tail)
qed

end
