(* ===== verification/Pingpong_Clean.thy ===== *)
theory Pingpong_Clean
  imports Pingpong_Run
begin

text \<open>
  The cleanup of the C example. The proof follows a session whose fields become null as
  their objects are given back; the program itself leaves its fields alone.
\<close>

subsection \<open>What is left to give back\<close>

definition owed :: "session \<Rightarrow> 'p world \<Rightarrow> bool" where
  "owed s w \<longleftrightarrow> inv w \<and> sess_held s w \<and> (\<forall>m. mrs w (pp_tx_mr s) = Some m \<longrightarrow> m_buffer m = pp_tx s) \<and>
     (\<forall>m. mrs w (pp_rx_mr s) = Some m \<longrightarrow> m_buffer m = pp_rx s)"

lemma sess_owed: "sess_ok s w \<Longrightarrow> owed s w"
  by (simp add: owed_def sess_ok_def sess_links_def side_ok_def)

lemma owed_prov [simp]: "owed s (w\<lparr>prov := p\<rparr>) = owed s w" "owed s (w\<lparr>console := c\<rparr>) = owed s w"
    "owed s (pp_check E r t w) = owed s w"
  by (simp_all add: owed_def sess_held_def pp_check_def eprintln_def)

lemma owed_inv: "owed s w \<Longrightarrow> inv w"
  by (simp add: owed_def)

lemma owed_alive:
  assumes "owed s w"
  shows "alive (infos w) (pp_info s)" "alive (infos w) (pp_request s)" "alive (fabrics w) (pp_fabric s)"
    "alive (domains w) (pp_domain s)" "alive (eqs w) (pp_eq s)" "alive (cqs w) (pp_tx_cq s)"
    "alive (cqs w) (pp_rx_cq s)" "alive (listeners w) (pp_listener s)" "alive (endpoints w) (pp_ep s)"
    "alive (mrs w) (pp_tx_mr s)" "alive (mrs w) (pp_rx_mr s)" "alive (ops w) (pp_tx_op s)"
    "alive (ops w) (pp_rx_op s)"
  using assms unfolding owed_def sess_held_def by (blast intro: holds_alive)+

text \<open>Null fields of a kind mean an empty map.\<close>

lemma owed_none:
  assumes "owed s w"
  shows "pp_ep s = 0 \<Longrightarrow> endpoints w = Map.empty" "pp_listener s = 0 \<Longrightarrow> listeners w = Map.empty"
    "pp_domain s = 0 \<Longrightarrow> domains w = Map.empty" "pp_eq s = 0 \<Longrightarrow> eqs w = Map.empty"
    "pp_fabric s = 0 \<Longrightarrow> fabrics w = Map.empty"
    "pp_tx_cq s = 0 \<Longrightarrow> pp_rx_cq s = 0 \<Longrightarrow> cqs w = Map.empty"
    "pp_tx_op s = 0 \<Longrightarrow> pp_rx_op s = 0 \<Longrightarrow> ops w = Map.empty"
    "pp_tx_mr s = 0 \<Longrightarrow> pp_rx_mr s = 0 \<Longrightarrow> mrs w = Map.empty"
    "pp_tx s = 0 \<Longrightarrow> pp_rx s = 0 \<Longrightarrow> mem w = Map.empty"
    "pp_info s = 0 \<Longrightarrow> pp_request s = 0 \<Longrightarrow> infos w = Map.empty \<and> fi_lists w = 0"
  using assms by (auto simp: owed_def sess_held_def held_count_def intro: holds_none)

text \<open>The result of a close: the field is null now, or the provider is to blame.\<close>

definition given_back :: "'p lib \<Rightarrow> session \<Rightarrow> session \<Rightarrow> int \<times> 'p world \<Rightarrow> bool" where
  "given_back E s s' = (\<lambda>(r, w). if r = 0 then owed s' w else owed s w \<and> \<not> closes_ok E)"

lemma holds_ops [simp]: "holds2 a b (retire_ops q h) = holds2 a b h" "holds2 a b (drain_ops q h) = holds2 a b h"
    "holds2 a b (recount h' m) = holds2 a b m"
  by (simp_all add: retire_ops_def drain_ops_def recount_def)

lemma recount_buffer: "recount h m a = Some x \<Longrightarrow> \<exists>y. m a = Some y \<and> m_buffer x = m_buffer y"
  by (auto simp: recount_def mapm_apply)

lemma step_gives_back:
  assumes "owed s w" and "closes_ok E \<Longrightarrow> \<not> busy" and "errno_ok E"
    and "\<And>p. \<not> busy \<Longrightarrow> owed s' (del (w\<lparr>prov := p\<rparr>))"
  shows "given_back E s s' (close_step E busy raw del w)"
proof -
  obtain r w' where c: "close_step E busy raw del w = (r, w')" by (metis prod.exhaust)
  from c show ?thesis
  proof (cases rule: close_step_cases)
    case (refused p)
    then have "\<not> closes_ok E" by (metis closes_ok_def fst_conv)
    then show ?thesis using c refused assms(1) by (simp add: given_back_def)
  qed (use c assms errno_pos [OF assms(3), of FI_EBUSY] in \<open>auto simp: given_back_def\<close>)
qed

lemma null_gives_back: "owed s w \<Longrightarrow> owed s' w \<Longrightarrow> given_back E s s' (0, w)"
  by (simp add: given_back_def)

subsection \<open>One close\<close>

lemma ep_given_back:
  assumes "owed s w" and "errno_ok E"
  shows "runs (shim_endpoint_close E (pp_ep s) w) (given_back E s (s\<lparr>pp_ep := 0\<rparr>))"
  using owed_alive(9) [OF assms(1)]
proof (cases rule: aliveE)
  case null
  then have "owed (s\<lparr>pp_ep := 0\<rparr>) w" using assms(1) by (simp add: owed_def sess_held_def)
  then show ?thesis using null null_gives_back [OF assms(1)] by simp
next
  case (live p)
  let ?w = "w\<lparr>endpoints := (endpoints w)(pp_ep s \<mapsto> p\<lparr>p_closing := True\<rparr>)\<rparr>"
  have i: "inv ?w" using inv_upd_endpoint [OF owed_inv [OF assms(1)] live(2)] by simp
  then have r: "owed s ?w" using assms(1) live(2) by (simp add: owed_def sess_held_def holds_upd)
  have "owed (s\<lparr>pp_ep := 0\<rparr>) (del_endpoint (pp_ep s) p (?w\<lparr>prov := q\<rparr>))" for q
  proof -
    have del: "del_endpoint (pp_ep s) p v = del_endpoint (pp_ep s) (p\<lparr>p_closing := True\<rparr>) v" for v :: "'a world"
      by (simp add: del_endpoint_def)
    have "inv (del_endpoint (pp_ep s) p (?w\<lparr>prov := q\<rparr>))"
      unfolding del by (rule inv_del_endpoint) (use i in simp_all)
    then show ?thesis using assms(1)
      by (auto simp: owed_def sess_held_def del_endpoint_def Let_def holds_del dest: recount_buffer)
  qed
  from step_gives_back [OF r _ assms(2), where del = "del_endpoint (pp_ep s) p" and busy = False, OF _ this] show ?thesis
    unfolding shim_endpoint_close_eq [OF owed_inv [OF assms(1)] live(2)] runs_Some
    by (auto simp: given_back_def)
qed

lemma cq_detached: "inv w \<Longrightarrow> endpoints w = Map.empty \<Longrightarrow> cqs w q = Some c \<Longrightarrow> \<not> c_attached c"
  using cq_flagsD [of w q c] by (auto simp: cq_flags_ok_def user_of_def)

text \<open>The shape of every close that asks the provider: a null handle, or one guarded step.\<close>

lemma give_back:
  assumes "alive m a" and "owed s w" and "errno_ok E" and "f 0 w = Some (0, w)"
    and "\<And>x. a \<noteq> 0 \<Longrightarrow> m a = Some x \<Longrightarrow> f a w = Some (close_step E (busy x) (raw x) (del x) w)"
    and "\<And>x. m a = Some x \<Longrightarrow> closes_ok E \<Longrightarrow> \<not> busy x"
    and "a = 0 \<Longrightarrow> owed s' w"
    and "\<And>x q. a \<noteq> 0 \<Longrightarrow> m a = Some x \<Longrightarrow> \<not> busy x \<Longrightarrow> owed s' (del x (w\<lparr>prov := q\<rparr>))"
  shows "runs (f a w) (given_back E s s')"
  using assms(1)
proof (cases rule: aliveE)
  case null
  then show ?thesis using assms(2,4,7) by (simp add: given_back_def)
next
  case (live x)
  show ?thesis unfolding assms(5) [OF live] runs_Some
    by (rule step_gives_back [OF assms(2) _ assms(3)]) (use assms(6) [OF live(2)] assms(8) [OF live] in simp_all)
qed

lemma cq_given_back:
  assumes "owed s w" and "errno_ok E" and "closes_ok E \<Longrightarrow> pp_ep s = 0"
  shows "runs (shim_cq_close E (pp_tx_cq s) w) (given_back E s (s\<lparr>pp_tx_cq := 0\<rparr>))"
    and "runs (shim_cq_close E (pp_rx_cq s) w) (given_back E s (s\<lparr>pp_rx_cq := 0\<rparr>))"
proof -
  note i = owed_inv [OF assms(1)]
  have idle: "cqs w q = Some c \<Longrightarrow> closes_ok E \<Longrightarrow> \<not> c_attached c" for q c
    using cq_detached [OF i] owed_none(1) [OF assms(1)] assms(3) by blast
  show "runs (shim_cq_close E (pp_tx_cq s) w) (given_back E s (s\<lparr>pp_tx_cq := 0\<rparr>))"
    by (rule give_back [where f = "shim_cq_close E" and busy = c_attached and raw = c_raw
          and del = "del_cq (pp_tx_cq s)", OF owed_alive(6) [OF assms(1)] assms(1,2)])
      (use assms(1) idle shim_cq_close_eq [OF i] inv_del_cq [of "w\<lparr>prov := q\<rparr>" for q]
        in \<open>simp_all add: owed_def sess_held_def del_cq_def holds_del\<close>)
  show "runs (shim_cq_close E (pp_rx_cq s) w) (given_back E s (s\<lparr>pp_rx_cq := 0\<rparr>))"
    by (rule give_back [where f = "shim_cq_close E" and busy = c_attached and raw = c_raw
          and del = "del_cq (pp_rx_cq s)", OF owed_alive(7) [OF assms(1)] assms(1,2)])
      (use assms(1) idle shim_cq_close_eq [OF i] inv_del_cq [of "w\<lparr>prov := q\<rparr>" for q]
        in \<open>simp_all add: owed_def sess_held_def del_cq_def holds_del\<close>)
qed

lemma op_given_back:
  assumes "owed s w" and "errno_ok E" and "closes_ok E \<Longrightarrow> pp_tx_cq s = 0 \<and> pp_rx_cq s = 0"
  shows "runs (shim_op_free E (pp_tx_op s) w) (given_back E s (s\<lparr>pp_tx_op := 0\<rparr>))"
    and "runs (shim_op_free E (pp_rx_op s) w) (given_back E s (s\<lparr>pp_rx_op := 0\<rparr>))"
proof -
  note i = owed_inv [OF assms(1)]
  have idle: "closes_ok E \<Longrightarrow> o_cq x = 0" if "ops w a = Some x" for a x
    using op_cq_live [OF i that] owed_none(6) [OF assms(1)] assms(3) by auto
  show "runs (shim_op_free E (pp_tx_op s) w) (given_back E s (s\<lparr>pp_tx_op := 0\<rparr>))"
    using owed_alive(12) [OF assms(1)]
  proof (cases rule: aliveE)
    case null
    then have "owed (s\<lparr>pp_tx_op := 0\<rparr>) w" using assms(1) by (simp add: owed_def sess_held_def)
    then show ?thesis using null null_gives_back [OF assms(1)] by simp
  next
    case (live x)
    have "owed (s\<lparr>pp_tx_op := 0\<rparr>) (del_op (pp_tx_op s) w)" if "o_cq x = 0"
      using assms(1) live inv_del_op [OF i live(2) that] by (simp add: owed_def sess_held_def del_op_def holds_del)
    then show ?thesis unfolding shim_op_free_eq [OF i live(2)] runs_Some
      using idle [OF live(2)] assms(1) errno_pos [OF assms(2), of FI_EBUSY] by (auto simp: given_back_def)
  qed
  show "runs (shim_op_free E (pp_rx_op s) w) (given_back E s (s\<lparr>pp_rx_op := 0\<rparr>))"
    using owed_alive(13) [OF assms(1)]
  proof (cases rule: aliveE)
    case null
    then have "owed (s\<lparr>pp_rx_op := 0\<rparr>) w" using assms(1) by (simp add: owed_def sess_held_def)
    then show ?thesis using null null_gives_back [OF assms(1)] by simp
  next
    case (live x)
    have "owed (s\<lparr>pp_rx_op := 0\<rparr>) (del_op (pp_rx_op s) w)" if "o_cq x = 0"
      using assms(1) live inv_del_op [OF i live(2) that] by (simp add: owed_def sess_held_def del_op_def holds_del)
    then show ?thesis unfolding shim_op_free_eq [OF i live(2)] runs_Some
      using idle [OF live(2)] assms(1) errno_pos [OF assms(2), of FI_EBUSY] by (auto simp: given_back_def)
  qed
qed

text \<open>A region and its buffer: the memory goes only after the region.\<close>

lemma inv_free_buffer:
  assumes "inv w" and "\<And>x m. mrs w x = Some m \<Longrightarrow> m_buffer m \<noteq> a"
  shows "inv (w\<lparr>mem := (mem w)(a := None)\<rparr>)"
proof -
  have "mrs_backed (mrs w) ((mem w)(a := None))"
    using assms by (fastforce simp: inv_def mrs_backed_def mr_backed_def)
  then show ?thesis using assms(1) by (simp add: inv_def inv_structure)
qed

lemma owed_buffers:
  assumes "owed s w" and "mrs w x = Some m"
  shows "x = pp_tx_mr s \<and> m_buffer m = pp_tx s \<and> pp_tx s \<noteq> 0 \<or> x = pp_rx_mr s \<and> m_buffer m = pp_rx s \<and> pp_rx s \<noteq> 0"
proof -
  have "holds2 (pp_tx_mr s) (pp_rx_mr s) (mrs w)" using assms(1) by (simp add: owed_def sess_held_def)
  then have "x = pp_tx_mr s \<or> x = pp_rx_mr s" using assms(2) by (rule holds_only)
  moreover have "mr_backed (mem w) m"
    using owed_inv [OF assms(1)] assms(2) by (simp add: inv_def mrs_backed_def)
  then have "m_buffer m \<noteq> 0"
    using inv_nullD(10) [OF owed_inv [OF assms(1)]] by (auto simp: mr_backed_def)
  ultimately show ?thesis using assms by (auto simp: owed_def)
qed

lemma tx_freed:
  assumes "owed s w" and "pp_tx_mr s = 0"
  shows "runs (free_buffer (pp_tx s) w) (owed (s\<lparr>pp_tx := 0\<rparr>))"
proof (cases "pp_tx s = 0")
  case False
  have h: "holds2 (pp_tx s) (pp_rx s) (mem w)" using assms(1) by (simp add: owed_def sess_held_def)
  have null: "mrs w 0 = None" by (rule inv_nullD(8) [OF owed_inv [OF assms(1)]])
  have "m_buffer m \<noteq> pp_tx s" if "mrs w x = Some m" for x m
    using owed_buffers [OF assms(1) that] that null assms(2) holds_apart [OF h] by auto
  then have "inv (w\<lparr>mem := (mem w)(pp_tx s := None)\<rparr>)" by (rule inv_free_buffer [OF owed_inv [OF assms(1)]])
  moreover from holds_alive(2) [OF h] False obtain bs where "mem w (pp_tx s) = Some bs" by (auto simp: alive_def)
  ultimately show ?thesis using assms False null holds_del(2) [OF h False]
    by (simp add: free_buffer_def owed_def sess_held_def)
qed (use assms in \<open>simp add: free_buffer_def owed_def sess_held_def\<close>)

lemma rx_freed:
  assumes "owed s w" and "pp_rx_mr s = 0"
  shows "runs (free_buffer (pp_rx s) w) (owed (s\<lparr>pp_rx := 0\<rparr>))"
proof (cases "pp_rx s = 0")
  case False
  have h: "holds2 (pp_tx s) (pp_rx s) (mem w)" using assms(1) by (simp add: owed_def sess_held_def)
  have null: "mrs w 0 = None" by (rule inv_nullD(8) [OF owed_inv [OF assms(1)]])
  have "m_buffer m \<noteq> pp_rx s" if "mrs w x = Some m" for x m
    using owed_buffers [OF assms(1) that] that null assms(2) holds_apart [OF h] by auto
  then have "inv (w\<lparr>mem := (mem w)(pp_rx s := None)\<rparr>)" by (rule inv_free_buffer [OF owed_inv [OF assms(1)]])
  moreover from holds_alive(3) [OF h] False obtain bs where "mem w (pp_rx s) = Some bs" by (auto simp: alive_def)
  ultimately show ?thesis using assms False null holds_del(3) [OF h False]
    by (simp add: free_buffer_def owed_def sess_held_def)
qed (use assms in \<open>simp add: free_buffer_def owed_def sess_held_def\<close>)

lemma mr_given_back:
  assumes "owed s w" and "errno_ok E" and "closes_ok E \<Longrightarrow> pp_tx_op s = 0 \<and> pp_rx_op s = 0"
  shows "runs (shim_mr_close E (pp_tx_mr s) w) (given_back E s (s\<lparr>pp_tx_mr := 0\<rparr>))"
    and "runs (shim_mr_close E (pp_rx_mr s) w) (given_back E s (s\<lparr>pp_rx_mr := 0\<rparr>))"
proof -
  note i = owed_inv [OF assms(1)]
  have idle: "mrs w a = Some m \<Longrightarrow> closes_ok E \<Longrightarrow> \<not> m_pending m \<noteq> 0" for a m
    using mr_counter [OF i] owed_none(7) [OF assms(1)] assms(3) by auto
  show "runs (shim_mr_close E (pp_tx_mr s) w) (given_back E s (s\<lparr>pp_tx_mr := 0\<rparr>))"
    by (rule give_back [where f = "shim_mr_close E" and busy = "\<lambda>m. m_pending m \<noteq> 0" and raw = m_raw
          and del = "del_mr (pp_tx_mr s)", OF owed_alive(10) [OF assms(1)] assms(1,2)])
      (use assms(1) idle shim_mr_close_eq [OF i] inv_del_mr [of "w\<lparr>prov := q\<rparr>" for q] inv_nullD(8) [OF i]
        in \<open>simp_all add: owed_def sess_held_def del_mr_def holds_del\<close>)
  show "runs (shim_mr_close E (pp_rx_mr s) w) (given_back E s (s\<lparr>pp_rx_mr := 0\<rparr>))"
    by (rule give_back [where f = "shim_mr_close E" and busy = "\<lambda>m. m_pending m \<noteq> 0" and raw = m_raw
          and del = "del_mr (pp_rx_mr s)", OF owed_alive(11) [OF assms(1)] assms(1,2)])
      (use assms(1) idle shim_mr_close_eq [OF i] inv_del_mr [of "w\<lparr>prov := q\<rparr>" for q] inv_nullD(8) [OF i]
        in \<open>simp_all add: owed_def sess_held_def del_mr_def holds_del\<close>)
qed

lemma listener_given_back:
  assumes "owed s w" and "errno_ok E"
  shows "runs (shim_listener_close E (pp_listener s) w) (given_back E s (s\<lparr>pp_listener := 0\<rparr>))"
proof -
  note i = owed_inv [OF assms(1)]
  have idle: "closes_ok E \<Longrightarrow> \<not> False" by simp
  show "runs (shim_listener_close E (pp_listener s) w) (given_back E s (s\<lparr>pp_listener := 0\<rparr>))"
    by (rule give_back [where f = "shim_listener_close E" and busy = "\<lambda>_. False" and raw = l_raw
          and del = "del_listener (pp_listener s)", OF owed_alive(8) [OF assms(1)] assms(1,2)])
      (use assms(1) idle shim_listener_close_eq [OF i] inv_del_listener [of "w\<lparr>prov := q\<rparr>" for q]
        in \<open>simp_all add: owed_def sess_held_def del_listener_def holds_del\<close>)
qed

lemma eq_given_back:
  assumes "owed s w" and "errno_ok E" and "closes_ok E \<Longrightarrow> pp_ep s = 0 \<and> pp_listener s = 0"
  shows "runs (shim_eq_close E (pp_eq s) w) (given_back E s (s\<lparr>pp_eq := 0\<rparr>))"
proof -
  note i = owed_inv [OF assms(1)]
  have idle: "eqs w a = Some e \<Longrightarrow> closes_ok E \<Longrightarrow> \<not> e_users e \<noteq> 0" for a e
    using eq_counter [OF i] owed_none(1,2) [OF assms(1)] assms(3) by auto
  show "runs (shim_eq_close E (pp_eq s) w) (given_back E s (s\<lparr>pp_eq := 0\<rparr>))"
    by (rule give_back [where f = "shim_eq_close E" and busy = "\<lambda>e. e_users e \<noteq> 0" and raw = e_raw
          and del = "del_eq (pp_eq s)", OF owed_alive(5) [OF assms(1)] assms(1,2)])
      (use assms(1) idle shim_eq_close_eq [OF i] inv_del_eq [of "w\<lparr>prov := q\<rparr>" for q]
        in \<open>simp_all add: owed_def sess_held_def del_eq_def holds_del\<close>)
qed

lemma domain_given_back:
  assumes "owed s w" and "errno_ok E"
    and "closes_ok E \<Longrightarrow> pp_ep s = 0 \<and> pp_tx_cq s = 0 \<and> pp_rx_cq s = 0 \<and> pp_tx_mr s = 0 \<and> pp_rx_mr s = 0"
  shows "runs (shim_domain_close E (pp_domain s) w) (given_back E s (s\<lparr>pp_domain := 0\<rparr>))"
proof -
  note i = owed_inv [OF assms(1)]
  have idle: "domains w a = Some d \<Longrightarrow> closes_ok E \<Longrightarrow> \<not> d_children d \<noteq> 0" for a d
    using domain_counter [OF i] owed_none(1,6,8) [OF assms(1)] assms(3) by auto
  show "runs (shim_domain_close E (pp_domain s) w) (given_back E s (s\<lparr>pp_domain := 0\<rparr>))"
    by (rule give_back [where f = "shim_domain_close E" and busy = "\<lambda>d. d_children d \<noteq> 0" and raw = d_raw
          and del = "del_domain (pp_domain s)", OF owed_alive(4) [OF assms(1)] assms(1,2)])
      (use assms(1) idle shim_domain_close_eq [OF i] inv_del_domain [of "w\<lparr>prov := q\<rparr>" for q]
        in \<open>simp_all add: owed_def sess_held_def del_domain_def holds_del\<close>)
qed

lemma fabric_given_back:
  assumes "owed s w" and "errno_ok E" and "closes_ok E \<Longrightarrow> pp_listener s = 0 \<and> pp_eq s = 0 \<and> pp_domain s = 0"
  shows "runs (shim_fabric_close E (pp_fabric s) w) (given_back E s (s\<lparr>pp_fabric := 0\<rparr>))"
proof -
  note i = owed_inv [OF assms(1)]
  have idle: "fabrics w a = Some f \<Longrightarrow> closes_ok E \<Longrightarrow> \<not> f_children f \<noteq> 0" for a f
    using fabric_counter [OF i] owed_none(2,3,4) [OF assms(1)] assms(3) by auto
  show "runs (shim_fabric_close E (pp_fabric s) w) (given_back E s (s\<lparr>pp_fabric := 0\<rparr>))"
    by (rule give_back [where f = "shim_fabric_close E" and busy = "\<lambda>f. f_children f \<noteq> 0" and raw = f_raw
          and del = "\<lambda>_. del_fabric (pp_fabric s)", OF owed_alive(3) [OF assms(1)] assms(1,2)])
      (use assms(1) idle shim_fabric_close_eq inv_del_fabric [of "w\<lparr>prov := q\<rparr>" for q]
        in \<open>simp_all add: owed_def sess_held_def del_fabric_def holds_del\<close>)
qed

lemma info_given_back:
  assumes "owed s w"
  shows "runs (shim_info_free (pp_request s) w) (owed (s\<lparr>pp_request := 0\<rparr>))"
    and "runs (shim_info_free (pp_info s) w) (owed (s\<lparr>pp_info := 0\<rparr>))"
proof -
  note i = owed_inv [OF assms]
  show "runs (shim_info_free (pp_request s) w) (owed (s\<lparr>pp_request := 0\<rparr>))"
    using owed_alive(2) [OF assms]
  proof (cases rule: aliveE)
    case (live x)
    then show ?thesis unfolding shim_info_free_eq [OF i live(2)] runs_Some
      using assms inv_del_info [OF i, of "pp_request s"]
      by (simp add: owed_def sess_held_def fi_freeinfo_def del_info_def holds_del held_count_def)
  qed (use assms in \<open>simp add: owed_def sess_held_def\<close>)
  show "runs (shim_info_free (pp_info s) w) (owed (s\<lparr>pp_info := 0\<rparr>))"
    using owed_alive(1) [OF assms]
  proof (cases rule: aliveE)
    case (live x)
    then show ?thesis unfolding shim_info_free_eq [OF i live(2)] runs_Some
      using assms inv_del_info [OF i, of "pp_info s"]
      by (simp add: owed_def sess_held_def fi_freeinfo_def del_info_def holds_del held_count_def)
  qed (use assms in \<open>simp add: owed_def sess_held_def\<close>)
qed

lemma tx_region_back:
  assumes "owed s w" and "errno_ok E" and "closes_ok E \<Longrightarrow> pp_tx_op s = 0 \<and> pp_rx_op s = 0"
  shows "runs (close_region E name (pp_tx_mr s) (pp_tx s) (failed, w)) (\<lambda>(f, w').
    f = failed \<and> owed (s\<lparr>pp_tx_mr := 0, pp_tx := 0\<rparr>) w' \<or> owed s w' \<and> \<not> closes_ok E)"
proof -
  obtain r w1 where c: "shim_mr_close E (pp_tx_mr s) w = Some (r, w1)"
    and g: "given_back E s (s\<lparr>pp_tx_mr := 0\<rparr>) (r, w1)"
    by (rule runs_cases [OF mr_given_back(1) [OF assms]]) auto
  show ?thesis
  proof (cases "r = 0")
    case True
    then have "owed (s\<lparr>pp_tx_mr := 0\<rparr>) w1" using g by (simp add: given_back_def)
    then have "runs (free_buffer (pp_tx s) w1) (owed (s\<lparr>pp_tx_mr := 0, pp_tx := 0\<rparr>))"
      using tx_freed by fastforce
    then show ?thesis using c True by (auto simp: close_region_def pp_check_def elim!: runs_conseq)
  next
    case False
    then show ?thesis using c g by (simp add: close_region_def given_back_def Let_def)
  qed
qed

lemma rx_region_back:
  assumes "owed s w" and "errno_ok E" and "closes_ok E \<Longrightarrow> pp_tx_op s = 0 \<and> pp_rx_op s = 0"
  shows "runs (close_region E name (pp_rx_mr s) (pp_rx s) (failed, w)) (\<lambda>(f, w').
    f = failed \<and> owed (s\<lparr>pp_rx_mr := 0, pp_rx := 0\<rparr>) w' \<or> owed s w' \<and> \<not> closes_ok E)"
proof -
  obtain r w1 where c: "shim_mr_close E (pp_rx_mr s) w = Some (r, w1)"
    and g: "given_back E s (s\<lparr>pp_rx_mr := 0\<rparr>) (r, w1)"
    by (rule runs_cases [OF mr_given_back(2) [OF assms]]) auto
  show ?thesis
  proof (cases "r = 0")
    case True
    then have "owed (s\<lparr>pp_rx_mr := 0\<rparr>) w1" using g by (simp add: given_back_def)
    then have "runs (free_buffer (pp_rx s) w1) (owed (s\<lparr>pp_rx_mr := 0, pp_rx := 0\<rparr>))"
      using rx_freed by fastforce
    then show ?thesis using c True by (auto simp: close_region_def pp_check_def elim!: runs_conseq)
  next
    case False
    then show ?thesis using c g by (simp add: close_region_def given_back_def Let_def)
  qed
qed

subsection \<open>The sequence of closes\<close>

text \<open>The objects in the order of their release; \<open>closing E s0 k\<close> holds after the first \<open>k\<close>.\<close>

definition held_list :: "session \<Rightarrow> addr list" where
  "held_list s = [pp_ep s, pp_tx_cq s, pp_rx_cq s, pp_tx_op s, pp_rx_op s, pp_tx_mr s, pp_tx s, pp_rx_mr s,
     pp_rx s, pp_listener s, pp_eq s, pp_domain s, pp_fabric s, pp_request s, pp_info s]"

definition nulls :: "nat \<Rightarrow> session \<Rightarrow> bool" where
  "nulls k s \<longleftrightarrow> list_all (\<lambda>a. a = 0) (take k (held_list s))"

definition closing :: "'p lib \<Rightarrow> session \<Rightarrow> nat \<Rightarrow> bool \<times> 'p world \<Rightarrow> bool" where
  "closing E s0 k = (\<lambda>(failed, w). \<exists>s. owed s w \<and> drop k (held_list s) = drop k (held_list s0) \<and>
     (closes_ok E \<longrightarrow> nulls k s \<and> \<not> failed))"

lemma drop_later: "drop k xs = drop k ys \<Longrightarrow> k \<le> n \<Longrightarrow> drop n xs = drop n ys"
  by (metis drop_drop le_add_diff_inverse2)

lemma closing_next:
  fixes w :: "'a world"
  assumes "closing E s0 k (failed, w)"
    and "\<And>s. owed s w \<Longrightarrow> drop k (held_list s) = drop k (held_list s0) \<Longrightarrow> (closes_ok E \<Longrightarrow> nulls k s) \<Longrightarrow>
      runs m (\<lambda>(f, w'). f = failed \<and> owed (g s) w' \<or> owed s w' \<and> \<not> closes_ok E)"
    and "\<And>s. drop k (held_list s) = drop k (held_list s0) \<Longrightarrow> drop n (held_list (g s)) = drop n (held_list s0)"
    and "\<And>s. nulls k s \<Longrightarrow> nulls n (g s)" and "k \<le> n"
  shows "runs m (closing E s0 n)"
proof -
  from assms(1) obtain s where s: "owed s w" "drop k (held_list s) = drop k (held_list s0)"
    "closes_ok E \<longrightarrow> nulls k s \<and> \<not> failed" by (auto simp: closing_def)
  have "runs m (\<lambda>(f, w'). f = failed \<and> owed (g s) w' \<or> owed s w' \<and> \<not> closes_ok E)"
    using assms(2) [OF s(1,2)] s(3) by blast
  then show ?thesis
  proof (rule runs_conseq, clarify)
    fix f and w' :: "'a world"
    assume "f = failed \<and> owed (g s) w' \<or> owed s w' \<and> \<not> closes_ok E"
    then show "closing E s0 n (f, w')"
      using s assms(3) [OF s(2)] assms(4) drop_later [OF s(2) assms(5)] by (auto simp: closing_def)
  qed
qed

lemma close_next:
  fixes c :: "bool \<times> 'p world"
  assumes "closing E s0 k c"
    and "\<And>s (w :: 'p world). owed s w \<Longrightarrow> (closes_ok E \<Longrightarrow> nulls k s) \<Longrightarrow> runs (f (field s) w) (given_back E s (g s))"
    and "\<And>s. drop k (held_list s) = drop k (held_list s0) \<Longrightarrow> field s = field s0 \<and> drop n (held_list (g s)) = drop n (held_list s0)"
    and "\<And>s. nulls k s \<Longrightarrow> nulls n (g s)" and "n = Suc k"
  shows "runs (pp_close E name f (field s0) c) (closing E s0 n)"
proof -
  obtain failed w where c: "c = (failed, w)" by (metis prod.exhaust)
  show ?thesis
  proof (rule closing_next [of E s0 k failed w _ g])
    fix s assume s: "owed s w" "drop k (held_list s) = drop k (held_list s0)" "closes_ok E \<Longrightarrow> nulls k s"
    have "runs (f (field s0) w) (given_back E s (g s))" using assms(2) [OF s(1,3)] assms(3) [OF s(2)] by simp
    then show "runs (pp_close E name f (field s0) c) (\<lambda>(x, w'). x = failed \<and> owed (g s) w' \<or> owed s w' \<and> \<not> closes_ok E)"
      by (auto simp: pp_close_def c given_back_def elim!: runs_conseq split: if_splits)
  qed (use assms c in auto)
qed

lemma region_next:
  fixes c :: "bool \<times> 'p world"
  assumes "closing E s0 k c"
    and "\<And>s (w :: 'p world) failed. owed s w \<Longrightarrow> (closes_ok E \<Longrightarrow> nulls k s) \<Longrightarrow>
      runs (close_region E name (mr s) (buf s) (failed, w)) (\<lambda>(f, w'). f = failed \<and> owed (g s) w' \<or> owed s w' \<and> \<not> closes_ok E)"
    and "\<And>s. drop k (held_list s) = drop k (held_list s0) \<Longrightarrow>
      mr s = mr s0 \<and> buf s = buf s0 \<and> drop n (held_list (g s)) = drop n (held_list s0)"
    and "\<And>s. nulls k s \<Longrightarrow> nulls n (g s)" and "k \<le> n"
  shows "runs (close_region E name (mr s0) (buf s0) c) (closing E s0 n)"
proof -
  obtain failed w where c: "c = (failed, w)" by (metis prod.exhaust)
  show ?thesis
  proof (rule closing_next [of E s0 k failed w _ g])
    fix s assume s: "owed s w" "drop k (held_list s) = drop k (held_list s0)" "closes_ok E \<Longrightarrow> nulls k s"
    show "runs (close_region E name (mr s0) (buf s0) c) (\<lambda>(x, w'). x = failed \<and> owed (g s) w' \<or> owed s w' \<and> \<not> closes_ok E)"
      using assms(2) [OF s(1,3), of failed] assms(3) [OF s(2)] c by simp
  qed (use assms c in auto)
qed

text \<open>Each line of the cleanup takes the sequence one step further.\<close>

lemma next_ep:
  assumes "closing E s0 0 c" and "errno_ok E"
  shows "runs (pp_close E name (shim_endpoint_close E) (pp_ep s0) c) (closing E s0 1)"
  by (rule close_next [OF assms(1), where g = "pp_ep_update (\<lambda>_. 0)"], rule ep_given_back [OF _ assms(2)])
    (auto simp: held_list_def nulls_def)

lemma next_tx_cq:
  assumes "closing E s0 1 c" and "errno_ok E"
  shows "runs (pp_close E name (shim_cq_close E) (pp_tx_cq s0) c) (closing E s0 2)"
  by (rule close_next [OF assms(1), where g = "pp_tx_cq_update (\<lambda>_. 0)"], rule cq_given_back(1) [OF _ assms(2)])
    (auto simp: held_list_def nulls_def)

lemma next_rx_cq:
  assumes "closing E s0 2 c" and "errno_ok E"
  shows "runs (pp_close E name (shim_cq_close E) (pp_rx_cq s0) c) (closing E s0 3)"
  by (rule close_next [OF assms(1), where g = "pp_rx_cq_update (\<lambda>_. 0)"], rule cq_given_back(2) [OF _ assms(2)])
    (auto simp: held_list_def nulls_def)

lemma next_tx_op:
  assumes "closing E s0 3 c" and "errno_ok E"
  shows "runs (pp_close E name (shim_op_free E) (pp_tx_op s0) c) (closing E s0 4)"
  by (rule close_next [OF assms(1), where g = "pp_tx_op_update (\<lambda>_. 0)"], rule op_given_back(1) [OF _ assms(2)])
    (auto simp: held_list_def nulls_def)

lemma next_rx_op:
  assumes "closing E s0 4 c" and "errno_ok E"
  shows "runs (pp_close E name (shim_op_free E) (pp_rx_op s0) c) (closing E s0 5)"
  by (rule close_next [OF assms(1), where g = "pp_rx_op_update (\<lambda>_. 0)"], rule op_given_back(2) [OF _ assms(2)])
    (auto simp: held_list_def nulls_def)

lemma next_tx:
  assumes "closing E s0 5 c" and "errno_ok E"
  shows "runs (close_region E name (pp_tx_mr s0) (pp_tx s0) c) (closing E s0 7)"
  by (rule region_next [OF assms(1), where g = "\<lambda>s. s\<lparr>pp_tx_mr := 0, pp_tx := 0\<rparr>"], rule tx_region_back [OF _ assms(2)])
    (auto simp: held_list_def nulls_def)

lemma next_rx:
  assumes "closing E s0 7 c" and "errno_ok E"
  shows "runs (close_region E name (pp_rx_mr s0) (pp_rx s0) c) (closing E s0 9)"
  by (rule region_next [OF assms(1), where g = "\<lambda>s. s\<lparr>pp_rx_mr := 0, pp_rx := 0\<rparr>"], rule rx_region_back [OF _ assms(2)])
    (auto simp: held_list_def nulls_def)

lemma next_listener:
  assumes "closing E s0 9 c" and "errno_ok E"
  shows "runs (pp_close E name (shim_listener_close E) (pp_listener s0) c) (closing E s0 10)"
  by (rule close_next [OF assms(1), where g = "pp_listener_update (\<lambda>_. 0)"], rule listener_given_back [OF _ assms(2)])
    (auto simp: held_list_def nulls_def)

lemma next_eq:
  assumes "closing E s0 10 c" and "errno_ok E"
  shows "runs (pp_close E name (shim_eq_close E) (pp_eq s0) c) (closing E s0 11)"
  by (rule close_next [OF assms(1), where g = "pp_eq_update (\<lambda>_. 0)"], rule eq_given_back [OF _ assms(2)])
    (auto simp: held_list_def nulls_def)

lemma next_domain:
  assumes "closing E s0 11 c" and "errno_ok E"
  shows "runs (pp_close E name (shim_domain_close E) (pp_domain s0) c) (closing E s0 12)"
  by (rule close_next [OF assms(1), where g = "pp_domain_update (\<lambda>_. 0)"], rule domain_given_back [OF _ assms(2)])
    (auto simp: held_list_def nulls_def)

lemma next_fabric:
  assumes "closing E s0 12 c" and "errno_ok E"
  shows "runs (pp_close E name (shim_fabric_close E) (pp_fabric s0) c) (closing E s0 13)"
  by (rule close_next [OF assms(1), where g = "pp_fabric_update (\<lambda>_. 0)"], rule fabric_given_back [OF _ assms(2)])
    (auto simp: held_list_def nulls_def)

end
