(* ===== verification/Pingpong_Spec.thy ===== *)
theory Pingpong_Spec
  imports Pingpong_Clean
begin

text \<open>
  What the C example promises as a whole: \<open>main\<close> returns, never touches memory it may not
  touch, and gives back everything it opened.
\<close>

subsection \<open>Before the closes\<close>

lemma reject_request:
  assumes "sess_ok s w"
  shows "runs (shim_reject E (pp_listener s) (pp_request s) w) (\<lambda>(r, w'). sess_ok s w')"
proof (cases "pp_listener s = 0 \<or> pp_request s = 0")
  case False
  then obtain y x where l: "listeners w (pp_listener s) = Some y" "infos w (pp_request s) = Some x"
    using sess_alive(2,8) [OF assms] by (auto simp: alive_def)
  have "sess_ok s (add_info (pp_request s) (raw\<lparr>fi_handle := 0\<rparr>) (w\<lparr>prov := p\<rparr>))" if "info_wf raw" for raw p
  proof (rule sess_still [OF assms])
    show "still w (add_info (pp_request s) (raw\<lparr>fi_handle := 0\<rparr>) (w\<lparr>prov := p\<rparr>))"
      using l(2) by (auto simp: still_def add_info_def)
    show "inv (add_info (pp_request s) (raw\<lparr>fi_handle := 0\<rparr>) (w\<lparr>prov := p\<rparr>))"
      using sess_inv [OF assms] that False by (auto intro!: inv_add_info simp: info_wf_def)
  qed
  then show ?thesis
    by (intro runs_conseq [OF shim_reject_spec [OF sess_inv [OF assms] l]]) (use assms in auto)
next
  case True
  moreover have "alive (listeners w) (pp_listener s)" by (rule sess_alive(8) [OF assms])
  ultimately show ?thesis using assms by (auto simp: shim_reject_def alive_def)
qed

lemma shutdown_endpoint:
  assumes "sess_ok s w"
  shows "runs (shim_shutdown E (pp_ep s) w) (\<lambda>(r, w'). sess_ok s w')"
proof (cases "pp_ep s = 0")
  case False
  then obtain p where l: "endpoints w (pp_ep s) = Some p" using sess_alive(9) [OF assms] by (auto simp: alive_def)
  have "sess_ok s (w\<lparr>endpoints := (endpoints w)(pp_ep s \<mapsto> p\<lparr>p_closing := True\<rparr>), prov := q\<rparr>)" for q
  proof (rule sess_still [OF assms])
    show "still w (w\<lparr>endpoints := (endpoints w)(pp_ep s \<mapsto> p\<lparr>p_closing := True\<rparr>), prov := q\<rparr>)"
      using l by (simp add: still_def same_under_upd)
    show "inv (w\<lparr>endpoints := (endpoints w)(pp_ep s \<mapsto> p\<lparr>p_closing := True\<rparr>), prov := q\<rparr>)"
      using inv_upd_endpoint [OF sess_inv [OF assms] l] by simp
  qed
  then show ?thesis
    by (intro runs_conseq [OF shim_shutdown_spec [OF sess_inv [OF assms] l]]) (use assms in auto)
qed (use assms in simp)

subsection \<open>Cleanup\<close>

text \<open>No object of any kind is live, and no block of memory.\<close>

definition nothing_left :: "'p world \<Rightarrow> bool" where
  "nothing_left w \<longleftrightarrow> fabrics w = Map.empty \<and> domains w = Map.empty \<and> eqs w = Map.empty \<and>
     cqs w = Map.empty \<and> listeners w = Map.empty \<and> endpoints w = Map.empty \<and> mrs w = Map.empty \<and>
     ops w = Map.empty \<and> mem w = Map.empty"

definition cleaned :: "'p lib \<Rightarrow> int \<times> 'p world \<Rightarrow> bool" where
  "cleaned E = (\<lambda>(r, w). inv w \<and> infos w = Map.empty \<and> fi_lists w = 0 \<and>
     (closes_ok E \<longrightarrow> r = 0 \<and> nothing_left w))"

lemma closed_infos:
  assumes "closing E s0 13 (failed, w)"
  shows "runs (Option.bind (shim_info_free (pp_request s0) w) (\<lambda>w. Option.bind (shim_info_free (pp_info s0) w)
    (\<lambda>w. Some (if failed then -1 else 0, w)))) (cleaned E)"
proof -
  obtain s where s: "owed s w" "pp_request s = pp_request s0" "pp_info s = pp_info s0"
    and ok: "closes_ok E \<longrightarrow> nulls 13 s \<and> \<not> failed"
    using assms by (auto simp: closing_def held_list_def)
  obtain w1 where w1: "shim_info_free (pp_request s0) w = Some w1" "owed (s\<lparr>pp_request := 0\<rparr>) w1"
    using info_given_back(1) [OF s(1)] s(2) by (auto simp: runs_Ex)
  obtain w2 where w2: "shim_info_free (pp_info s0) w1 = Some w2" "owed (s\<lparr>pp_request := 0, pp_info := 0\<rparr>) w2"
    using info_given_back(2) [OF w1(2)] s(3) by (auto simp: runs_Ex)
  have "infos w2 = Map.empty \<and> fi_lists w2 = 0" using owed_none(10) [OF w2(2)] by simp
  moreover have "nothing_left w2" if "nulls 13 s"
    using owed_none(1-9) [OF w2(2)] that by (simp add: nothing_left_def nulls_def held_list_def)
  ultimately show ?thesis using w1(1) w2(1) ok owed_inv [OF w2(2)] by (simp add: cleaned_def)
qed

lemma cleanup_spec:
  fixes E :: "'p lib" and w :: "'p world"
  assumes s: "sess_ok s w" and E: "errno_ok E"
  shows "runs (cleanup E s w) (cleaned E)"
proof -
  have reject: "runs (if b then Option.bind (shim_reject E (pp_listener s) (pp_request s) w)
      (\<lambda>(ret, w). Some (pp_check E ret name w)) else Some w) (sess_ok s)" for b name
    using reject_request [OF s, of E] s by (auto elim!: runs_conseq)
  have shutdown: "runs (if b then Option.bind (shim_shutdown E (pp_ep s) v) (\<lambda>(_, w). Some w) else Some v) (sess_ok s)"
    if "sess_ok s v" for b and v :: "'p world"
    using shutdown_endpoint [OF that, of E] that by (auto elim!: runs_conseq)
  have start: "closing E s 0 (False, v)" if "sess_ok s v" for v :: "'p world"
    using sess_owed [OF that] by (auto simp: closing_def nulls_def)
  show ?thesis unfolding cleanup_def runs_bind
    by (intro runs_conseq [OF reject] runs_conseq [OF shutdown] runs_conseq [OF next_ep [OF start E]]
        runs_conseq [OF next_tx_cq [OF _ E]] runs_conseq [OF next_rx_cq [OF _ E]]
        runs_conseq [OF next_tx_op [OF _ E]] runs_conseq [OF next_rx_op [OF _ E]]
        runs_conseq [OF next_tx [OF _ E]] runs_conseq [OF next_rx [OF _ E]]
        runs_conseq [OF next_listener [OF _ E]] runs_conseq [OF next_eq [OF _ E]]
        runs_conseq [OF next_domain [OF _ E]] runs_conseq [OF next_fabric [OF _ E]])
      (auto dest: closed_infos)
qed

subsection \<open>The program\<close>

lemma pingpong_main_runs:
  assumes "lib_ok E"
  shows "runs (pingpong_main E argv (empty_world p)) (\<lambda>(status, w'). inv w' \<and> infos w' = Map.empty \<and>
    fi_lists w' = 0 \<and> (closes_ok E \<longrightarrow> nothing_left w'))"
proof (cases "length argv < 4 \<or> length argv > 5 \<or> argv ! 1 \<noteq> ''server'' \<and> argv ! 1 \<noteq> ''client''")
  case True
  have "inv (eprintln t (empty_world p))" for t using inv_empty_world [of p] by (simp add: eprintln_def)
  then show ?thesis using True
    by (simp add: pingpong_main_def eprintln_def empty_world_def nothing_left_def)
next
  case False
  have fresh: "reached 1 session_start" by (simp add: reached_def fresh_from_def session_start_def)
  have run: "runs (exchange_run E server ip port domain (session_start, empty_world p))
      (\<lambda>(ok, (s', w')). sess_ok s' w')" for server ip port domain
    using legs_run [of E server ip port domain] assms sess_start_ok [of p] fresh
    unfolding legs_def by (fastforce elim!: runs_conseq)
  let ?server = "argv ! 1 = ''server''" and ?domain = "if length argv = 5 then Some (argv ! 4) else None"
  obtain ok s' w1 where x: "exchange_run E ?server (argv ! 2) (argv ! 3) ?domain (session_start, empty_world p) = Some (ok, s', w1)"
    and s': "sess_ok s' w1"
    by (rule runs_cases [OF run [of ?server "argv ! 2" "argv ! 3" ?domain]]) auto
  obtain r w2 where "cleanup E s' w1 = Some (r, w2)" "cleaned E (r, w2)"
    by (rule runs_cases [OF cleanup_spec [OF s' lib_okD(1) [OF assms]]]) auto
  then show ?thesis using False x by (auto simp: pingpong_main_def Let_def cleaned_def)
qed

end
