(* ===== verification/Pingpong_Demo.thy ===== *)
theory Pingpong_Demo
  imports Demo Pingpong_Spec
begin

text \<open>
  The C example as a client over the test double: the peer answers \<open>hello\<close> with \<open>world\<close>,
  and \<open>main\<close> returns the exit status of success.
\<close>

lemma pp_check_ok: "0 \<le> r \<Longrightarrow> pp_check E r t w = w"
  by (simp add: pp_check_def)

lemma pp_check_weak: "r = r' \<Longrightarrow> w = w' \<Longrightarrow> pp_check E r t w = pp_check E r' t w'"
  by simp

lemmas pingpong_eval = pingpong_main_def exchange_run_def in_order.simps TRY_def into_def on_session_def
  quoted_def listening_def calloc_buffers_def active_info_def prepare_endpoint_def join_peer_def
  exchange_messages_def wait_data_def wait_data_round_def received_text_def send_message_def
  post_receive_def submit_round_def progress_def progress_eq_def progress_cq_def wait_event_def
  wait_event_round_def turn_away_def five_seconds_def poll_until.simps read_bytes_def memcpy_to_def
  borrowed_def free_buffer_def calloc_buffer_def pp_check_ok CAPACITY_def session_start_def
  cleanup_def pp_close_def close_region_def from_secs_def

lemma pingpong_passes:
  "\<exists>w'. pingpong_main (demo_lib False) [''shim_pingpong'', ''client'', ''10.0.0.1'', ''7471''] demo_client = Some (0, w')"
  by (simp add: pingpong_eval demo_eval cong: demo_congs pp_check_weak)

end
