(* ===== verification/Spec2Isabelle.thy ===== *)
theory Spec2Isabelle
  imports Demo Shim_Facts Print_Info Text_Spec Unit_Tests Giving_Up Shim_Tests Build_Script Pingpong_Demo
begin

text \<open>
  A verification of the RDMA prototype: a C shim over libfabric
  (\<^verbatim>\<open>src/naive/fabric_shim.c\<close>), the Rust owners of its handles (\<^verbatim>\<open>src/src/transport.rs\<close>,
  \<^verbatim>\<open>src/src/fabric.rs\<close>, declarations in \<^verbatim>\<open>src/src/ffi.rs\<close>) and two programs that exchange
  \<open>hello\<close>, \<open>world\<close> and \<open>ack\<close> over one connection (\<^verbatim>\<open>src/src/bin/clients.rs\<close>,
  \<^verbatim>\<open>src/src/bin/server.rs\<close>).

  \<^bold>\<open>The program.\<close> The shim wraps every libfabric object in a heap structure that counts what
  depends on it (a domain counts its queues, endpoints and regions, a completion queue the
  operations posted to it, and so on) and refuses a close while the count is not zero. The
  Rust side owns the shim's handles, closes them in dependency order, retries on \<open>FI_EAGAIN\<close>,
  and must never free a buffer that the device may still write. The two programs are event
  loops with a deadline over \<open>Connection::poll\<close> and \<open>Connection::send\<close>.

  \<^bold>\<open>The model.\<close> Code that runs in the C heap is a function from a \<open>world\<close> to a result and a
  new \<open>world\<close>: one finite map of live objects per structure type, the memory of the boxed
  buffers, the provider's own state, the clock's reading count and the console. The outcome
  is \<open>None\<close> when the code would dereference an address that is not live, panics, or does not
  return; \<open>runs m Q\<close> says that \<open>m\<close> returns and its result satisfies \<open>Q\<close>, so every theorem
  that uses it, or has an equation with \<open>Some\<close> as its conclusion, excludes all three.
  libfabric, the allocator's decisions and the clock are the fields of one record \<open>'p lib\<close>
  that every definition takes as an argument (\<open>Libfabric\<close>); nothing about them is defined.
  Rust's \<open>Result\<close> is a sum, \<open>?\<close> is \<open>qmark\<close>, \<open>&mut self\<close> is a value handed through.

  \<^bold>\<open>Theories.\<close>
  \<^item> \<open>Prelude\<close>, \<open>Libfabric\<close>: \<open>runs\<close> and its rules, C integer casts, counted maps; the library's
    interface and the documented behaviour used as hypotheses.
  \<^item> \<open>Shim_Heap\<close>, \<open>Shim_Info\<close>, \<open>Shim_Open\<close>, \<open>Shim_Io\<close>, \<open>Shim_Close\<close>: the structures and every
    function of \<^verbatim>\<open>fabric_shim.c\<close>; \<open>Print_Info\<close>: \<^verbatim>\<open>shim_print_info\<close> and \<^verbatim>\<open>fabric::print_info\<close>.
  \<^item> \<open>Shim_Ledger\<close>: the abstract specification of the shim, a ledger of live resources with
    one step per kind of operation, and its invariant \<open>inv\<close>: parents are live, the counters
    equal the number of dependants, the operation lists of the queues are exact.
    \<open>Shim_Refine_Open\<close>, \<open>Shim_Refine_Close\<close>, \<open>Shim_Refine_Io\<close>, \<open>Shim_Refine_Info\<close>,
    \<open>Shim_Refine_Cm\<close>: each C function performs exactly one ledger step or none.
  \<^item> \<open>Shim_Contract\<close>: the close and open contracts as locales, interpreted on the shim.
    \<open>Shim_Api\<close>: the calls that change state as one datatype, the step relation of a
    whole process, and its invariant over every history of calls; \<open>Shim_Facts\<close>: consequences.
  \<^item> \<open>Transport\<close>, \<open>Connection\<close>: \<^verbatim>\<open>transport.rs\<close>, that is \<open>check\<close>, \<open>close!\<close>, \<open>Info\<close>, \<open>Fabric\<close>,
    \<open>Listener\<close>, \<open>Request\<close>, \<open>Slot\<close>, \<open>Connection\<close>, with their \<open>Drop\<close>s. \<open>Fabric\<close>: the version of
    \<^verbatim>\<open>fabric.rs\<close> and the argument checks of both \<open>main\<close>s.
  \<^item> \<open>Conn_Inv\<close>, \<open>Conn_Steps\<close>: the invariant \<open>conn_ok\<close> of a connection relative to the world it
    was created in, kept by each ledger step; \<open>Conn_Close\<close>, \<open>Conn_Io\<close>, \<open>Conn_Setup\<close>,
    \<open>Conn_Request\<close>: its methods keep it. \<open>Transport_Spec\<close>, \<open>Listener_Spec\<close>: the other owners.
  \<^item> \<open>Client\<close>, \<open>Server\<close>: the two programs. \<open>Client_Spec\<close>: the event loop over any transport (the
    locale \<open>client_io\<close>, interpreted on \<open>Connection\<close>), \<open>run\<close> and \<open>main\<close>; \<open>Server_Spec\<close>: the same
    for the server. \<open>Timed_Loop\<close>: the contract of a loop with a deadline (the locale
    \<open>timed_loop\<close>); the client's loop inherits it by a sublocale, the server's loop and the
    wait for a request are interpretations. \<open>Client_Trace\<close>: a
    successful run of the client is a trace of its step relation. \<open>Client_Double\<close>,
    \<open>Unit_Tests\<close>: the scripted transports and the unit tests of both programs.
  \<^item> \<open>Session\<close>: both programs observed through a log of what their connection polls and
    accepts. \<open>Protocol\<close>: client and server composed over two ordered channels, all
    interleavings. \<open>Shutdown\<close>: the composition with closes, a stuttering refinement onto
    \<open>Protocol\<close>. \<open>Event_Order\<close>: events commute, and the final state is unique. \<open>Giving_Up\<close>:
    either side may leave at any moment, and the outcomes still agree; \<open>Replay\<close> makes the
    composition executable, move by move.
  \<^item> \<open>Shim_Tests\<close>: the life-cycle test \<^verbatim>\<open>tests/shim_lifecycle.c\<close> and the link test over the
    model of the shim. \<open>Pingpong\<close>: the C example \<^verbatim>\<open>examples/shim_pingpong.c\<close>; \<open>Pingpong_Inv\<close>: the
    invariant of its session, \<open>Pingpong_Open\<close>, \<open>Pingpong_Wait\<close>, \<open>Pingpong_Run\<close>: opens, waits and
    the whole of \<open>main\<close> keep it, \<open>Pingpong_Clean\<close>, \<open>Pingpong_Spec\<close>: the cleanup gives back what
    it holds; \<open>Pingpong_Demo\<close>: a run that succeeds. \<open>Build_Script\<close>: \<^verbatim>\<open>build.rs\<close> over its two build crates. \<open>Text_Spec\<close>:
    number parsing and lossy text. \<open>Demo\<close>: a test double of the library that satisfies the hypotheses; the witnesses run the programs on it.

  \<^bold>\<open>Hypotheses on the library\<close>, each from its documentation and each shown satisfiable in
  \<open>Demo\<close>: \<open>errno_ok\<close> (error codes are distinct positive 32-bit numbers), \<open>infos_ok\<close> and
  \<open>results_ok\<close> (information records carry their attribute structures), \<open>clock_advances\<close> (time
  passes every bound). \<open>closes_ok\<close> (a provider that never refuses a close) is assumed only where
  a statement says that everything was given back. \<open>start_ok\<close> collects the state in
  which a program starts: a consistent world and two fresh addresses for its buffers.

  \<^bold>\<open>Termination.\<close> The loops with a deadline are \<open>partial_function (option)\<close>; they return because
  every round reads the clock, and the variant is the number of readings left before the
  clock has passed the deadline for good. The walk and the drain of operation lists are
  bounded by the invariant's list. No fuel is used anywhere.

  \<^bold>\<open>Not modelled.\<close> \<^verbatim>\<open>lib.rs\<close> (three module declarations); \<^verbatim>\<open>chunk.rs\<close>, \<^verbatim>\<open>download.rs\<close>,
  \<^verbatim>\<open>protocol.rs\<close> (empty files); the shell script that runs the tests.
  Sleeping between rounds has no effect but time, which the clock parameter
  already leaves free. Memory is a map from the boxes' addresses to their bytes: the two boxes
  of a connection are placed by the allocator, so their addresses are arguments. The threads a
  provider may run are seen only through what its calls return.
\<close>

section \<open>The programs\<close>

text \<open>
  C1. The client program, from the query to the last close: under the documented behaviour of
  the library it always returns, whichever step fails and whatever the provider does; no step
  dereferences a dangling pointer; the object graph is consistent when it returns; and when
  the provider's closes succeed, every object, registration and buffer is given back.
\<close>

theorem client_run_clean:
  assumes "start_ok E tx_buf rx_buf w"
  shows "\<exists>r w'. client_run E tx_buf rx_buf ip port domain timeout w = Some (r, w') \<and> inv w' \<and>
    (closes_ok E \<longrightarrow> restored E w w')"
  using client_run_spec [OF assms, of ip port domain timeout]
  by (auto simp: runs_Ex left_def scope_def)

theorem client_run_clean_witness:
  "\<exists>w'. client_run (demo_lib False) 1 2 ''10.0.0.1'' ''7471'' None 30 demo_client = Some (Inr (), w') \<and>
    inv w' \<and> restored (demo_lib False) demo_client w'"
proof -
  have "\<exists>w'. client_run (demo_lib False) 1 2 ''10.0.0.1'' ''7471'' None 30 demo_client = Some (Inr (), w')"
    by (simp add: demo_eval cong: demo_congs)
  with client_run_clean [OF demo_start_ok(1) [of False], of "''10.0.0.1''" "''7471''" None 30]
    demo_closes_ok [of False]
  show ?thesis by auto
qed











text \<open>
  C7. Either side may leave at any moment, at its deadline or after an error, with messages
  still under way. Every run still ends, with both sides gone; what remains of the exchange
  raises no protocol error, and the outcomes agree: a server that succeeds was greeted and
  acknowledged by a client that has received its reply, and a client that succeeds knows that
  at most its last message is still on its way to the server.
\<close>

theorem giving_up_agrees:
  assumes "(part_step ^^ k) part_start p" and "n = talk p"
  shows "k \<le> 14 \<and> ((\<exists>q. part_step p q) \<longleftrightarrow> \<not> (cl_left p \<and> sv_left p)) \<and>
    (Server.complete (sv n) \<longrightarrow> hello_completed (cl n) \<and> world_received (cl n) \<and> ack_posted (cl n)) \<and>
    (Client.complete (cl n) \<longrightarrow> phase (sv n) = P_Done \<or> phase (sv n) = P_Ack \<and> to_sv n = [''ack'']) \<and>
    (\<forall>m ms. to_cl n = m # ms \<longrightarrow> fst (Client.on_event (Received m) (cl n)) = Inr ()) \<and>
    (\<forall>m ms. to_sv n = m # ms \<longrightarrow> fst (Server.on_event (Received m) (sv n)) = Inr ()) \<and>
    (0 < cl_flight n \<longrightarrow> fst (Client.on_event Sent (cl n)) = Inr ())"
proof -
  have i: "part_inv p" using part_runs [OF assms(1)] by simp
  then show ?thesis
    using part_exact [OF assms(1)] part_agreed [OF i] unclosed_welcome
    unfolding assms(2) agreed_def part_inv_def by blast
qed

theorem giving_up_agrees_witness:
  "\<exists>p. (part_step ^^ 12) part_start p \<and> Client.complete (cl (talk p)) \<and> \<not> Server.complete (sv (talk p)) \<and>
    to_sv (talk p) = [''ack''] \<and> (\<nexists>q. part_step p q)"
proof (rule lost_ack_run)
  fix n
  let ?p = "part_start\<lparr>talk := n, cl_left := True, sv_left := True\<rparr>"
  assume r: "(part_step ^^ 12) part_start ?p" and n: "Client.complete (cl n)" "phase (sv n) = P_Ack"
  from giving_up_agrees [OF r refl] n show ?thesis
    by (intro exI [of _ ?p]) (simp add: r Server.complete_def)
qed

text \<open>
  C8. The client's \<open>main\<close>: with any arguments it returns, consistent and with everything given
  back when closes succeed; a run it reports as successful had a valid timeout and ends with
  the success line on the console.
\<close>

theorem client_main_total:
  assumes "start_ok E tx_buf rx_buf w"
  shows "\<exists>r w'. client_main E tx_buf rx_buf args w = Some (r, w') \<and> inv w' \<and>
    (closes_ok E \<longrightarrow> restored E w w') \<and>
    (r = Inr () \<longrightarrow> (\<exists>n usage. parse_timeout usage args = Inr n \<and> 1 \<le> n \<and> n \<le> 3600) \<and>
      last (console w') = ''hello sent, world verified, ack sent; resources closed'')"
proof -
  obtain r w' where m: "client_main E tx_buf rx_buf args w = Some (r, w')" and l: "left E w w'"
    using client_main_spec [OF assms, of args] by (auto simp: runs_Ex)
  have "(\<exists>n usage. parse_timeout usage args = Inr n \<and> 1 \<le> n \<and> n \<le> 3600) \<and>
      last (console w') = ''hello sent, world verified, ack sent; resources closed''" if ok: "r = Inr ()"
  proof -
    let ?u = "''usage: clients <server-rxe-ip> [port=7471] [local-domain] [timeout-seconds=30]''"
    obtain n where n: "parse_timeout ?u args = Inr n"
      using m ok by (cases "parse_timeout ?u args") (auto simp: client_main_def)
    moreover have "last (console w') = ''hello sent, world verified, ack sent; resources closed''"
      using m ok unfolding client_main_def n Let_def sum.case bind_eq_Some_conv
      by (elim exE conjE) (auto simp: println_def split: prod.splits bind_splits sum.splits)
    ultimately show ?thesis using parse_timeout_bounds(1,2) [OF n] by blast
  qed
  with m l show ?thesis by (auto simp: left_def scope_def)
qed

theorem client_main_total_witness:
  "\<exists>r w'. client_main (demo_lib False) 1 2 [''10.0.0.1''] demo_client = Some (r, w') \<and>
    inv w' \<and> restored (demo_lib False) demo_client w'"
  using client_main_total [OF demo_start_ok(1) [of False], of "[''10.0.0.1'']"] demo_closes_ok [of False]
  by auto



text \<open>
  C10. The event loop of the client is exact: over any implementation of its transport, a run
  that reports success has accepted exactly the messages \<open>hello\<close> and \<open>ack\<close>, in this order,
  was connected, received exactly one reply, \<open>world\<close>, and saw exactly two completions. The
  transport is observed through a log that changes neither the result nor the state.
\<close>

theorem client_success_exact:
  assumes "run_exchange E io_poll io_send timeout (io, w) = Some (Inr (), io', w')"
  shows "\<exists>ls. run_exchange E (logged_poll io_poll) (logged_send io_send) timeout (([], io), w) =
      Some (Inr (), (ls, io'), w') \<and>
    puts ls = [''hello'', ''ack''] \<and> replies ls = [''world''] \<and> sents ls = 2 \<and> Got Connected \<in> set ls"
  using run_exchange_trace [OF assms] complete_trace by blast

theorem client_success_exact_witness:
  "\<exists>ls w'. run_exchange (demo_lib False)
      (logged_poll (\<lambda>(es, w). Some (case es of [] \<Rightarrow> (Inr [], ([], w)) | e # es \<Rightarrow> (Inr [e], (es, w)))))
      (logged_send (\<lambda>m (es, w). Some (Inr True, (es, w)))) 9
      (([], [Connected, Received ''world'', Sent, Sent]), demo_client) = Some (Inr (), (ls, []), w') \<and>
    puts ls = [''hello'', ''ack'']"
proof -
  let ?p = "\<lambda>(es, w). Some (case es of [] \<Rightarrow> (Inr [], ([], w)) | e # es \<Rightarrow> (Inr [e], (es, w)))"
  let ?s = "\<lambda>m (es, w). Some (Inr True, (es, w))"
  have "\<exists>w'. run_exchange (demo_lib False) ?p ?s 9 ([Connected, Received ''world'', Sent, Sent], demo_client) =
      Some (Inr (), [], w')"
    by (simp add: demo_eval cong: demo_congs)
  then obtain w' where "run_exchange (demo_lib False) ?p ?s 9
      ([Connected, Received ''world'', Sent, Sent], demo_client) = Some (Inr (), [], w')" by blast
  from client_success_exact [OF this] show ?thesis by blast
qed

text \<open>
  C11. The client's state is a function of what it has seen: after any trace of its step
  relation, the messages that crossed the connection, sent and received in their order, are
  exactly those its flags record, and the flags only ever follow the protocol's order.
\<close>

theorem client_state_exact:
  assumes "client_trace ls x"
  shows "client_inv ls x \<and> messages ls = client_messages x \<and>
    (Client.complete x \<longrightarrow> messages ls = [Put ''hello'', Got (Received ''world''), Put ''ack''])"
proof -
  note i = client_trace_inv [OF assms] client_trace_messages [OF assms]
  moreover have "hello_posted x \<and> world_received x \<and> ack_posted x" if "Client.complete x"
    using i(1) that unfolding client_inv_def Client.complete_def by blast
  ultimately show ?thesis by (auto simp: client_messages_def)
qed

theorem client_state_exact_witness:
  "messages [Got Connected, Put ''hello''] = [Put ''hello''] \<and>
   client_messages (exchange_default\<lparr>Client.connected := True, hello_posted := True\<rparr>) = [Put ''hello'']"
proof -
  let ?x = "exchange_default\<lparr>Client.connected := True\<rparr>"
  have "client_trace ([] @ [Got Connected]) ?x"
    by (rule client_trace.step [OF client_trace.start])
      (auto intro!: client_step.got simp: exchange_default_def Client.on_event_def)
  moreover have "client_step ?x (Put (message_bytes Hello)) (Client.posted Hello ?x)"
    by (rule client_step.put) (simp_all add: exchange_default_def Client.complete_def next_message_def)
  ultimately have "client_trace (([] @ [Got Connected]) @ [Put (message_bytes Hello)]) (Client.posted Hello ?x)"
    by (rule client_trace.step)
  from client_state_exact [OF this] show ?thesis
    by (simp add: message_bytes_def Client.posted_def client_messages_def exchange_default_def)
qed

text \<open>
  C12. The server's phase is a function of what it has seen: after any trace of its step
  relation, the messages that crossed are the first \<open>phase\<close> ones of \<open>hello\<close>, \<open>world\<close>, \<open>ack\<close>,
  and it is past the reply only when connected; no step takes the phase back.
\<close>

theorem server_state_exact:
  assumes "server_trace ls x"
  shows "messages ls = take (phase_rank (phase x))
      [Got (Received ''hello''), Put ''world'', Got (Received ''ack'')] \<and>
    (P_Reply < phase x \<longrightarrow> Got Connected \<in> set ls) \<and> (Server.complete x \<longrightarrow> Got Sent \<in> set ls) \<and>
    (\<forall>l y. server_step x l y \<longrightarrow> phase x \<le> phase y)"
  using server_trace_inv [OF assms] server_phase_mono
  by (auto simp: server_inv_def Server.complete_def)

theorem server_state_exact_witness:
  "messages [Got (Received ''hello'')] = take (phase_rank P_Reply)
      [Got (Received ''hello''), Put ''world'', Got (Received ''ack'')]"
proof -
  have "server_trace ([] @ [Got (Received ''hello'')]) (exchange_new\<lparr>phase := P_Reply\<rparr>)"
    by (rule server_trace.move [OF server_trace.init])
      (auto intro!: server_step.heard simp: exchange_new_def Server.on_event_def)
  from server_state_exact [OF this] show ?thesis by (simp add: phase_rank_def)
qed

text \<open>
  C13. The order in which a program observes its queues does not matter: any two different
  events that the client, or the server, accepts in a state can be taken in either order, and
  lead to the same state.
\<close>

theorem observations_commute:
  "(\<forall>x y z. client_step x (Got e) y \<longrightarrow> client_step x (Got e') z \<longrightarrow> e \<noteq> e' \<longrightarrow>
      (\<exists>u. client_step y (Got e') u \<and> client_step z (Got e) u)) \<and>
   (\<forall>x y z. server_step x (Got e) y \<longrightarrow> server_step x (Got e') z \<longrightarrow> e \<noteq> e' \<longrightarrow>
      (\<exists>u. server_step y (Got e') u \<and> server_step z (Got e) u))"
  using client_events_commute server_events_commute by blast

theorem observations_commute_witness:
  "\<exists>u. server_step (exchange_new\<lparr>phase := P_Reply\<rparr>) (Got Connected) u \<and>
     server_step (exchange_new\<lparr>Server.connected := True\<rparr>) (Got (Received ''hello'')) u"
proof -
  have "server_step exchange_new (Got (Received ''hello'')) (exchange_new\<lparr>phase := P_Reply\<rparr>)"
    "server_step exchange_new (Got Connected) (exchange_new\<lparr>Server.connected := True\<rparr>)"
    by (auto intro!: server_step.heard simp: exchange_new_def Server.on_event_def)
  with observations_commute [of "Received ''hello''" Connected] show ?thesis by blast
qed

text \<open>
  C14. Over its connection the client's bookkeeping of sends never disagrees with the
  connection's, along any log of polls and sends: whenever it has a message to send the send
  slot is free, so \<open>send slot is already in flight\<close> never reaches it, and it reports a protocol
  error only for a message the server should not have sent.
\<close>

theorem client_agrees_with_connection:
  assumes "io_log (poll E) (send E) (arms E) s0 ls (c, w)" and "client_trace ls x"
    and "conn_ok E w0 (snd s0) (fst s0)" and "\<not> sl_pending (cn_tx (fst s0))"
    and "errno_ok E" and "infos_ok E"
  shows "(next_message x \<noteq> None \<longrightarrow> \<not> sl_pending (cn_tx c)) \<and>
    (\<forall>es c' w' e y. poll E (c, w) = Some (Inr es, (c', w')) \<longrightarrow> Client.handle_events es (x, w') = (Inl e, y) \<longrightarrow>
      (\<exists>m. Received m \<in> set es \<and> e = ''unexpected reply: '' @ show_bytes m @ ''; expected one world message''))"
proof -
  have ok: "conn_ok E w0 w c" "balanced ls c"
    using conn_log_balanced [OF assms(1,3-6)] by simp_all
  have "polled_events c c' es" if "poll E (c, w) = Some (Inr es, (c', w'))" for es c' w'
    using poll_spec [OF ok(1) assms(5,6)] that by (auto simp: runs_Ex polled_def)
  with client_refuses_only_replies [OF assms(2) ok(2)] client_sends_free [OF assms(2) ok(2)]
  show ?thesis by blast
qed

theorem client_agrees_with_connection_witness:
  "\<exists>es c' w' e y m. poll (demo_lib False) (fst demo_session,
      (snd demo_session)\<lparr>prov := (prov (snd demo_session))\<lparr>d_inbox := [''nope'']\<rparr>\<rparr>) = Some (Inr es, (c', w')) \<and>
    Client.handle_events es (exchange_default, w') = (Inl e, y) \<and> Received m \<in> set es"
proof -
  let ?s = "(fst demo_session, (snd demo_session)\<lparr>prov := (prov (snd demo_session))\<lparr>d_inbox := [''nope'']\<rparr>\<rparr>)"
  have ok: "conn_ok (demo_lib False) demo_base (snd ?s) (fst ?s)" using demo_session_ok by simp
  have idle: "\<not> sl_pending (cn_tx (fst ?s))" using demo_session_idle(1) by simp
  have "\<exists>es c' w' e y. poll (demo_lib False) ?s = Some (Inr es, (c', w')) \<and>
      Client.handle_events es (exchange_default, w') = (Inl e, y)"
    by (simp add: demo_session_def demo_base_def demo_eval add_fabric_def add_info_def cong: demo_congs)
  then obtain es c' w' e y where p: "poll (demo_lib False) ?s = Some (Inr es, (c', w'))"
    and h: "Client.handle_events es (exchange_default, w') = (Inl e, y)" by blast
  have l: "io_log (poll (demo_lib False)) (send (demo_lib False)) (arms (demo_lib False)) ?s [] ?s"
    by (rule io_log.start)
  from client_agrees_with_connection [OF l client_trace.start ok idle demo_errno_ok demo_infos_ok] p h
  show ?thesis by blast
qed

text \<open>
  C15. The event loops of both programs over a consistent connection return and keep it
  consistent, and they keep their deadline exactly: every round but the last reading of the
  clock began before it, and if the last reading is not before it, the result is the
  program's timeout error.
\<close>

theorem exchange_loops_on_time:
  assumes "conn_ok E w0 w c" and "errno_ok E" and "infos_ok E" and "clock_advances E"
  shows "(\<exists>r c' w'. serve E timeout (c, w) = Some (r, (c', w')) \<and> conn_ok E w0 w' c' \<and>
      on_time E (clock E (ticks w) + timeout) (ticks w + 1) (ticks w') \<and>
      (clock E (ticks w) + timeout \<le> clock E (ticks w' - 1) \<longrightarrow> (\<exists>x. r = Inl (server_timeout x)))) \<and>
    (\<exists>r c' w'. run_exchange E (poll E) (send E) timeout (c, w) = Some (r, (c', w')) \<and> conn_ok E w0 w' c' \<and>
      on_time E (clock E (ticks w) + timeout) (ticks w + 1) (ticks w') \<and>
      (clock E (ticks w) + timeout \<le> clock E (ticks w' - 1) \<longrightarrow> (\<exists>x. r = Inl (client_timeout x))))"
  using serve_on_time [OF assms] run_exchange_on_time [OF assms] by blast

theorem exchange_loops_on_time_witness:
  "(\<exists>r c' w'. serve (demo_lib False) 30 demo_session = Some (r, (c', w')) \<and>
    conn_ok (demo_lib False) demo_base w' c') \<and>
   (\<exists>r c' w'. run_exchange (demo_lib False) (poll (demo_lib False)) (send (demo_lib False)) 30 demo_session =
      Some (r, (c', w')) \<and> conn_ok (demo_lib False) demo_base w' c')"
  using exchange_loops_on_time [OF demo_session_ok demo_errno_ok demo_infos_ok demo_clock, of 30]
  unfolding prod.collapse by blast

text \<open>
  C16. A client whose peer never connects, or closes before it could send, gives up at its
  deadline with the timeout error and has sent nothing (the scripted transport of the unit
  test \<open>stalled_or_closed_peer_reaches_deadline_without_sending\<close>).
\<close>

theorem stalled_client_times_out:
  assumes "clock_advances E" and "es \<in> {[], [Connected, PeerClosed]}"
  shows "\<exists>x io w'. run_exchange E fake_poll fake_send timeout (fake_start [es] False, w) =
    Some (Inl (''client exchange timeout: '' @ show_exchange x), (io, w')) \<and> attempts io = []"
  using stalled_times_out [OF assms] .

theorem stalled_client_times_out_witness:
  "\<exists>x io w'. run_exchange (demo_lib False) fake_poll fake_send 5
      (fake_start [[Connected, PeerClosed]] False, demo_client) =
    Some (Inl (''client exchange timeout: '' @ show_exchange x), (io, w')) \<and> attempts io = []"
  using stalled_client_times_out [OF demo_clock, of "[Connected, PeerClosed]" False 5 demo_client] by simp

text \<open>
  C17. With enough time, a refused first send is retried with the same message, an out-of-order
  reply before the completion and a peer that closes early are both accepted, and the exchange
  succeeds having attempted exactly the expected sends (the unit test
  \<open>event_loop_retries_eagain_and_drains_ack_after_shutdown\<close>).
\<close>

theorem client_retries_and_drains:
  assumes "\<forall>i<8. clock E (ticks w + 1 + i) < clock E (ticks w) + timeout"
  shows "\<exists>w'. run_exchange E fake_poll fake_send timeout (fake_start [[Connected]] b, w) =
    Some (Inr (), \<lparr>events = [],
      attempts = (if b then [''hello''] else []) @ [''hello'', ''ack''], again = False\<rparr>, w')"
  using retries_and_drains [OF assms] .

theorem client_retries_and_drains_witness:
  "\<exists>w'. run_exchange (demo_lib False) fake_poll fake_send 30 (fake_start [[Connected]] True, demo_client) =
    Some (Inr (), \<lparr>events = [], attempts = [''hello'', ''hello'', ''ack''], again = False\<rparr>, w')"
  using client_retries_and_drains [of "demo_lib False" demo_client 30 True]
  by (simp add: demo_lib_def demo_client_def empty_world_def)



section \<open>Connections\<close>

text \<open>
  C19. Connecting returns: it yields an open connection with every handle set and its receive
  buffer posted, or it fails, and then, when closes succeed, everything it opened is closed
  and its buffers are freed.
\<close>

theorem connect_opens_or_restores:
  assumes "inv w" and "fabrics w (fabric_raw fabric) \<noteq> None" and "infos w (info_raw info) \<noteq> None"
    and "tx_buf \<noteq> 0" "rx_buf \<noteq> 0" "tx_buf \<noteq> rx_buf" "mem w tx_buf = None" "mem w rx_buf = None"
    and "errno_ok E" "infos_ok E" "clock_advances E"
  shows "\<exists>r w'. connect E tx_buf rx_buf fabric info timeout w = Some (r, w') \<and> inv w' \<and>
    (case r of Inr c \<Rightarrow> open_conn E w (fabric_raw fabric) c w'
     | Inl _ \<Rightarrow> closes_ok E \<longrightarrow> restored E w w')"
proof -
  obtain r w' where "connect E tx_buf rx_buf fabric info timeout w = Some (r, w')"
    and "connected_as E w (fabric_raw fabric) r w'"
    using connect_spec [OF assms, of timeout] by (auto simp: runs_Ex)
  then show ?thesis by (cases r) (simp_all add: connected_as_def)
qed

theorem connect_opens_or_restores_witness:
  "connect (demo_lib False) 1 2 \<lparr>fabric_raw = 32\<rparr> \<lparr>info_raw = 16\<rparr> 30 demo_base =
      Some (Inr (fst demo_session), snd demo_session) \<and>
   open_conn (demo_lib False) demo_base 32 (fst demo_session) (snd demo_session)"
  using connect_opens_or_restores [of demo_base "\<lparr>fabric_raw = 32\<rparr>" "\<lparr>info_raw = 16\<rparr>" 1 2 "demo_lib False" 30]
    demo_base_inv demo_base_parts demo_errno_ok demo_infos_ok demo_clock demo_connects
  by auto

text \<open>
  C20. Sending on any consistent connection returns and keeps it consistent: a message is
  accepted exactly when the send slot becomes pending, only if it was free, and nothing else
  of the connection changes; refused or failed, the connection is as before.
\<close>

theorem send_correct:
  assumes "conn_ok E w0 w c" and "errno_ok E"
  shows "\<exists>r c' w'. send E msg (c, w) = Some (r, (c', w')) \<and> conn_ok E w0 w' c' \<and>
    c' = (if r = Inr True then c\<lparr>cn_tx := (cn_tx c)\<lparr>sl_pending := True\<rparr>\<rparr> else c) \<and>
    (r = Inr True \<longrightarrow> \<not> sl_pending (cn_tx c))"
  using send_spec [OF assms, of msg]
  by (auto simp: runs_Ex posted_by_def slot_of_def with_slot_def split: if_splits)

theorem send_correct_witness:
  "\<exists>r c' w'. send (demo_lib False) ''hello'' demo_session = Some (r, (c', w')) \<and>
    conn_ok (demo_lib False) demo_base w' c'"
  using send_correct [OF demo_session_ok demo_errno_ok, of "''hello''"] by auto

text \<open>
  C21. Polling a consistent connection returns and keeps it consistent; a successful poll
  reports at most one send completion, only for a pending send, which it retires; at most one
  message, only for a pending receive, no longer than the buffer; and at most one connection
  event, in this order.
\<close>

theorem poll_correct:
  assumes "conn_ok E w0 w c" and "errno_ok E" and "infos_ok E"
  shows "\<exists>r c' w'. poll E (c, w) = Some (r, (c', w')) \<and> conn_ok E w0 w' c' \<and> kept c c' \<and>
    (\<forall>es. r = Inr es \<longrightarrow> polled_events c c' es)"
  using poll_spec [OF assms] by (auto simp: runs_Ex polled_def)

theorem poll_correct_witness:
  "\<exists>r c' w'. poll (demo_lib False) demo_session = Some (r, (c', w')) \<and>
    conn_ok (demo_lib False) demo_base w' c'"
  using poll_correct [OF demo_session_ok demo_errno_ok demo_infos_ok] by auto

text \<open>
  C22. Closing a consistent connection returns and keeps it consistent, whichever close is
  refused; if it reports success, every handle and both buffers are gone; and it does report
  success when the provider's closes do.
\<close>

theorem conn_close_correct:
  assumes "conn_ok E w0 w c" and "errno_ok E"
  shows "\<exists>r c' w'. conn_close E (c, w) = Some (r, (c', w')) \<and> conn_ok E w0 w' c' \<and> cn_closing c' \<and>
    (is_ok r \<longrightarrow> conn_gone c') \<and> (closes_ok E \<longrightarrow> is_ok r)"
  using conn_close_spec [OF assms] by (auto simp: runs_Ex attempt_def closing_from_def)

theorem conn_close_correct_witness:
  "\<exists>c' w'. conn_close (demo_lib False) demo_session = Some (Inr (), (c', w')) \<and> conn_gone c'"
  using conn_close_correct [OF demo_session_ok demo_errno_ok] demo_closes_ok [of False]
  by (auto simp: is_ok_Ex)

text \<open>
  C23. Dropping a consistent connection never leaks or frees early: the world stays
  consistent, so no buffer a live registration covers is freed even when a close is refused,
  and when closes succeed the world is the one before the connection.
\<close>

theorem conn_drop_correct:
  assumes "conn_ok E w0 w c" and "errno_ok E"
  shows "\<exists>w'. conn_drop E c w = Some w' \<and> inv w' \<and> (closes_ok E \<longrightarrow> restored E w0 w')"
  using conn_drop_spec [OF assms] by (auto simp: runs_Ex)

theorem conn_drop_correct_witness:
  "\<exists>w'. conn_drop (demo_lib False) (fst demo_session) (snd demo_session) = Some w' \<and>
    restored (demo_lib False) demo_base w'"
  using conn_drop_correct [OF demo_session_ok demo_errno_ok] demo_closes_ok [of False] by auto





section \<open>Listeners\<close>

text \<open>
  C26. Binding a listener yields a listener whose queue and endpoint are alive and were not
  before, or fails; a failure, also half way, gives back what was opened when closes succeed.
\<close>

theorem listener_bind_correct:
  assumes "inv w" and "fabrics w (fabric_raw fb) \<noteq> None" and "infos w (info_raw info) \<noteq> None"
    and "errno_ok E"
  shows "\<exists>r w'. listener_bind E fb info w = Some (r, w') \<and> (case r of
      Inr l \<Rightarrow> bound w l w' \<and> ls_fabric l = fabric_raw fb \<and> ls_eq l \<noteq> 0 \<and> ls_raw l \<noteq> 0
    | Inl _ \<Rightarrow> inv w' \<and> (closes_ok E \<longrightarrow> restored E w w'))"
proof -
  obtain r w' where b: "listener_bind E fb info w = Some (r, w')" and s: "case r of Inl _ \<Rightarrow> left E w w'
      | Inr l \<Rightarrow> bound w l w' \<and> ls_fabric l = fabric_raw fb \<and> ls_eq l \<noteq> 0 \<and> ls_raw l \<noteq> 0"
    using listener_bind_spec [OF assms] by (auto simp: runs_Ex)
  then show ?thesis by (cases r) (auto simp: left_def scope_def)
qed

theorem listener_bind_correct_witness:
  "listener_bind (demo_lib True) \<lparr>fabric_raw = 32\<rparr> \<lparr>info_raw = 16\<rparr> demo_base =
      Some (Inr (fst demo_bound), snd demo_bound) \<and> bound demo_base (fst demo_bound) (snd demo_bound)"
  using listener_bind_correct [of demo_base "\<lparr>fabric_raw = 32\<rparr>" "\<lparr>info_raw = 16\<rparr>" "demo_lib True"]
    demo_base_inv demo_base_parts demo_errno_ok demo_binds
  by auto

text \<open>
  C27. Waiting for a request returns, with one new information record owned by the request or
  with an error and an unchanged object graph, and keeps its deadline: every round began
  before it, and past it the result is the timeout error.
\<close>

theorem wait_request_returns:
  assumes "inv w" and "eqs w (ls_eq l) \<noteq> None" and "errno_ok E" "infos_ok E" "clock_advances E"
  shows "\<exists>r w'. wait_request E l timeout w = Some (r, w') \<and>
    (case r of Inr q \<Rightarrow> requested l w q w' | Inl _ \<Rightarrow> quiet w w') \<and>
    on_time E (clock E (ticks w) + timeout) (ticks w + 1) (ticks w') \<and>
    (clock E (ticks w) + timeout \<le> clock E (ticks w' - 1) \<longrightarrow>
      r = Inl ''timeout waiting for a connection request'')"
  using wait_request_on_time [OF assms, of timeout] by (auto simp: waited_def)

theorem wait_request_returns_witness:
  "wait_request (demo_lib True) (fst demo_bound) 30 (snd demo_bound) =
     Some (Inr (fst demo_asked), snd demo_asked) \<and>
   requested (fst demo_bound) (snd demo_bound) (fst demo_asked) (snd demo_asked)"
  using wait_request_returns [of "snd demo_bound" "fst demo_bound" "demo_lib True" 30]
    demo_bound_live demo_errno_ok demo_infos_ok demo_clock demo_asks by simp

text \<open>
  C28. Closing a bound listener and dropping it gives back the queue and the endpoint that
  binding opened, whatever the program did in between, as far as closes succeed; a refused
  close leaves the object graph consistent.
\<close>

theorem listener_gives_back:
  assumes "bound w0 l wb" and "left E wb w" and "errno_ok E"
  shows "\<exists>r l' w1 w'. listener_close E (l, w) = Some (r, (l', w1)) \<and> listener_drop E l' w1 = Some w' \<and>
    inv w' \<and> (closes_ok E \<longrightarrow> restored E w0 w')"
  using leave_listener [OF assms] by (auto simp: runs_Ex left_def scope_def bind_eq_Some_conv)

theorem listener_gives_back_witness:
  "\<exists>r l' w1 w'. listener_close (demo_lib True) demo_bound = Some (r, (l', w1)) \<and>
    listener_drop (demo_lib True) l' w1 = Some w' \<and> restored (demo_lib True) demo_base w'"
proof -
  have "left (demo_lib True) (snd demo_bound) (snd demo_bound)"
    using quiet_left [OF quietI(1) demo_bound_live(1)] .
  from listener_gives_back [OF demo_bound_ok(1) this demo_errno_ok] demo_closes_ok [of True]
  show ?thesis by auto
qed

section \<open>The shim\<close>

text \<open>
  C29. From any consistent object graph, every call of the shim whose handles are alive or null
  returns, dereferences only live objects and leaves the graph consistent, whatever the
  library answers.
\<close>

theorem shim_calls_safe:
  assumes "errno_ok E" and "infos_ok E" and "inv w" and "permitted c w"
  shows "\<exists>r w'. perform E c w = Some (r, w') \<and> inv w'"
  using perform_keeps [OF assms] by (auto simp: runs_Ex)

theorem shim_calls_safe_witness:
  "\<exists>r w'. perform (demo_lib False) (EndpointClose (cn_ep (fst demo_session))) (snd demo_session) =
      Some (r, w') \<and> inv w'"
  using shim_calls_safe [OF demo_errno_ok [of False] demo_infos_ok demo_session_inv,
      of "EndpointClose (cn_ep (fst demo_session))"] demo_session_live(5) [OF demo_session_handles(3)]
  by (simp add: alive_def)

text \<open>
  C30. After any history of permitted calls, with the caller allocating, writing and freeing
  buffers in between (freeing only what no region covers), the counters are exact: a domain
  counts no children exactly when no queue, region or endpoint of it is alive, a fabric none
  exactly when it has no domain, queue or listener, and a region has nothing pending exactly
  when no operation refers to it.
\<close>

theorem shim_history_exact:
  assumes "(shim_step E)\<^sup>*\<^sup>* (empty_world p) w" and "errno_ok E" and "infos_ok E"
  shows "inv w \<and>
    (\<forall>a d. domains w a = Some d \<longrightarrow> d_children d = 0 \<longleftrightarrow> \<not> domain_in_use w a) \<and>
    (\<forall>a f. fabrics w a = Some f \<longrightarrow> f_children f = 0 \<longleftrightarrow> (\<forall>b x. domains w b = Some x \<longrightarrow> d_fabric x \<noteq> a) \<and>
      (\<forall>b x. eqs w b = Some x \<longrightarrow> e_fabric x \<noteq> a) \<and> (\<forall>b x. listeners w b = Some x \<longrightarrow> l_fabric x \<noteq> a)) \<and>
    (\<forall>a m. mrs w a = Some m \<longrightarrow> m_pending m = 0 \<longleftrightarrow> (\<forall>b x. ops w b = Some x \<longrightarrow> o_mr x \<noteq> a))"
proof -
  have i: "inv w" by (rule history_inv [OF assms inv_empty_world])
  have "d_children d = 0 \<longleftrightarrow> \<not> domain_in_use w a" if "domains w a = Some d" for a d
    unfolding counters_exact(1) [OF i that] domain_in_use_def by blast
  with i counters_exact(2,4) [OF i] show ?thesis by blast
qed

theorem shim_history_exact_witness:
  "\<exists>w. (shim_step (demo_lib False))\<^sup>*\<^sup>* demo_client w \<and> w \<noteq> demo_client \<and> inv w"
proof -
  have "\<exists>r w. perform (demo_lib False) (InfoOpen (Some ''10.0.0.1'') (Some ''7471'') None 0) demo_client =
      Some (r, w) \<and> infos w \<noteq> infos demo_client"
    by (simp add: demo_eval code_of_def add_info_def fun_eq_iff cong: demo_congs)
  then obtain r w where p: "perform (demo_lib False)
      (InfoOpen (Some ''10.0.0.1'') (Some ''7471'') None 0) demo_client = Some (r, w)"
    and ne: "infos w \<noteq> infos demo_client" by blast
  have "(shim_step (demo_lib False))\<^sup>*\<^sup>* demo_client w"
    by (rule r_into_rtranclp, rule shim_step.call [OF _ p]) simp
  moreover from this have "inv w"
    using shim_history_exact [OF _ demo_errno_ok demo_infos_ok] unfolding demo_client_def by blast
  ultimately show ?thesis using ne by blast
qed

text \<open>
  C31. Closing a domain is refused with \<open>FI_EBUSY\<close> and without touching the library exactly
  while something of it is alive; otherwise the library's close decides: success removes the
  domain and its parent's count, a failure keeps both.
\<close>

theorem domain_close_refusal:
  assumes "inv w" and "domains w a = Some d"
  shows "shim_domain_close E a w = Some
    (if domain_in_use w a then (- errno E FI_EBUSY, w)
     else (let (r, p) = fi_close E (d_raw d) (prov w)
           in if r = 0 then (0, del_domain a d (w\<lparr>prov := p\<rparr>)) else (r, w\<lparr>prov := p\<rparr>)))"
  by (rule domain_close_exact [OF assms])

theorem domain_close_refusal_witness:
  "shim_domain_close (demo_lib False) (cn_domain (fst demo_session)) (snd demo_session) =
    Some (- 16, snd demo_session)"
proof -
  let ?c = "fst demo_session"
  obtain d where d: "domains (snd demo_session) (cn_domain ?c) = Some d"
    using demo_session_live(1) [OF demo_session_handles(1)] by blast
  obtain p where p: "endpoints (snd demo_session) (cn_ep ?c) = Some p"
    using demo_session_live(5) [OF demo_session_handles(3)] by blast
  with demo_session_ok have "p_domain p = cn_domain ?c" by (simp add: conn_ok_def conn_links_def)
  with p have "domain_in_use (snd demo_session) (cn_domain ?c)" by (auto simp: domain_in_use_def)
  with domain_close_refusal [OF demo_session_inv d, of "demo_lib False"]
  show ?thesis by (simp add: demo_lib_def)
qed

text \<open>
  C32. Opening an endpoint returns on every branch: a failure without a handle leaves every
  object as it was, except that its two completion queues may be retired; a handle is fresh,
  registered with all of its parents, and usable exactly when the call succeeded.
\<close>

theorem endpoint_open_rolls_back:
  assumes "inv w" and "errno_ok E" and "domains w d \<noteq> None" and "infos w i \<noteq> None"
    and "eqs w e \<noteq> None" and "cqs w t \<noteq> None" and "cqs w u \<noteq> None"
  shows "\<exists>r a w'. shim_endpoint_open E d i e t u True w = Some ((r, a), w') \<and> inv w' \<and>
    endpoint_opened d e t u w ((r, a), w')"
proof -
  obtain y z ct cu where "domains w d = Some y" "eqs w e = Some z" "cqs w t = Some ct" "cqs w u = Some cu"
    using assms by blast
  from shim_endpoint_open_spec [OF assms(1,2) this(1) assms(4) this(2-4)]
  show ?thesis by (auto simp: runs_Ex)
qed

theorem endpoint_open_rolls_back_witness:
  "\<exists>r a w'. shim_endpoint_open (demo_lib False) (cn_domain (fst demo_session)) 16 (cn_eq (fst demo_session))
     (cn_tx_cq (fst demo_session)) (cn_rx_cq (fst demo_session)) True (snd demo_session) =
     Some ((r, a), w') \<and> inv w'"
proof -
  have "infos (snd demo_session) 16 \<noteq> None"
    using demo_session_ok demo_base_parts(2) by (auto simp: conn_ok_def conn_frame_def map_le_def dom_def)
  with endpoint_open_rolls_back [OF demo_session_inv demo_errno_ok] demo_session_live(1-4) demo_session_handles
  show ?thesis by blast
qed



text \<open>
  C34. Polling a completion queue retires at most one operation, one that was in flight on this
  very queue, and reports its identifier, direction and, for a send, its length; otherwise
  nothing changes but the provider's own write into a buffer that is still lent to it.
\<close>

theorem cq_poll_exact:
  assumes "inv w" and "cqs w q = Some c"
  shows "\<exists>r out w'. shim_cq_poll E q True w = Some ((r, out), w') \<and> inv w' \<and> cq_polled q c w ((r, out), w')"
  using shim_cq_poll_spec [OF assms, of E] by (auto simp: runs_Ex)

theorem cq_poll_exact_witness:
  "\<exists>r out w'. shim_cq_poll (demo_lib False) (cn_tx_cq (fst demo_session)) True (snd demo_session) =
    Some ((r, out), w') \<and> inv w'"
  using cq_poll_exact [OF demo_session_inv] demo_session_live(3) [OF demo_session_handles(4)] by blast

text \<open>
  C35. A successful close of an endpoint takes its operations off the device: none of them
  keeps a region busy any more, and both of its queues are detached and retired.
\<close>

theorem endpoint_close_frees_regions:
  assumes "inv w" and "endpoints w a = Some p" and "shim_endpoint_close E a w = Some (0, w')"
    and "errno_ok E"
  shows "inv w' \<and> endpoints w' a = None \<and>
    (\<forall>x op. ops w' x = Some op \<longrightarrow> o_cq op = p_tx p \<or> o_cq op = p_rx p \<longrightarrow> o_mr op = 0) \<and>
    (\<forall>q c. cqs w' q = Some c \<longrightarrow> q = p_tx p \<or> q = p_rx p \<longrightarrow> c_retired c \<and> \<not> c_attached c)"
  using endpoint_close_releases [OF assms] by blast

theorem endpoint_close_frees_regions_witness:
  "\<exists>w'. shim_endpoint_close (demo_lib False) (cn_ep (fst demo_session)) (snd demo_session) = Some (0, w') \<and>
    inv w' \<and> endpoints w' (cn_ep (fst demo_session)) = None"
proof -
  have "\<exists>w'. shim_endpoint_close (demo_lib False) (cn_ep (fst demo_session)) (snd demo_session) = Some (0, w')"
    by (simp add: demo_session_def demo_base_def demo_eval add_fabric_def add_info_def cong: demo_congs)
  then obtain w' where "shim_endpoint_close (demo_lib False) (cn_ep (fst demo_session)) (snd demo_session) =
      Some (0, w')" by blast
  with endpoint_close_frees_regions [OF demo_session_inv _ this demo_errno_ok]
    demo_session_live(5) [OF demo_session_handles(3)] show ?thesis by blast
qed





text \<open>
  C38. The C example gives back what it opened. For any arguments and any library whose clock
  advances, \<^verbatim>\<open>main\<close> returns: every five-second wait ends, no call gets a handle that is not live, no
  buffer is read or written while an operation borrows its region, and none is freed while a
  region is registered over it. At the end no query result is left; when closes succeed,
  no object and no memory is left at all.
\<close>

theorem pingpong_main_clean:
  assumes "errno_ok E" and "infos_ok E" and "clock_advances E"
  shows "\<exists>status w. pingpong_main E argv (empty_world p) = Some (status, w) \<and> inv w \<and>
    infos w = Map.empty \<and> fi_lists w = 0 \<and> (closes_ok E \<longrightarrow> nothing_left w)"
  using pingpong_main_runs [of E argv p] assms by (auto simp: lib_ok_def runs_Ex)

theorem pingpong_main_clean_witness:
  "\<exists>w. pingpong_main (demo_lib False) [''shim_pingpong'', ''client'', ''10.0.0.1'', ''7471''] demo_client =
      Some (0, w) \<and> nothing_left w"
  using pingpong_main_clean [OF demo_errno_ok [of False] demo_infos_ok demo_clock,
      of "[''shim_pingpong'', ''client'', ''10.0.0.1'', ''7471'']" "demo_start [] [(''hello'', ''world'')]"]
    pingpong_passes demo_closes_ok [of False]
  by (auto simp: demo_client_def)

section \<open>Text and numbers\<close>

text \<open>
  C39. The timeout argument is accepted exactly when there are one to four arguments and the
  fourth, if given, is a \<open>u64\<close> between 1 and 3600; every such number is read back as it is
  printed, and without it the timeout is 30 seconds.
\<close>

theorem timeout_argument_exact:
  "(parse_timeout usage args = Inr n \<longleftrightarrow> args \<noteq> [] \<and> length args \<le> 4 \<and> 1 \<le> n \<and> n \<le> 3600 \<and>
     (if length args = 4 then parse_u64 (args ! 3) = Some n else n = 30)) \<and>
   (n < 2 ^ 64 \<longrightarrow> parse_u64 (show_nat n) = Some n)"
proof -
  have "(parse_timeout usage args = Inr n) = (args \<noteq> [] \<and> length args \<le> 4 \<and> 1 \<le> n \<and> n \<le> 3600 \<and>
     (if length args = 4 then parse_u64 (args ! 3) = Some n else n = 30))"
    by (auto simp: parse_timeout_def arg_def not_less split: option.splits if_splits)
  then show ?thesis using parse_show_u64(1) [of n] by blast
qed

theorem timeout_argument_exact_witness:
  "parse_u64 (show_nat 3600) = Some 3600 \<and>
   parse_timeout ''usage'' [''ip'', ''7471'', ''rxe0'', show_nat 3600] = Inr 3600"
  using timeout_argument_exact [of "''usage''" "[''ip'', ''7471'', ''rxe0'', show_nat 3600]" 3600] by simp

text \<open>
  C40. Error texts survive the way from C to Rust: an ASCII text shorter than the buffer is
  read back unchanged, a longer one is cut at the buffer's end, and the lossy decoding that
  makes any bytes printable changes nothing when it is applied again.
\<close>

theorem error_text_crosses:
  assumes "CHR 0x00 \<notin> set s"
  shows "take_until_nul (c_text s) = take (SHIM_ERROR_TEXT_SIZE - 1) s \<and>
    (ascii s \<longrightarrow> length s < SHIM_ERROR_TEXT_SIZE \<longrightarrow> error_text (c_text s) = s) \<and>
    from_utf8_lossy (error_text (c_text s)) = error_text (c_text s)"
  using takeWhile_c_text [OF assms] text_crosses [OF assms]
    lossy_idempotent [of "take_until_nul (c_text s)"]
  by (simp add: error_text_def)

theorem error_text_crosses_witness:
  "error_text (c_text ''local protection error'') = ''local protection error''"
  using error_text_crosses [of "''local protection error''"]
  by (simp add: ascii_def SHIM_ERROR_TEXT_SIZE_def)

end
